(* ===== verification/Pool_Prelude.thy ===== *)
theory Pool_Prelude
  imports Complex_Main
begin

text \<open>
  Shared vocabulary of the prima-pool development.

  The server is Python: an operation reads and writes the state and either returns a value or
  raises. Such code is an \<^emph>\<open>action\<close>: a function from the state to an outcome (\<open>Inl\<close> the
  exception, \<open>Inr\<close> the value) and the state that is left behind, so that what was committed before
  an exception is kept. A database transaction (\<open>with self._conn\<close>) is \<open>atomic\<close>: it rolls back.

  This theory holds the exceptions, the action combinators with their weakest-precondition
  calculus, Python's dict, \<open>str.split\<close>, \<open>str(int)\<close> and \<open>int(str)\<close>, and the list facts
  that the components share.
\<close>

named_theorems wp_simps "weakest-precondition equations of the action combinators"
named_theorems keeps_intros "rules that show that an action keeps an invariant"

section \<open>Exceptions\<close>

text \<open>
  \<open>ProblemError\<close> and its subclasses (errors.py) carry an HTTP status and an RFC 7807 type; the
  other constructors are the built-in exceptions that the modelled code can raise; \<open>OperationalError\<close> and \<open>DatabaseError\<close> are sqlite3's,
  \<open>RequestValidation\<close> is the framework's answer to a body that fails its schema (a 422).
\<close>

datatype problem_class =
    ProblemError | UnauthorizedError | ForbiddenError | NotFoundError | ConflictError
  | BadRequestError | TooManyRequestsError

record problem =
  p_class :: problem_class
  p_status :: nat
  p_type :: string
  p_title :: string
  p_detail :: "string option"
  p_instance :: "string option"

datatype exn =
    Problem problem
  | IntegrityError
  | OverflowError
  | KeyError string
  | IndexError
  | AttributeError
  | RuntimeError string
  | TypeError
  | ValueError
  | OperationalError
  | DatabaseError
  | RequestValidation

section \<open>Actions\<close>

type_synonym ('s, 'a) act = "'s \<Rightarrow> (exn + 'a) \<times> 's"

definition ret :: "'a \<Rightarrow> ('s, 'a) act" where
  "ret x = (\<lambda>s. (Inr x, s))"

definition throw :: "exn \<Rightarrow> ('s, 'a) act" where
  "throw e = (\<lambda>s. (Inl e, s))"

definition bnd :: "('s, 'a) act \<Rightarrow> ('a \<Rightarrow> ('s, 'b) act) \<Rightarrow> ('s, 'b) act" where
  "bnd m f = (\<lambda>s. case m s of (Inl e, t) \<Rightarrow> (Inl e, t) | (Inr x, t) \<Rightarrow> f x t)"

definition seqa :: "('s, 'a) act \<Rightarrow> ('s, 'b) act \<Rightarrow> ('s, 'b) act" where
  "seqa m n = bnd m (\<lambda>_. n)"

definition gets :: "('s \<Rightarrow> 'a) \<Rightarrow> ('s, 'a) act" where
  "gets f = (\<lambda>s. (Inr (f s), s))"

definition puts :: "('s \<Rightarrow> 's) \<Rightarrow> ('s, unit) act" where
  "puts f = (\<lambda>s. (Inr (), f s))"

definition lift_result :: "exn + 'a \<Rightarrow> ('s, 'a) act" where
  "lift_result r = (\<lambda>s. (r, s))"

text \<open>A computation that only reads, and may raise.\<close>

definition asks :: "('s \<Rightarrow> exn + 'a) \<Rightarrow> ('s, 'a) act" where
  "asks f = (\<lambda>s. (f s, s))"

text \<open>\<open>try m except: h\<close>, with the exception passed to the handler.\<close>

definition try_with :: "('s, 'a) act \<Rightarrow> (exn \<Rightarrow> ('s, 'a) act) \<Rightarrow> ('s, 'a) act" where
  "try_with m h = (\<lambda>s. case m s of (Inl e, t) \<Rightarrow> h e t | (Inr x, t) \<Rightarrow> (Inr x, t))"

text \<open>A transaction: the new state is kept only when the body returns.\<close>

definition atomic :: "('s, 'a) act \<Rightarrow> ('s, 'a) act" where
  "atomic m = (\<lambda>s. case m s of (Inl e, t) \<Rightarrow> (Inl e, s) | (Inr x, t) \<Rightarrow> (Inr x, t))"

fun for_each :: "('a \<Rightarrow> ('s, unit) act) \<Rightarrow> 'a list \<Rightarrow> ('s, unit) act" where
  "for_each f [] = ret ()"
| "for_each f (x # xs) = seqa (f x) (for_each f xs)"

definition run_state :: "('s, 'a) act \<Rightarrow> 's \<Rightarrow> 's" where
  "run_state m s = snd (m s)"

lemmas act_defs = ret_def throw_def bnd_def seqa_def gets_def puts_def lift_result_def asks_def
  try_with_def atomic_def run_state_def

lemma bnd_gets: "bnd (gets f) g s = g (f s) s"
  by (simp add: bnd_def gets_def)

subsection \<open>Weakest preconditions\<close>

text \<open>
  \<open>wp m Q E s\<close>: from \<open>s\<close>, \<open>m\<close> either returns a value that satisfies \<open>Q\<close> with the state
  it leaves, or raises an exception that satisfies \<open>E\<close> with the state it leaves.
\<close>

definition wp ::
  "('s, 'a) act \<Rightarrow> ('a \<Rightarrow> 's \<Rightarrow> bool) \<Rightarrow> (exn \<Rightarrow> 's \<Rightarrow> bool) \<Rightarrow> 's \<Rightarrow> bool" where
  "wp m Q E s = (case m s of (Inl e, t) \<Rightarrow> E e t | (Inr x, t) \<Rightarrow> Q x t)"

lemma wp_ret [wp_simps]: "wp (ret x) Q E s = Q x s"
  by (simp add: wp_def ret_def)

lemma wp_throw [wp_simps]: "wp (throw e) Q E s = E e s"
  by (simp add: wp_def throw_def)

lemma wp_bnd [wp_simps]: "wp (bnd m f) Q E s = wp m (\<lambda>x. wp (f x) Q E) E s"
  by (simp add: wp_def bnd_def split: prod.split sum.split)

lemma wp_seqa [wp_simps]: "wp (seqa m n) Q E s = wp m (\<lambda>_. wp n Q E) E s"
  by (simp add: seqa_def wp_bnd)

lemma wp_gets [wp_simps]: "wp (gets f) Q E s = Q (f s) s"
  by (simp add: wp_def gets_def)

lemma wp_puts [wp_simps]: "wp (puts f) Q E s = Q () (f s)"
  by (simp add: wp_def puts_def)

lemma wp_lift_result [wp_simps]:
  "wp (lift_result r) Q E s = (case r of Inl e \<Rightarrow> E e s | Inr x \<Rightarrow> Q x s)"
  by (simp add: wp_def lift_result_def split: sum.split)

lemma wp_asks [wp_simps]:
  "wp (asks f) Q E s = (case f s of Inl e \<Rightarrow> E e s | Inr x \<Rightarrow> Q x s)"
  by (simp add: wp_def asks_def split: sum.split)

lemma wp_try_with [wp_simps]: "wp (try_with m h) Q E s = wp m Q (\<lambda>e. wp (h e) Q E) s"
  by (simp add: wp_def try_with_def split: prod.split sum.split)

lemma wp_atomic [wp_simps]: "wp (atomic m) Q E s = wp m Q (\<lambda>e _. E e s) s"
  by (simp add: wp_def atomic_def split: prod.split sum.split)

lemma wp_for_each_Nil [wp_simps]: "wp (for_each f []) Q E s = Q () s"
  by (simp add: wp_ret)

lemma wp_for_each_Cons [wp_simps]:
  "wp (for_each f (x # xs)) Q E s = wp (f x) (\<lambda>_. wp (for_each f xs) Q E) E s"
  by (simp add: wp_seqa)

text \<open>The same equations where the state is not applied yet, as in a continuation.\<close>

lemma wp_funs:
  "wp (ret x) Q E = Q x" "wp (throw e) Q E = E e" "wp (bnd m f) Q E = wp m (\<lambda>x. wp (f x) Q E) E"
  "wp (seqa m n) Q E = wp m (\<lambda>_. wp n Q E) E" "wp (try_with m h) Q E = wp m Q (\<lambda>e. wp (h e) Q E)"
  by (simp_all add: fun_eq_iff wp_simps)

lemma wp_conseq:
  "wp m Q E s \<Longrightarrow> (\<And>x t. Q x t \<Longrightarrow> Q' x t) \<Longrightarrow> (\<And>e t. E e t \<Longrightarrow> E' e t) \<Longrightarrow> wp m Q' E' s"
  by (auto simp: wp_def split: prod.splits sum.splits)

lemma wp_conj:
  "wp m Q E s \<Longrightarrow> wp m Q' E' s \<Longrightarrow> wp m (\<lambda>x t. Q x t \<and> Q' x t) (\<lambda>e t. E e t \<and> E' e t) s"
  by (auto simp: wp_def split: prod.splits sum.splits)

lemma wp_state: "wp m (\<lambda>_. P) (\<lambda>_. P) s = P (run_state m s)"
  by (simp add: wp_def run_state_def split: prod.split sum.split)

lemma wp_Inr_D: "wp m Q E s \<Longrightarrow> m s = (Inr x, t) \<Longrightarrow> Q x t"
  by (simp add: wp_def)

lemma wp_Inl_D: "wp m Q E s \<Longrightarrow> m s = (Inl e, t) \<Longrightarrow> E e t"
  by (simp add: wp_def)

text \<open>The loop rule: an invariant that every iteration re-establishes, whatever its outcome.\<close>

lemma wp_for_each_inv:
  assumes "J xs s"
    and "\<And>x ys t. J (x # ys) t \<Longrightarrow> wp (f x) (\<lambda>_. J ys) E t"
    and "\<And>t. J [] t \<Longrightarrow> Q () t"
  shows "wp (for_each f xs) Q E s"
  using assms(1)
proof (induction xs arbitrary: s)
  case Nil
  then show ?case using assms(3) by (simp add: wp_ret)
next
  case (Cons x xs)
  have "wp (f x) (\<lambda>_. J xs) E s" by (rule assms(2) [OF Cons.prems])
  then have "wp (f x) (\<lambda>_. wp (for_each f xs) Q E) E s"
    by (rule wp_conseq) (auto intro: Cons.IH)
  then show ?case by (simp add: wp_seqa)
qed

subsection \<open>Invariants of actions\<close>

text \<open>An action keeps \<open>I\<close> when \<open>I\<close> holds after it, returned or raised, if it held before.\<close>

definition keeps :: "('s \<Rightarrow> bool) \<Rightarrow> ('s, 'a) act \<Rightarrow> bool" where
  "keeps I m \<longleftrightarrow> (\<forall>s. I s \<longrightarrow> I (run_state m s))"

lemma keeps_wp: "keeps I m \<longleftrightarrow> (\<forall>s. I s \<longrightarrow> wp m (\<lambda>_. I) (\<lambda>_. I) s)"
  by (simp add: keeps_def wp_state)

lemma keepsI: "(\<And>s. I s \<Longrightarrow> wp m (\<lambda>_. I) (\<lambda>_. I) s) \<Longrightarrow> keeps I m"
  by (simp add: keeps_wp)

lemma keepsD: "keeps I m \<Longrightarrow> I s \<Longrightarrow> I (run_state m s)"
  by (simp add: keeps_def)

lemma keeps_wpD: "keeps I m \<Longrightarrow> I s \<Longrightarrow> wp m (\<lambda>_. I) (\<lambda>_. I) s"
  by (simp add: keeps_wp)

lemma keeps_ret [keeps_intros]: "keeps I (ret x)"
  by (rule keepsI) (simp add: wp_ret)

lemma keeps_throw [keeps_intros]: "keeps I (throw e)"
  by (rule keepsI) (simp add: wp_throw)

lemma keeps_gets [keeps_intros]: "keeps I (gets f)"
  by (rule keepsI) (simp add: wp_gets)

lemma keeps_lift_result [keeps_intros]: "keeps I (lift_result r)"
  by (rule keepsI) (simp add: wp_lift_result split: sum.split)

lemma keeps_asks [keeps_intros]: "keeps I (asks f)"
  by (rule keepsI) (simp add: wp_asks split: sum.split)

lemma keeps_puts: "(\<And>s. I s \<Longrightarrow> I (f s)) \<Longrightarrow> keeps I (puts f)"
  by (rule keepsI) (simp add: wp_puts)

lemma keeps_bnd [keeps_intros]: "keeps I m \<Longrightarrow> (\<And>x. keeps I (f x)) \<Longrightarrow> keeps I (bnd m f)"
  by (auto simp: keeps_wp wp_bnd intro: wp_conseq)

lemma keeps_seqa [keeps_intros]: "keeps I m \<Longrightarrow> keeps I n \<Longrightarrow> keeps I (seqa m n)"
  by (simp add: seqa_def keeps_bnd)

lemma keeps_try_with [keeps_intros]:
  "keeps I m \<Longrightarrow> (\<And>e. keeps I (h e)) \<Longrightarrow> keeps I (try_with m h)"
  by (auto simp: keeps_wp wp_try_with intro: wp_conseq)

lemma keeps_atomic [keeps_intros]: "keeps I m \<Longrightarrow> keeps I (atomic m)"
  by (auto simp: keeps_wp wp_atomic intro: wp_conseq)

lemma keeps_if [keeps_intros]:
  "(b \<Longrightarrow> keeps I m) \<Longrightarrow> (\<not> b \<Longrightarrow> keeps I n) \<Longrightarrow> keeps I (if b then m else n)"
  by simp

lemma keeps_case_option [keeps_intros]:
  "(x = None \<Longrightarrow> keeps I m) \<Longrightarrow> (\<And>y. x = Some y \<Longrightarrow> keeps I (f y)) \<Longrightarrow>
   keeps I (case x of None \<Rightarrow> m | Some y \<Rightarrow> f y)"
  by (simp split: option.split)

lemma keeps_case_prod [keeps_intros]:
  "(\<And>a b. keeps I (f a b)) \<Longrightarrow> keeps I (case x of (a, b) \<Rightarrow> f a b)"
  by (simp split: prod.split)

lemma keeps_case_sum [keeps_intros]:
  "(\<And>a. keeps I (f a)) \<Longrightarrow> (\<And>b. keeps I (g b)) \<Longrightarrow>
   keeps I (case x of Inl a \<Rightarrow> f a | Inr b \<Rightarrow> g b)"
  by (simp split: sum.split)

lemma keeps_Let [keeps_intros]: "keeps I (f x) \<Longrightarrow> keeps I (let y = x in f y)"
  by simp

lemma keeps_for_each [keeps_intros]: "(\<And>x. keeps I (f x)) \<Longrightarrow> keeps I (for_each f xs)"
  by (induction xs) (auto intro: keeps_intros)

lemma keeps_for_each_in: "(\<And>x. x \<in> set xs \<Longrightarrow> keeps I (f x)) \<Longrightarrow> keeps I (for_each f xs)"
  by (induction xs) (auto intro: keeps_intros)

lemma keeps_conj: "keeps I m \<Longrightarrow> keeps J m \<Longrightarrow> keeps (\<lambda>s. I s \<and> J s) m"
  by (simp add: keeps_def)

section \<open>Python dicts\<close>

text \<open>
  A dict with string keys, in insertion order, each key once: \<open>d.get(k)\<close> is \<open>map_of d k\<close> and
  \<open>d[k] = v\<close> is \<open>dict_set\<close>, which keeps the position of a key that is already there.
\<close>

type_synonym 'v dict = "(string \<times> 'v) list"

fun dict_set :: "string \<Rightarrow> 'v \<Rightarrow> 'v dict \<Rightarrow> 'v dict" where
  "dict_set k v [] = [(k, v)]"
| "dict_set k v ((k', v') # d) = (if k' = k then (k, v) # d else (k', v') # dict_set k v d)"

lemma map_of_dict_set [simp]: "map_of (dict_set k v d) = (map_of d)(k \<mapsto> v)"
  by (induction d) auto

lemma dict_set_keys: "fst ` set (dict_set k v d) = insert k (fst ` set d)"
  by (induction k v d rule: dict_set.induct) (simp_all add: insert_commute)

lemma distinct_dict_set: "distinct (map fst d) \<Longrightarrow> distinct (map fst (dict_set k v d))"
proof (induction d)
  case (Cons p d)
  obtain k' v' where p: "p = (k', v')" by fastforce
  have "k' \<notin> fst ` set (dict_set k v d)" if "k' \<noteq> k"
    using that Cons.prems by (simp add: p dict_set_keys)
  then show ?case using Cons by (cases "k' = k") (simp_all add: p)
qed simp

lemma map_of_filter_keys:
  "map_of (map (\<lambda>x. (f x, g x)) (filter P xs)) k =
   (case find (\<lambda>x. f x = k \<and> P x) xs of None \<Rightarrow> None | Some x \<Rightarrow> Some (g x))"
  by (induction xs) auto

section \<open>Python strings\<close>

text \<open>\<open>s.split(sep)\<close> for a separator of one character: never the empty list.\<close>

fun split_on :: "char \<Rightarrow> string \<Rightarrow> string list" where
  "split_on d [] = [[]]"
| "split_on d (c # cs) =
     (if c = d then [] # split_on d cs
      else (case split_on d cs of [] \<Rightarrow> [[c]] | p # ps \<Rightarrow> (c # p) # ps))"

lemma split_on_not_Nil [simp]: "split_on d s \<noteq> []"
  by (induction s) (auto split: list.split)

lemma split_on_plain: "d \<notin> set p \<Longrightarrow> split_on d p = [p]"
  by (induction p) auto

lemma split_on_sep: "d \<notin> set p \<Longrightarrow> split_on d (p @ d # r) = p # split_on d r"
  by (induction p) auto

text \<open>\<open>str(n)\<close> for \<open>n \<ge> 0\<close>, in decimal, and for any \<open>n\<close>.\<close>

definition digit :: "nat \<Rightarrow> char" where
  "digit n = ''0123456789'' ! n"

fun str_nat :: "nat \<Rightarrow> string" where
  "str_nat n = (if n < 10 then [digit n] else str_nat (n div 10) @ [digit (n mod 10)])"

declare str_nat.simps [simp del]

definition str_int :: "int \<Rightarrow> string" where
  "str_int i = (if i < 0 then CHR ''-'' # str_nat (nat (- i)) else str_nat (nat i))"

definition digit_value :: "char \<Rightarrow> nat option" where
  "digit_value c = map_of (zip ''0123456789'' [0..<10]) c"

text \<open>The value of a digit string, most significant digit first.\<close>

fun digits_value :: "nat \<Rightarrow> string \<Rightarrow> nat option" where
  "digits_value a [] = Some a"
| "digits_value a (c # cs) =
     (case digit_value c of None \<Rightarrow> None | Some v \<Rightarrow> digits_value (10 * a + v) cs)"

lemma lt10_cases: "(n::nat) < 10 \<Longrightarrow> n = 0 \<or> n = 1 \<or> n = 2 \<or> n = 3 \<or> n = 4 \<or> n = 5 \<or> n = 6 \<or>
    n = 7 \<or> n = 8 \<or> n = 9"
  by arith

lemma digit_value_digit: "n < 10 \<Longrightarrow> digit_value (digit n) = Some n"
  by (drule lt10_cases) (auto simp: digit_def digit_value_def upt_rec)

lemma digits_value_append:
  "digits_value a (xs @ ys) =
   (case digits_value a xs of None \<Rightarrow> None | Some b \<Rightarrow> digits_value b ys)"
  by (induction xs arbitrary: a) (auto split: option.split)

lemma digits_value_str_nat: "digits_value 0 (str_nat n) = Some n"
proof (induction n rule: str_nat.induct)
  case (1 n)
  show ?case
  proof (cases "n < 10")
    case True
    then show ?thesis by (simp add: str_nat.simps [of n] digit_value_digit)
  next
    case False
    with "1.IH" have "digits_value 0 (str_nat (n div 10)) = Some (n div 10)" by simp
    with False show ?thesis
      by (simp add: str_nat.simps [of n] digits_value_append digit_value_digit)
  qed
qed

lemma str_nat_inj [simp]: "str_nat m = str_nat n \<longleftrightarrow> m = n"
  by (metis digits_value_str_nat option.inject)

lemma str_nat_chars: "c \<in> set (str_nat n) \<Longrightarrow> c \<in> set ''0123456789''"
proof (induction n rule: str_nat.induct)
  case (1 n)
  have d: "digit k \<in> set ''0123456789''" if "k < 10" for k
    using lt10_cases [OF that] by (auto simp: digit_def)
  show ?case
  proof (cases "n < 10")
    case True
    then show ?thesis using "1.prems" d [of n] by (simp add: str_nat.simps [of n])
  next
    case False
    with "1.prems" have "c = digit (n mod 10) \<or> c \<in> set (str_nat (n div 10))"
      by (simp add: str_nat.simps [of n])
    then show ?thesis
    proof
      assume "c = digit (n mod 10)"
      then show ?thesis using d [of "n mod 10"] by simp
    next
      assume "c \<in> set (str_nat (n div 10))"
      then show ?thesis using "1.IH" False by blast
    qed
  qed
qed

lemma str_nat_no_dot [simp]: "CHR ''.'' \<notin> set (str_nat n)"
  using str_nat_chars [of "CHR ''.''" n] by auto

lemma str_nat_not_Nil [simp]: "str_nat n \<noteq> []"
  by (simp add: str_nat.simps [of n])

section \<open>Lists\<close>

lemma find_map_update:
  "(\<And>x. P (f x) = P x) \<Longrightarrow> find P (map f xs) = map_option f (find P xs)"
  by (induction xs) auto

lemma find_Some_in: "find P xs = Some x \<Longrightarrow> x \<in> set xs \<and> P x"
  by (auto simp: find_Some_iff in_set_conv_nth)

lemma find_eq_key:
  "distinct (map f xs) \<Longrightarrow> x \<in> set xs \<Longrightarrow> f x = k \<Longrightarrow> find (\<lambda>y. f y = k) xs = Some x"
  by (induction xs) (auto simp: image_iff)

lemma find_None_key: "find (\<lambda>y. f y = k) xs = None \<longleftrightarrow> k \<notin> f ` set xs"
  by (auto simp: find_None_iff)

lemma distinct_key_eq: "distinct (map f xs) \<Longrightarrow> x \<in> set xs \<Longrightarrow> y \<in> set xs \<Longrightarrow> f x = f y \<Longrightarrow> x = y"
  by (auto simp: distinct_map dest: inj_onD)

lemma map_key_update: "(\<And>x. P x \<Longrightarrow> f (g x) = f x) \<Longrightarrow> map f (map (\<lambda>x. if P x then g x else x) xs) = map f xs"
  by simp

lemma map_replace_row: "map f (map (\<lambda>x. if f x = f r then r else x) xs) = map f xs"
  by (induction xs) auto

lemma ids_update:
  "(\<And>x. P x \<Longrightarrow> f (g x) = f x) \<Longrightarrow> f ` set (map (\<lambda>x. if P x then g x else x) xs) = f ` set xs"
  using map_key_update [of P f g xs] by (metis list.set_map)

lemma map_update_same: "(\<And>x. x \<in> set xs \<Longrightarrow> P x \<Longrightarrow> g x = x) \<Longrightarrow> map (\<lambda>x. if P x then g x else x) xs = xs"
  by (induction xs) auto

lemma sort_key_sorted_id: "sorted (map f xs) \<Longrightarrow> sort_key f xs = xs"
  by (induction xs) (auto simp: insort_is_Cons)

end
