(* ===== verification/Pool_Records.thy ===== *)
theory Pool_Records
  imports Pool_Prelude
begin

text \<open>
  The data of the server: the enums and dataclasses of models.py, the problem errors of errors.py,
  the \<open>Settings\<close> of config.py, and the conversions between a \<open>WorkerRecord\<close> and its SQLite row.
  Times are the server's Unix timestamps as exact rationals. Text columns and ids are strings.
\<close>

section \<open>Enums\<close>

datatype worker_status = registered | waitlisted | assigned

datatype cluster_status = assembling | live | terminated

datatype nat_type = nat_none | nat_cone | nat_symmetric | nat_unknown

text \<open>
  A cluster goes from assembling to live to terminated; the order makes "never goes back" a
  monotonicity statement.
\<close>

fun cluster_stage :: "cluster_status \<Rightarrow> nat" where
  "cluster_stage assembling = 0"
| "cluster_stage live = 1"
| "cluster_stage terminated = 2"

lemma cluster_stage_inj: "cluster_stage a = cluster_stage b \<Longrightarrow> a = b"
  by (cases a; cases b) auto

instantiation cluster_status :: linorder
begin

definition less_eq_cluster_status :: "cluster_status \<Rightarrow> cluster_status \<Rightarrow> bool" where
  "less_eq_cluster_status a b = (cluster_stage a \<le> cluster_stage b)"

definition less_cluster_status :: "cluster_status \<Rightarrow> cluster_status \<Rightarrow> bool" where
  "less_cluster_status a b = (cluster_stage a < cluster_stage b)"

instance
  by standard
    (auto simp: less_eq_cluster_status_def less_cluster_status_def intro: cluster_stage_inj)

end

lemma assembling_least [simp]: "assembling \<le> (c :: cluster_status)"
  by (simp add: less_eq_cluster_status_def)

lemma terminated_greatest [simp]: "(c :: cluster_status) \<le> terminated"
  by (cases c) (simp_all add: less_eq_cluster_status_def)

lemma terminated_le [simp]: "terminated \<le> c \<longleftrightarrow> c = terminated"
  by (cases c) (simp_all add: less_eq_cluster_status_def)

lemma live_le [simp]: "c \<noteq> terminated \<Longrightarrow> c \<le> live"
  by (cases c) (simp_all add: less_eq_cluster_status_def)

section \<open>Domain records\<close>

record account_rec =
  a_account_id :: string
  a_username :: string
  a_password_hash :: string
  a_created_at :: rat
  a_is_admin :: bool
  a_can_work :: bool
  a_can_use :: bool
  a_banned :: bool

record api_key_rec =
  k_key_id :: string
  k_account_id :: string
  k_name :: string
  k_scope :: string
  k_key_hash :: string
  k_created_at :: rat
  k_worker_id :: "string option"

record endpoint_info =
  e_host :: string
  e_port :: int
  e_behind_nat :: bool
  e_nat_type :: nat_type

record hardware =
  h_cpu :: "string option"
  h_gpu :: "string option"
  h_ram_gb :: "rat option"
  h_os :: "string option"
  h_prima_version :: "string option"

text \<open>
  \<open>w_endpoint\<close> is \<open>None\<close> only for a worker migrated from a snapshot that had no endpoint.
\<close>

record worker_rec =
  w_worker_id :: string
  w_account_id :: string
  w_model :: string
  w_gguf_sha256 :: string
  w_memory_allocated_mb :: int
  w_wg_pubkey :: string
  w_endpoint :: "endpoint_info option"
  w_hardware :: "hardware option"
  w_status :: worker_status
  w_online :: bool
  w_last_heartbeat :: rat
  w_assignable_at :: rat
  w_cluster_id :: "string option"
  w_assigned_ip :: "string option"
  w_ring_position :: "nat option"
  w_created_at :: rat

text \<open>
  \<open>ClusterRecord\<close>: \<open>c_members\<close> is the ring order (the first member is the head);
  \<open>c_layer_windows = None\<close> means the head has not reported, \<open>Some []\<close> that it reported
  "unknown".
\<close>

record cluster_rec =
  c_cluster_id :: string
  c_model :: string
  c_subnet :: string
  c_members :: "string list"
  c_status :: cluster_status
  c_ready :: "string set"
  c_created_at :: rat
  c_ips :: "string dict"
  c_layer_windows :: "int dict option"

record request_rec =
  q_request_id :: string
  q_account_id :: string
  q_key_id :: string
  q_model :: string
  q_cluster_id :: string
  q_prompt_tokens :: int
  q_completion_tokens :: int
  q_created_at :: rat

record model_def =
  md_slug :: string
  md_gguf_sha256 :: string
  md_required_memory_mb :: int

record settings =
  host :: string
  port :: int
  public_base_url :: string
  session_ttl_s :: int
  session_secret :: string
  heartbeat_timeout_s :: rat
  heartbeat_interval_s :: rat
  assignable_grace_s :: rat
  max_workers_per_account :: int
  work_permissionless :: bool
  use_permissionless :: bool
  first_account :: string
  models :: "model_def dict"
  api_port :: int
  cluster_subnet_prefix :: string
  wg_mtu :: int
  wg_persistent_keepalive :: int
  server_wg_private_key :: string
  server_wg_listen_port :: int
  server_wg_interface :: string
  server_wg_conf_dir :: string
  server_wg_endpoint_host :: string
  server_wg_ip_offset :: int
  server_join_wg :: bool
  relay_enabled :: bool
  relay_pubkey :: string
  relay_endpoint :: string
  ws_reconnect_backoff_s :: "int list"

section \<open>Problem errors\<close>

definition error_type :: "string \<Rightarrow> string" where
  "error_type t = ''https://prima-pool.dev/errors/'' @ t"

definition unauthorized_error :: "string \<Rightarrow> exn" where
  "unauthorized_error detail = Problem \<lparr>p_class = UnauthorizedError, p_status = 401,
     p_type = error_type ''unauthorized'', p_title = ''Unauthorized'', p_detail = Some detail,
     p_instance = None\<rparr>"

definition forbidden_error :: "string \<Rightarrow> exn" where
  "forbidden_error detail = Problem \<lparr>p_class = ForbiddenError, p_status = 403,
     p_type = error_type ''forbidden'', p_title = ''Forbidden'', p_detail = Some detail,
     p_instance = None\<rparr>"

definition not_found_error :: "string \<Rightarrow> exn" where
  "not_found_error detail = Problem \<lparr>p_class = NotFoundError, p_status = 404,
     p_type = error_type ''not_found'', p_title = ''Not Found'', p_detail = Some detail,
     p_instance = None\<rparr>"

definition conflict_error :: "string \<Rightarrow> string \<Rightarrow> string \<Rightarrow> exn" where
  "conflict_error t title detail = Problem \<lparr>p_class = ConflictError, p_status = 409,
     p_type = error_type t, p_title = title, p_detail = Some detail, p_instance = None\<rparr>"

definition bad_request_error :: "string \<Rightarrow> exn" where
  "bad_request_error detail = Problem \<lparr>p_class = BadRequestError, p_status = 400,
     p_type = error_type ''invalid_request'', p_title = ''Invalid Request'', p_detail = Some detail,
     p_instance = None\<rparr>"

lemmas error_defs = unauthorized_error_def forbidden_error_def not_found_error_def
  conflict_error_def bad_request_error_def error_type_def

text \<open>
  \<open>problem_exception_handler\<close>: the JSON members of the response body, in order; \<open>detail\<close> and
  \<open>instance\<close> are left out when they are absent or empty. A value is a string or the status.
\<close>

datatype json_field = JText string | JNumber nat

definition problem_body :: "problem \<Rightarrow> json_field dict" where
  "problem_body p =
     [(''type'', JText (p_type p)), (''title'', JText (p_title p)), (''status'', JNumber (p_status p))]
     @ (case p_detail p of Some d \<Rightarrow> if d \<noteq> [] then [(''detail'', JText d)] else [] | None \<Rightarrow> [])
     @ (case p_instance p of Some i \<Rightarrow> if i \<noteq> [] then [(''instance'', JText i)] else [] | None \<Rightarrow> [])"

section \<open>Rows of the workers table\<close>

fun worker_status_value :: "worker_status \<Rightarrow> string" where
  "worker_status_value registered = ''registered''"
| "worker_status_value waitlisted = ''waitlisted''"
| "worker_status_value assigned = ''assigned''"

text \<open>\<open>WorkerStatus(value)\<close>: a \<open>ValueError\<close> for any other text.\<close>

definition worker_status_of :: "string \<Rightarrow> exn + worker_status" where
  "worker_status_of v =
     (if v = ''registered'' then Inr registered
      else if v = ''waitlisted'' then Inr waitlisted
      else if v = ''assigned'' then Inr assigned
      else Inl ValueError)"

record worker_row =
  wr_worker_id :: string
  wr_account_id :: string
  wr_model :: string
  wr_gguf_sha256 :: string
  wr_memory_allocated_mb :: int
  wr_status :: string
  wr_online :: int
  wr_cluster_id :: "string option"
  wr_last_heartbeat :: rat
  wr_assignable_at :: rat
  wr_created_at :: rat
  wr_wg_pubkey :: string
  wr_endpoint_json :: string
  wr_hardware_json :: "string option"
  wr_assigned_ip :: "string option"
  wr_ring_position :: "nat option"

text \<open>
  Pydantic's \<open>model_dump_json\<close> and \<open>model_validate_json\<close> are not code of the repository: they are
  the fields of a codec that the two conversions take.
\<close>

record json_codec =
  dump_endpoint :: "endpoint_info \<Rightarrow> string"
  validate_endpoint :: "string \<Rightarrow> exn + endpoint_info"
  dump_hardware :: "hardware \<Rightarrow> string"
  validate_hardware :: "string \<Rightarrow> exn + hardware"

definition worker_to_row :: "json_codec \<Rightarrow> worker_rec \<Rightarrow> worker_row" where
  "worker_to_row j w = \<lparr>
     wr_worker_id = w_worker_id w,
     wr_account_id = w_account_id w,
     wr_model = w_model w,
     wr_gguf_sha256 = w_gguf_sha256 w,
     wr_memory_allocated_mb = w_memory_allocated_mb w,
     wr_status = worker_status_value (w_status w),
     wr_online = (if w_online w then 1 else 0),
     wr_cluster_id = w_cluster_id w,
     wr_last_heartbeat = w_last_heartbeat w,
     wr_assignable_at = w_assignable_at w,
     wr_created_at = w_created_at w,
     wr_wg_pubkey = w_wg_pubkey w,
     wr_endpoint_json = (case w_endpoint w of Some e \<Rightarrow> dump_endpoint j e | None \<Rightarrow> ''null''),
     wr_hardware_json = Some (case w_hardware w of Some h \<Rightarrow> dump_hardware j h | None \<Rightarrow> ''null''),
     wr_assigned_ip = w_assigned_ip w,
     wr_ring_position = w_ring_position w\<rparr>"

text \<open>A JSON column read back: NULL and the text \<open>null\<close> are Python's \<open>None\<close>.\<close>

definition load_json :: "(string \<Rightarrow> exn + 'a) \<Rightarrow> string option \<Rightarrow> exn + 'a option" where
  "load_json validate t =
     (case t of None \<Rightarrow> Inr None
      | Some s \<Rightarrow> if s = ''null'' then Inr None
          else (case validate s of Inl e \<Rightarrow> Inl e | Inr x \<Rightarrow> Inr (Some x)))"

definition row_to_worker :: "json_codec \<Rightarrow> worker_row \<Rightarrow> exn + worker_rec" where
  "row_to_worker j r =
     (case load_json (validate_endpoint j) (Some (wr_endpoint_json r)) of Inl e \<Rightarrow> Inl e
      | Inr endpoint \<Rightarrow>
     (case load_json (validate_hardware j) (wr_hardware_json r) of Inl e \<Rightarrow> Inl e
      | Inr hw \<Rightarrow>
     (case worker_status_of (wr_status r) of Inl e \<Rightarrow> Inl e
      | Inr status \<Rightarrow> Inr \<lparr>
          w_worker_id = wr_worker_id r,
          w_account_id = wr_account_id r,
          w_model = wr_model r,
          w_gguf_sha256 = wr_gguf_sha256 r,
          w_memory_allocated_mb = wr_memory_allocated_mb r,
          w_wg_pubkey = wr_wg_pubkey r,
          w_endpoint = endpoint,
          w_hardware = hw,
          w_status = status,
          w_online = (wr_online r \<noteq> 0),
          w_last_heartbeat = wr_last_heartbeat r,
          w_assignable_at = wr_assignable_at r,
          w_cluster_id = wr_cluster_id r,
          w_assigned_ip = wr_assigned_ip r,
          w_ring_position = wr_ring_position r,
          w_created_at = wr_created_at r\<rparr>)))"

lemma worker_status_roundtrip [simp]: "worker_status_of (worker_status_value s) = Inr s"
  by (cases s) (simp_all add: worker_status_of_def)

text \<open>
  What the codec has to do for the documents of one worker: it reads back what it wrote, and
  never writes the bare text \<open>null\<close> for a document.
\<close>

definition codec_reads_back :: "json_codec \<Rightarrow> worker_rec \<Rightarrow> bool" where
  "codec_reads_back j w \<longleftrightarrow>
     (case w_endpoint w of None \<Rightarrow> True
      | Some e \<Rightarrow> validate_endpoint j (dump_endpoint j e) = Inr e \<and> dump_endpoint j e \<noteq> ''null'') \<and>
     (case w_hardware w of None \<Rightarrow> True
      | Some h \<Rightarrow> validate_hardware j (dump_hardware j h) = Inr h \<and> dump_hardware j h \<noteq> ''null'')"

text \<open>A worker record survives storage: the row that \<open>_worker_to_row\<close> writes is read back by
  \<open>_row_to_worker\<close> as the same record, whatever its status, flags and optional columns, provided that
  the JSON codec reads back the two documents it wrote.\<close>

theorem worker_row_roundtrip:
  assumes "codec_reads_back j w"
  shows "row_to_worker j (worker_to_row j w) = Inr w"
  using assms
  by (cases w) (auto simp: row_to_worker_def worker_to_row_def load_json_def codec_reads_back_def split: option.splits)

definition demo_codec :: json_codec where
  "demo_codec = \<lparr>dump_endpoint = (\<lambda>e. CHR ''e'' # e_host e),
     validate_endpoint = (\<lambda>t. Inr \<lparr>e_host = tl t, e_port = 1, e_behind_nat = False, e_nat_type = nat_none\<rparr>),
     dump_hardware = (\<lambda>_. ''{}''), validate_hardware = (\<lambda>_. Inl ValueError)\<rparr>"

theorem worker_row_roundtrip_witness:
  "row_to_worker demo_codec (worker_to_row demo_codec \<lparr>w_worker_id = ''w'', w_account_id = ''a'', w_model = ''m'',
     w_gguf_sha256 = ''h'', w_memory_allocated_mb = 8, w_wg_pubkey = ''k'',
     w_endpoint = Some \<lparr>e_host = ''h'', e_port = 1, e_behind_nat = False, e_nat_type = nat_none\<rparr>,
     w_hardware = None, w_status = waitlisted, w_online = True, w_last_heartbeat = 0, w_assignable_at = 0,
     w_cluster_id = None, w_assigned_ip = None, w_ring_position = None, w_created_at = 1\<rparr>) =
   Inr \<lparr>w_worker_id = ''w'', w_account_id = ''a'', w_model = ''m'',
     w_gguf_sha256 = ''h'', w_memory_allocated_mb = 8, w_wg_pubkey = ''k'',
     w_endpoint = Some \<lparr>e_host = ''h'', e_port = 1, e_behind_nat = False, e_nat_type = nat_none\<rparr>,
     w_hardware = None, w_status = waitlisted, w_online = True, w_last_heartbeat = 0, w_assignable_at = 0,
     w_cluster_id = None, w_assigned_ip = None, w_ring_position = None, w_created_at = 1\<rparr>"
  by (rule worker_row_roundtrip) (simp add: codec_reads_back_def demo_codec_def)

end
