(* ===== verification/Pool_Security.thy ===== *)
theory Pool_Security
  imports Pool_Records
begin

text \<open>
  security.py: password hashing, session tokens, ids and API keys. The primitives of Python's
  \<open>hashlib\<close>, \<open>hmac\<close> and \<open>base64\<close> are the fields of a \<open>crypto\<close> record that the functions take;
  the formats, the parsing and every check around them are modelled. Randomness
  (\<open>secrets.token_hex\<close>, \<open>os.urandom\<close>) is an oracle in the state: an arbitrary sequence of
  strings, of which each draw takes the next.
\<close>

record world =
  clock :: rat
  rnd :: "nat \<Rightarrow> string"
  rnd_used :: nat

record crypto =
  sha256_hex :: "string \<Rightarrow> string"
  hmac_sha256_hex :: "string \<Rightarrow> string \<Rightarrow> string"
  scrypt :: "string \<Rightarrow> string \<Rightarrow> int \<Rightarrow> int \<Rightarrow> int \<Rightarrow> int \<Rightarrow> exn + string"
  b64encode :: "string \<Rightarrow> string"
  b64decode :: "string \<Rightarrow> exn + string"

definition draw :: "('z world_scheme, string) act" where
  "draw = (\<lambda>s. (Inr (rnd s (rnd_used s)), s\<lparr>rnd_used := Suc (rnd_used s)\<rparr>))"

definition new_id :: "string \<Rightarrow> ('z world_scheme, string) act" where
  "new_id prefix = bnd draw (\<lambda>h. ret (prefix @ ''_'' @ h))"

definition new_api_key :: "string \<Rightarrow> ('z world_scheme, string) act" where
  "new_api_key scope = bnd draw (\<lambda>t. ret (''sk-'' @ scope @ ''-'' @ t))"

definition hash_api_key :: "crypto \<Rightarrow> string \<Rightarrow> string" where
  "hash_api_key k secret = ''sha256$'' @ sha256_hex k secret"

lemma wp_draw [wp_simps]:
  "wp draw Q E s = Q (rnd s (rnd_used s)) (s\<lparr>rnd_used := Suc (rnd_used s)\<rparr>)"
  by (simp add: draw_def wp_def)

section \<open>Parsing\<close>

text \<open>Python's \<open>str.isspace\<close> on one character (a text is a list of code points below 256), and \<open>str.strip\<close>.\<close>

definition is_space :: "char \<Rightarrow> bool" where
  "is_space c \<longleftrightarrow> (let n = of_char c :: nat in n = 32 \<or> 9 \<le> n \<and> n \<le> 13 \<or> 28 \<le> n \<and> n \<le> 31 \<or>
     n = 133 \<or> n = 160)"

definition strip :: "string \<Rightarrow> string" where
  "strip s = rev (dropWhile is_space (rev (dropWhile is_space s)))"

text \<open>
  \<open>int(s)\<close>: surrounding blanks, a sign, decimal digits with single underscores between digits, at
  most 4300 digits; anything else is a \<open>ValueError\<close>.
\<close>

fun digits_us :: "nat \<Rightarrow> bool \<Rightarrow> string \<Rightarrow> nat option" where
  "digits_us a ok [] = (if ok then Some a else None)"
| "digits_us a ok (c # cs) =
     (if c = CHR ''_'' then (if ok then digits_us a False cs else None)
      else (case digit_value c of None \<Rightarrow> None | Some v \<Rightarrow> digits_us (10 * a + v) True cs))"

definition unsigned_int :: "string \<Rightarrow> exn + int" where
  "unsigned_int t =
     (case digits_us 0 False t of None \<Rightarrow> Inl ValueError
      | Some n \<Rightarrow> if length (filter (\<lambda>c. c \<noteq> CHR ''_'') t) > 4300 then Inl ValueError else Inr (int n))"

definition py_int :: "string \<Rightarrow> exn + int" where
  "py_int s =
     (case strip s of [] \<Rightarrow> Inl ValueError
      | c # r \<Rightarrow>
          if c = CHR ''-'' then map_sum id uminus (unsigned_int r)
          else if c = CHR ''+'' then unsigned_int r
          else unsigned_int (c # r))"

fun join_with :: "char \<Rightarrow> string list \<Rightarrow> string" where
  "join_with d [] = []"
| "join_with d [p] = p"
| "join_with d (p # ps) = p @ d # join_with d ps"

text \<open>\<open>s.rsplit(".", 2)\<close> unpacked into three names; fewer parts are a \<open>ValueError\<close>.\<close>

definition rsplit3 :: "string \<Rightarrow> exn + string \<times> string \<times> string" where
  "rsplit3 s =
     (case rev (split_on CHR ''.'' s) of
        c # b # a # as \<Rightarrow> Inr (join_with CHR ''.'' (rev (a # as)), b, c)
      | _ \<Rightarrow> Inl ValueError)"

text \<open>
  \<open>hmac.compare_digest\<close> on two texts: equality, but a \<open>TypeError\<close> when either is not ASCII.
\<close>

definition ascii :: "string \<Rightarrow> bool" where
  "ascii s \<longleftrightarrow> (\<forall>c \<in> set s. (of_char c :: nat) < 128)"

definition compare_digest :: "string \<Rightarrow> string \<Rightarrow> exn + bool" where
  "compare_digest a b = (if ascii a \<and> ascii b then Inr (a = b) else Inl TypeError)"

section \<open>Passwords\<close>

definition hash_password :: "crypto \<Rightarrow> string \<Rightarrow> ('z world_scheme, string) act" where
  "hash_password k password =
     bnd draw (\<lambda>salt.
     bnd (lift_result (scrypt k password salt 16384 8 1 32)) (\<lambda>digest.
     ret (''scrypt$'' @ str_int 16384 @ ''$'' @ str_int 8 @ ''$'' @ str_int 1 @ ''$'' @
          b64encode k salt @ ''$'' @ b64encode k digest)))"

text \<open>
  \<open>verify_password\<close>: a \<open>ValueError\<close> or \<open>TypeError\<close> anywhere inside is the answer \<open>False\<close>.
\<close>

definition verify_password_body :: "crypto \<Rightarrow> string \<Rightarrow> string \<Rightarrow> exn + bool" where
  "verify_password_body k password stored =
     (case split_on CHR ''$'' stored of
        [scheme, n, r, p, salt_b64, hash_b64] \<Rightarrow>
          if scheme \<noteq> ''scrypt'' then Inr False
          else
            (case b64decode k salt_b64 of Inl e \<Rightarrow> Inl e | Inr salt \<Rightarrow>
            (case b64decode k hash_b64 of Inl e \<Rightarrow> Inl e | Inr expected \<Rightarrow>
            (case py_int n of Inl e \<Rightarrow> Inl e | Inr n' \<Rightarrow>
            (case py_int r of Inl e \<Rightarrow> Inl e | Inr r' \<Rightarrow>
            (case py_int p of Inl e \<Rightarrow> Inl e | Inr p' \<Rightarrow>
            (case scrypt k password salt n' r' p' (int (length expected)) of Inl e \<Rightarrow> Inl e
             | Inr digest \<Rightarrow> Inr (digest = expected)))))))
      | _ \<Rightarrow> Inl ValueError)"

definition verify_password :: "crypto \<Rightarrow> string \<Rightarrow> string \<Rightarrow> exn + bool" where
  "verify_password k password stored =
     (case verify_password_body k password stored of
        Inl e \<Rightarrow> if e = ValueError \<or> e = TypeError then Inr False else Inl e
      | Inr b \<Rightarrow> Inr b)"

section \<open>Session tokens\<close>

definition session_payload :: "string \<Rightarrow> int \<Rightarrow> string" where
  "session_payload token expires_at = token @ ''.'' @ str_int expires_at"

definition sign_session :: "crypto \<Rightarrow> string \<Rightarrow> string \<Rightarrow> int \<Rightarrow> string" where
  "sign_session k token secret expires_at =
     (let payload = session_payload token expires_at
      in ''sess_'' @ payload @ ''.'' @ hmac_sha256_hex k secret payload)"

definition verify_session ::
  "crypto \<Rightarrow> string \<Rightarrow> string \<Rightarrow> int \<Rightarrow> exn + (string \<times> int) option" where
  "verify_session k signed secret now =
     (if take 5 signed \<noteq> ''sess_'' then Inr None
      else
        (case rsplit3 (drop 5 signed) of Inl _ \<Rightarrow> Inr None
         | Inr (token, exp_str, sig) \<Rightarrow>
        (case py_int exp_str of Inl _ \<Rightarrow> Inr None
         | Inr expires_at \<Rightarrow>
        (case compare_digest sig (hmac_sha256_hex k secret (session_payload token expires_at)) of
           Inl e \<Rightarrow> Inl e
         | Inr same \<Rightarrow>
             if \<not> same then Inr None
             else if expires_at < now then Inr None
             else Inr (Some (token, expires_at))))))"

section \<open>Lemmas on the formats\<close>

lemma join_split: "join_with d (split_on d s) = s"
proof (induction s)
  case (Cons c s)
  obtain p ps where "split_on d s = p # ps" by (cases "split_on d s") auto
  with Cons show ?case by (cases ps) auto
qed simp

lemma split_on_append_sep: "split_on d (p @ d # q) = split_on d p @ split_on d q"
proof (induction p)
  case (Cons c p)
  obtain a as where "split_on d p = a # as" by (cases "split_on d p") auto
  with Cons show ?case by simp
qed simp

lemma rsplit3_format:
  assumes "CHR ''.'' \<notin> set b" and "CHR ''.'' \<notin> set c"
  shows "rsplit3 (a @ ''.'' @ b @ ''.'' @ c) = Inr (a, b, c)"
proof -
  obtain x xs where x: "rev (split_on CHR ''.'' a) = x # xs"
    by (cases "rev (split_on CHR ''.'' a)") auto
  then have "join_with CHR ''.'' (rev (x # xs)) = a"
    by (metis join_split rev_rev_ident)
  then show ?thesis
    using assms x by (simp add: rsplit3_def split_on_append_sep split_on_plain)
qed

lemma rsplit3_Inr:
  assumes "rsplit3 s = Inr (a, b, c)"
  shows "s = a @ ''.'' @ b @ ''.'' @ c"
proof -
  obtain x xs where r: "rev (split_on CHR ''.'' s) = c # b # x # xs"
    and a: "a = join_with CHR ''.'' (rev (x # xs))"
    using assms by (auto simp: rsplit3_def split: list.splits)
  have jn: "join_with d (ps @ [q]) = join_with d ps @ d # q" if "ps \<noteq> []" for d ps q
    using that by (induction d ps rule: join_with.induct) auto
  from r have "split_on CHR ''.'' s = rev (x # xs) @ [b] @ [c]" by (metis append.assoc append_Cons append_Nil rev.simps(2) rev_rev_ident)
  then have "s = join_with CHR ''.'' (rev (x # xs) @ [b] @ [c])" by (metis join_split)
  then show ?thesis using a jn [of "rev (x # xs) @ [b]"] jn [of "rev (x # xs)"] by simp
qed

lemma digit_not_underscore: "digit_value CHR ''_'' = None"
  by (simp add: digit_value_def upt_rec)

lemma digits_us_digits:
  "digits_value a s = Some n \<Longrightarrow> s \<noteq> [] \<or> ok \<Longrightarrow> digits_us a ok s = Some n"
proof (induction s arbitrary: a ok)
  case (Cons c s)
  then obtain v where v: "digit_value c = Some v" by (auto split: option.splits)
  then have "c \<noteq> CHR ''_''" using digit_not_underscore by auto
  with Cons v show ?case by auto
qed simp

text \<open>The characters of a printed integer, kept folded: they hold no dot and no blank.\<close>

definition int_chars :: string where
  "int_chars = ''0123456789-''"

lemma int_chars_plain: "list_all (\<lambda>c. \<not> is_space c \<and> c \<noteq> CHR ''.'') int_chars"
  by (simp add: int_chars_def is_space_def)

lemma digits_int_chars: "set ''0123456789'' \<subseteq> set int_chars"
  by (simp add: int_chars_def)

lemma str_int_chars: "c \<in> set (str_int i) \<Longrightarrow> c \<in> set int_chars"
proof -
  assume c: "c \<in> set (str_int i)"
  have nat: "c \<in> set int_chars" if "c \<in> set (str_nat n)" for n
    using str_nat_chars [OF that] digits_int_chars by blast
  have "CHR ''-'' \<in> set int_chars" by (simp add: int_chars_def)
  with c nat show ?thesis by (cases "i < 0") (auto simp: str_int_def)
qed

lemma not_space_digit: "c \<in> set int_chars \<Longrightarrow> \<not> is_space c"
  using int_chars_plain by (simp add: list_all_iff)

lemma str_int_no_dot [simp]: "CHR ''.'' \<notin> set (str_int i)"
  using int_chars_plain str_int_chars by (fastforce simp: list_all_iff)

lemma str_int_not_Nil [simp]: "str_int i \<noteq> []"
  by (simp add: str_int_def)

lemma strip_no_space: "(\<And>c. c \<in> set s \<Longrightarrow> \<not> is_space c) \<Longrightarrow> strip s = s"
proof -
  assume n: "\<And>c. c \<in> set s \<Longrightarrow> \<not> is_space c"
  have "dropWhile is_space t = t" if "\<And>c. c \<in> set t \<Longrightarrow> \<not> is_space c" for t
    using that by (cases t) auto
  from this [of s] this [of "rev s"] n have "dropWhile is_space s = s"
    and "dropWhile is_space (rev s) = rev s" by simp_all
  then show ?thesis by (simp add: strip_def)
qed

lemma unsigned_int_str_nat:
  "length (str_nat n) \<le> 4300 \<Longrightarrow> unsigned_int (str_nat n) = Inr (int n)"
proof -
  assume l: "length (str_nat n) \<le> 4300"
  have "\<not> 4300 < length (filter (\<lambda>c. c \<noteq> CHR ''_'') (str_nat n))"
    using l length_filter_le [of "\<lambda>c. c \<noteq> CHR ''_''" "str_nat n"] by linarith
  moreover have "digits_us 0 False (str_nat n) = Some n"
    by (rule digits_us_digits) (simp_all add: digits_value_str_nat)
  ultimately show ?thesis using l by (simp add: unsigned_int_def)
qed

lemma py_int_str_int:
  assumes "length (str_int i) \<le> 4300"
  shows "py_int (str_int i) = Inr i"
proof -
  have st: "strip (str_int i) = str_int i"
    by (rule strip_no_space) (blast dest: str_int_chars not_space_digit)
  show ?thesis
  proof (cases "i < 0")
    case True
    then show ?thesis using assms st
      by (simp add: py_int_def str_int_def unsigned_int_str_nat)
  next
    case False
    obtain c r where cr: "str_nat (nat i) = c # r" by (cases "str_nat (nat i)") auto
    then have "c \<in> set ''0123456789''" by (intro str_nat_chars [of c "nat i"]) simp
    then have "c \<noteq> CHR ''-''" "c \<noteq> CHR ''+''" by auto
    then show ?thesis using False assms st cr unsigned_int_str_nat [of "nat i"]
      by (simp add: py_int_def str_int_def)
  qed
qed

lemma take_drop_prefix: "take (length p) (p @ s) = p" "drop (length p) (p @ s) = s"
  by simp_all

section \<open>Correctness of the formats\<close>

lemma verify_session_signed:
  assumes "CHR ''.'' \<notin> set sig" and "length (str_int e) \<le> 4300"
  shows "verify_session k (''sess_'' @ session_payload t e @ ''.'' @ sig) secret now =
    (case compare_digest sig (hmac_sha256_hex k secret (session_payload t e)) of
       Inl x \<Rightarrow> Inl x
     | Inr same \<Rightarrow> Inr (if same \<and> now \<le> e then Some (t, e) else None))"
proof -
  have "rsplit3 (session_payload t e @ ''.'' @ sig) = Inr (t, str_int e, sig)"
    using rsplit3_format [of "str_int e" sig t] assms(1) by (simp add: session_payload_def)
  then show ?thesis
    using assms(2) by (simp add: verify_session_def py_int_str_int split: sum.split)
qed

text \<open>A session token that the server signed verifies to exactly the account id and expiry that
  were signed, as long as it has not expired; at any later second it does not verify. This holds
  for every account id, dots included, because the token is split from the right. The hypotheses
  on the HMAC are what a hexadecimal digest is: ASCII without a dot.\<close>

theorem session_roundtrip:
  assumes "ascii (hmac_sha256_hex k secret (session_payload token e))"
    and "CHR ''.'' \<notin> set (hmac_sha256_hex k secret (session_payload token e))"
    and "length (str_int e) \<le> 4300"
  shows "verify_session k (sign_session k token secret e) secret now =
    Inr (if now \<le> e then Some (token, e) else None)"
  using verify_session_signed [OF assms(2,3)] assms(1)
  by (simp add: sign_session_def Let_def compare_digest_def)

definition demo_crypto :: crypto where
  "demo_crypto = \<lparr>
     sha256_hex = (\<lambda>s. s),
     hmac_sha256_hex = (\<lambda>key msg. str_nat (length key + 7 * length msg)),
     scrypt = (\<lambda>pw salt n r p l. Inr (take (nat l) (pw @ salt @ replicate (nat l) CHR ''x''))),
     b64encode = (\<lambda>s. s),
     b64decode = (\<lambda>s. Inr s)\<rparr>"

theorem session_roundtrip_witness:
  "verify_session demo_crypto (sign_session demo_crypto ''a.1'' ''key'' 900) ''key'' 899 =
     Inr (Some (''a.1'', 900)) \<and>
   verify_session demo_crypto (sign_session demo_crypto ''a.1'' ''key'' 900) ''key'' 901 = Inr None"
proof -
  have e: "str_int 900 = ''900''" by (simp add: str_int_def str_nat.simps digit_def)
  have h: "hmac_sha256_hex demo_crypto ''key'' (session_payload ''a.1'' 900) = ''52''"
    by (simp add: demo_crypto_def session_payload_def e str_nat.simps digit_def)
  have "ascii ''52''" and "CHR ''.'' \<notin> set ''52''" and "length (str_int 900) \<le> 4300"
    by (simp_all add: ascii_def e)
  from session_roundtrip [of demo_crypto "''key''" "''a.1''" 900, unfolded h, OF this]
  show ?thesis by simp
qed

text \<open>Nothing else verifies: a text that \<open>verify_session\<close> accepts ends in the HMAC, under the
  server's secret, of the account id and expiry it returns, and that expiry is not in the past.\<close>

theorem verify_session_sound:
  assumes "verify_session k signed secret now = Inr (Some (token, e))"
  shows "(\<exists>exp_str. signed = ''sess_'' @ token @ ''.'' @ exp_str @ ''.'' @
            hmac_sha256_hex k secret (session_payload token e) \<and> py_int exp_str = Inr e) \<and> now \<le> e"
proof -
  obtain exp_str sig where r: "rsplit3 (drop 5 signed) = Inr (token, exp_str, sig)"
    and pre: "take 5 signed = ''sess_''" and pi: "py_int exp_str = Inr e" and now: "now \<le> e"
    and sig: "sig = hmac_sha256_hex k secret (session_payload token e)"
    using assms by (auto simp: verify_session_def compare_digest_def split: if_splits sum.splits)
  have "signed = ''sess_'' @ drop 5 signed" using pre by (metis append_take_drop_id)
  also have "drop 5 signed = token @ ''.'' @ exp_str @ ''.'' @ sig" by (rule rsplit3_Inr [OF r])
  finally show ?thesis using pi now sig by auto
qed

theorem verify_session_sound_witness:
  "verify_session demo_crypto ''sess_a.900.38'' ''key'' 5 = Inr (Some (''a'', 900)) \<and> (5::int) \<le> 900"
proof -
  have e: "str_int 900 = ''900''" by (simp add: str_int_def str_nat.simps digit_def)
  have "hmac_sha256_hex demo_crypto ''key'' (session_payload ''a'' 900) = ''38''"
    by (simp add: demo_crypto_def session_payload_def e str_nat.simps digit_def)
  then have v: "verify_session demo_crypto ''sess_a.900.38'' ''key'' 5 = Inr (Some (''a'', 900))"
    using verify_session_signed [where sig = "''38''" and e = 900 and k = demo_crypto and t = "''a''"
        and secret = "''key''" and now = 5]
    by (simp add: e session_payload_def compare_digest_def ascii_def)
  from verify_session_sound [OF v] v show ?thesis by simp
qed

text \<open>A signature with a character outside ASCII does not give "invalid token": the digest
  comparison raises a \<open>TypeError\<close>, which \<open>verify_session\<close> does not catch, so a request with
  such a bearer token ends in an internal error instead of a 401.\<close>

theorem verify_session_non_ascii_raises:
  assumes "\<not> ascii sig" and "CHR ''.'' \<notin> set sig" and "length (str_int e) \<le> 4300"
  shows "verify_session k (''sess_'' @ session_payload token e @ ''.'' @ sig) secret now =
    Inl TypeError"
  using verify_session_signed [OF assms(2,3)] assms(1) by (simp add: compare_digest_def)

theorem verify_session_non_ascii_raises_witness:
  "verify_session demo_crypto (''sess_'' @ session_payload ''a'' 9 @ ''.'' @ [CHR 0xFF]) ''key'' 5 =
     Inl TypeError"
proof -
  have "\<not> ascii [CHR 0xFF]" and "CHR ''.'' \<notin> set [CHR 0xFF]" by (simp_all add: ascii_def)
  moreover have "length (str_int 9) \<le> 4300"
    by (simp add: str_int_def str_nat.simps)
  ultimately show ?thesis by (rule verify_session_non_ascii_raises)
qed

lemma digits_no_dollar: "CHR ''$'' \<notin> set (str_int i)"
proof -
  have "CHR ''$'' \<notin> set int_chars" by (simp add: int_chars_def)
  then show ?thesis using str_int_chars by blast
qed

lemma hash_verifies:
  assumes "\<And>x. b64decode k (b64encode k x) = Inr x"
    and "\<And>x. CHR ''$'' \<notin> set (b64encode k x)"
    and "\<And>salt. \<exists>d. scrypt k pw salt 16384 8 1 32 = Inr d \<and> length d = 32"
  shows "wp (hash_password k pw) (\<lambda>h _. verify_password k pw h = Inr True) (\<lambda>_ _. False) s"
proof -
  have n: "str_int 16384 = ''16384''" "str_int 8 = ''8''" "str_int 1 = ''1''"
    by (simp_all add: str_int_def str_nat.simps digit_def)
  have ints: "py_int ''16384'' = Inr 16384" "py_int ''8'' = Inr 8" "py_int ''1'' = Inr 1"
    using py_int_str_int [of 16384] py_int_str_int [of 8] py_int_str_int [of 1] by (simp_all add: n)
  let ?salt = "rnd s (rnd_used s)"
  obtain d where d: "scrypt k pw ?salt 16384 8 1 32 = Inr d" and l: "length d = 32"
    using assms(3) by blast
  have "verify_password k pw (''scrypt$'' @ str_int 16384 @ ''$'' @ str_int 8 @ ''$'' @ str_int 1 @
      ''$'' @ b64encode k ?salt @ ''$'' @ b64encode k d) = Inr True"
    using d l assms(1,2)
    by (simp add: n verify_password_def verify_password_body_def split_on_sep split_on_plain ints)
  then show ?thesis using d by (simp add: hash_password_def wp_simps)
qed

text \<open>A password verifies against the hash that \<open>hash_password\<close> made of it, for every
  password and salt: the six fields of the stored text are read back as they were written. The
  hypotheses are the documented behaviour of base64 (the decoder inverts the encoder, whose
  alphabet has no dollar) and of scrypt (it returns as many bytes as asked).\<close>

theorem password_roundtrip:
  assumes "\<And>x. b64decode k (b64encode k x) = Inr x"
    and "\<And>x. CHR ''$'' \<notin> set (b64encode k x)"
    and "\<And>salt. \<exists>d. scrypt k pw salt 16384 8 1 32 = Inr d \<and> length d = 32"
  shows "wp (hash_password k pw) (\<lambda>h _. verify_password k pw h = Inr True) (\<lambda>_ _. False) s"
  by (rule hash_verifies [OF assms])

definition dollar_free :: "string \<Rightarrow> string" where
  "dollar_free s = concat (map (\<lambda>c. if c = CHR ''$'' then ''%d'' else if c = CHR ''%'' then ''%p'' else [c]) s)"

fun dollar_back :: "string \<Rightarrow> string" where
  "dollar_back (a # b # s) =
     (if a = CHR ''%'' then (if b = CHR ''d'' then CHR ''$'' else CHR ''%'') # dollar_back s
      else a # dollar_back (b # s))"
| "dollar_back s = s"

lemma dollar_back_free [simp]: "dollar_back (dollar_free s) = s"
proof (induction s)
  case (Cons c s)
  have plain: "dollar_back (c # t) = c # dollar_back t" if "c \<noteq> CHR ''%''" for t
    using that by (cases t) auto
  from Cons plain show ?case by (auto simp: dollar_free_def)
qed (simp add: dollar_free_def)

lemma dollar_free_no_dollar: "CHR ''$'' \<notin> set (dollar_free s)"
  by (auto simp: dollar_free_def)

theorem password_roundtrip_witness:
  "wp (hash_password (demo_crypto\<lparr>b64encode := dollar_free, b64decode := \<lambda>s. Inr (dollar_back s)\<rparr>) ''pw'')
     (\<lambda>h _. verify_password (demo_crypto\<lparr>b64encode := dollar_free, b64decode := \<lambda>s. Inr (dollar_back s)\<rparr>)
        ''pw'' h = Inr True) (\<lambda>_ _. False)
     \<lparr>clock = 0, rnd = (\<lambda>_. ''$alt''), rnd_used = 0\<rparr>"
  by (rule password_roundtrip) (simp_all add: demo_crypto_def dollar_free_no_dollar)

end
