(* ===== verification/Pool_Store.thy ===== *)
theory Pool_Store
  imports Pool_Security
begin

text \<open>
  store.py, first part: the SQLite tables and the operations on accounts, API keys and workers.
  A table is the list of its rows in rowid order, which is the order in which SQLite returns them
  when a query has no \<open>ORDER BY\<close>. Every constraint of the schema is checked where SQLite checks
  it: a failed statement raises and leaves the tables as they were. The table invariants
  (\<open>accounts_ok\<close> to \<open>requests_ok\<close>) state what the schema promises.
\<close>

section \<open>The tables\<close>

record cluster_row =
  cr_cluster_id :: string
  cr_model :: string
  cr_subnet :: string
  cr_status :: cluster_status
  cr_created_at :: rat
  cr_distribution_reported :: bool

record member_row =
  cm_cluster_id :: string
  cm_worker_id :: string
  cm_ring_position :: nat
  cm_assigned_ip :: "string option"
  cm_ready :: bool
  cm_layer_window :: "int option"

record db = world +
  accounts :: "account_rec list"
  api_keys :: "api_key_rec list"
  workers :: "worker_rec list"
  clusters :: "cluster_row list"
  cluster_members :: "member_row list"
  requests :: "request_rec list"

text \<open>
  The sqlite3 module refuses to bind an integer outside 64 bits with an \<open>OverflowError\<close>, before
  the statement runs.
\<close>

definition sql_int :: "int \<Rightarrow> bool" where
  "sql_int i \<longleftrightarrow> - (2 ^ 63) \<le> i \<and> i < 2 ^ 63"

definition account_ids :: "'z db_scheme \<Rightarrow> string set" where
  "account_ids s = a_account_id ` set (accounts s)"

definition key_ids :: "'z db_scheme \<Rightarrow> string set" where
  "key_ids s = k_key_id ` set (api_keys s)"

definition worker_ids :: "'z db_scheme \<Rightarrow> string set" where
  "worker_ids s = w_worker_id ` set (workers s)"

definition cluster_ids :: "'z db_scheme \<Rightarrow> string set" where
  "cluster_ids s = cr_cluster_id ` set (clusters s)"

text \<open>A nullable foreign key: NULL, or the key of a row.\<close>

definition fk :: "string option \<Rightarrow> string set \<Rightarrow> bool" where
  "fk r ids = (case r of None \<Rightarrow> True | Some i \<Rightarrow> i \<in> ids)"

section \<open>Accounts\<close>

definition get_account_by_username :: "string \<Rightarrow> 'z db_scheme \<Rightarrow> account_rec option" where
  "get_account_by_username u s = find (\<lambda>a. a_username a = u) (accounts s)"

definition get_account :: "string \<Rightarrow> 'z db_scheme \<Rightarrow> account_rec option" where
  "get_account i s = find (\<lambda>a. a_account_id a = i) (accounts s)"

definition list_accounts :: "'z db_scheme \<Rightarrow> account_rec list" where
  "list_accounts s = sort_key a_created_at (accounts s)"

definition count_admins :: "'z db_scheme \<Rightarrow> nat" where
  "count_admins s = length (filter a_is_admin (accounts s))"

definition insert_account :: "account_rec \<Rightarrow> ('z db_scheme, unit) act" where
  "insert_account a = (\<lambda>s.
     if a_account_id a \<in> account_ids s \<or> a_username a \<in> a_username ` set (accounts s)
     then (Inl IntegrityError, s)
     else (Inr (), s\<lparr>accounts := accounts s @ [a]\<rparr>))"

definition create_account ::
  "crypto \<Rightarrow> string \<Rightarrow> string \<Rightarrow> ('z db_scheme, account_rec option) act" where
  "create_account k username password =
     bnd (gets (get_account_by_username username)) (\<lambda>taken.
     if taken \<noteq> None then ret None
     else
       bnd (new_id ''acc'') (\<lambda>account_id.
       bnd (hash_password k password) (\<lambda>password_hash.
       bnd (gets clock) (\<lambda>created_at.
       let rec = \<lparr>a_account_id = account_id, a_username = username,
                  a_password_hash = password_hash, a_created_at = created_at,
                  a_is_admin = False, a_can_work = False, a_can_use = True, a_banned = False\<rparr>
       in try_with (seqa (insert_account rec) (ret (Some rec)))
            (\<lambda>e. if e = IntegrityError then ret None else throw e)))))"

text \<open>
  \<open>UPDATE accounts SET ... WHERE account_id = ?\<close>: the answer is whether a row matched.
\<close>

definition update_accounts ::
  "string \<Rightarrow> (account_rec \<Rightarrow> account_rec) \<Rightarrow> ('z db_scheme, bool) act" where
  "update_accounts i f = (\<lambda>s.
     (Inr (i \<in> account_ids s),
      s\<lparr>accounts := map (\<lambda>a. if a_account_id a = i then f a else a) (accounts s)\<rparr>))"

definition set_flag :: "bool option \<Rightarrow> bool \<Rightarrow> bool" where
  "set_flag new old = (case new of None \<Rightarrow> old | Some b \<Rightarrow> b)"

definition update_account_permissions ::
  "string \<Rightarrow> bool option \<Rightarrow> bool option \<Rightarrow> bool option \<Rightarrow> bool option \<Rightarrow> ('z db_scheme, bool) act" where
  "update_account_permissions i is_admin can_work can_use banned =
     (if is_admin = None \<and> can_work = None \<and> can_use = None \<and> banned = None then ret False
      else update_accounts i (\<lambda>a. a\<lparr>
        a_is_admin := set_flag is_admin (a_is_admin a),
        a_can_work := set_flag can_work (a_can_work a),
        a_can_use := set_flag can_use (a_can_use a),
        a_banned := set_flag banned (a_banned a)\<rparr>))"

definition set_password :: "string \<Rightarrow> string \<Rightarrow> ('z db_scheme, bool) act" where
  "set_password i password_hash = update_accounts i (\<lambda>a. a\<lparr>a_password_hash := password_hash\<rparr>)"

section \<open>API keys\<close>

definition get_api_key :: "string \<Rightarrow> 'z db_scheme \<Rightarrow> api_key_rec option" where
  "get_api_key i s = find (\<lambda>k. k_key_id k = i) (api_keys s)"

definition list_api_keys :: "string \<Rightarrow> 'z db_scheme \<Rightarrow> api_key_rec list" where
  "list_api_keys account_id s = filter (\<lambda>k. k_account_id k = account_id) (api_keys s)"

definition resolve_api_key :: "crypto \<Rightarrow> string \<Rightarrow> 'z db_scheme \<Rightarrow> api_key_rec option" where
  "resolve_api_key k secret s = find (\<lambda>r. k_key_hash r = hash_api_key k secret) (api_keys s)"

definition insert_api_key :: "api_key_rec \<Rightarrow> ('z db_scheme, unit) act" where
  "insert_api_key r = (\<lambda>s.
     if k_key_id r \<in> key_ids s \<or> k_key_hash r \<in> k_key_hash ` set (api_keys s)
        \<or> k_account_id r \<notin> account_ids s
     then (Inl IntegrityError, s)
     else (Inr (), s\<lparr>api_keys := api_keys s @ [r\<lparr>k_worker_id := None\<rparr>]\<rparr>))"

definition create_api_key ::
  "crypto \<Rightarrow> string \<Rightarrow> string \<Rightarrow> string \<Rightarrow> ('z db_scheme, api_key_rec \<times> string) act" where
  "create_api_key k account_id name scope =
     bnd (new_api_key scope) (\<lambda>secret.
     bnd (new_id ''key'') (\<lambda>key_id.
     bnd (gets clock) (\<lambda>created_at.
     let rec = \<lparr>k_key_id = key_id, k_account_id = account_id, k_name = name, k_scope = scope,
                k_key_hash = hash_api_key k secret, k_created_at = created_at, k_worker_id = None\<rparr>
     in seqa (insert_api_key rec) (ret (rec, secret)))))"

text \<open>
  \<open>UPDATE api_keys SET worker_id\<close>: the foreign key is checked only when a row is updated.
\<close>

definition bind_api_key_to_worker :: "string \<Rightarrow> string \<Rightarrow> ('z db_scheme, unit) act" where
  "bind_api_key_to_worker key_id worker_id = (\<lambda>s.
     if key_id \<in> key_ids s \<and> worker_id \<notin> worker_ids s then (Inl IntegrityError, s)
     else (Inr (), s\<lparr>api_keys :=
       map (\<lambda>r. if k_key_id r = key_id then r\<lparr>k_worker_id := Some worker_id\<rparr> else r) (api_keys s)\<rparr>))"

text \<open>\<open>DELETE FROM api_keys\<close>; \<open>requests.key_id\<close> is declared \<open>ON DELETE CASCADE\<close>.\<close>

definition revoke_api_key :: "string \<Rightarrow> ('z db_scheme, bool) act" where
  "revoke_api_key key_id = (\<lambda>s.
     (Inr (key_id \<in> key_ids s),
      s\<lparr>api_keys := filter (\<lambda>r. k_key_id r \<noteq> key_id) (api_keys s),
        requests := (if key_id \<in> key_ids s
                     then filter (\<lambda>q. q_key_id q \<noteq> key_id) (requests s) else requests s)\<rparr>))"

section \<open>Workers\<close>

definition get_worker :: "string \<Rightarrow> 'z db_scheme \<Rightarrow> worker_rec option" where
  "get_worker i s = find (\<lambda>w. w_worker_id w = i) (workers s)"

definition list_workers :: "'z db_scheme \<Rightarrow> worker_rec list" where
  "list_workers s = workers s"

definition list_workers_for_account :: "string \<Rightarrow> 'z db_scheme \<Rightarrow> worker_rec list" where
  "list_workers_for_account account_id s = filter (\<lambda>w. w_account_id w = account_id) (workers s)"

definition create_worker :: "worker_rec \<Rightarrow> ('z db_scheme, unit) act" where
  "create_worker rec = (\<lambda>s.
     if \<not> sql_int (w_memory_allocated_mb rec) then (Inl OverflowError, s)
     else if w_worker_id rec \<in> worker_ids s \<or> w_account_id rec \<notin> account_ids s
        \<or> \<not> fk (w_cluster_id rec) (cluster_ids s)
     then (Inl IntegrityError, s)
     else (Inr (), s\<lparr>workers := workers s @ [rec]\<rparr>))"

definition create_worker_if_available ::
  "worker_rec \<Rightarrow> int \<Rightarrow> ('z db_scheme, bool) act" where
  "create_worker_if_available rec max_per_account =
     bnd (gets (list_workers_for_account (w_account_id rec))) (\<lambda>existing.
     if int (length existing) \<ge> max_per_account then ret False
     else if \<exists>w \<in> set existing. w_wg_pubkey w = w_wg_pubkey rec \<and> w_status w \<noteq> registered
     then ret False
     else try_with (seqa (create_worker rec) (ret True))
            (\<lambda>e. if e = IntegrityError then ret False else throw e))"

definition update_worker :: "worker_rec \<Rightarrow> ('z db_scheme, unit) act" where
  "update_worker rec = (\<lambda>s.
     if \<not> sql_int (w_memory_allocated_mb rec) then (Inl OverflowError, s)
     else if w_worker_id rec \<in> worker_ids s \<and>
        (w_account_id rec \<notin> account_ids s \<or> \<not> fk (w_cluster_id rec) (cluster_ids s))
     then (Inl IntegrityError, s)
     else (Inr (), s\<lparr>workers :=
       map (\<lambda>w. if w_worker_id w = w_worker_id rec then rec else w) (workers s)\<rparr>))"

text \<open>\<open>DELETE FROM workers\<close>; \<open>api_keys.worker_id\<close> is declared \<open>ON DELETE SET NULL\<close>.\<close>

definition delete_worker :: "string \<Rightarrow> ('z db_scheme, bool) act" where
  "delete_worker worker_id = (\<lambda>s.
     (Inr (worker_id \<in> worker_ids s),
      s\<lparr>workers := filter (\<lambda>w. w_worker_id w \<noteq> worker_id) (workers s),
        api_keys := map (\<lambda>r. if k_worker_id r = Some worker_id then r\<lparr>k_worker_id := None\<rparr> else r)
                      (api_keys s)\<rparr>))"

section \<open>What the schema promises\<close>

definition accounts_ok :: "'z db_scheme \<Rightarrow> bool" where
  "accounts_ok s \<longleftrightarrow> distinct (map a_account_id (accounts s)) \<and> distinct (map a_username (accounts s))"

definition keys_ok :: "'z db_scheme \<Rightarrow> bool" where
  "keys_ok s \<longleftrightarrow> distinct (map k_key_id (api_keys s)) \<and> distinct (map k_key_hash (api_keys s)) \<and>
     (\<forall>r \<in> set (api_keys s). k_account_id r \<in> account_ids s \<and> fk (k_worker_id r) (worker_ids s))"

definition workers_ok :: "'z db_scheme \<Rightarrow> bool" where
  "workers_ok s \<longleftrightarrow> distinct (map w_worker_id (workers s)) \<and>
     (\<forall>w \<in> set (workers s). w_account_id w \<in> account_ids s \<and> fk (w_cluster_id w) (cluster_ids s) \<and>
        sql_int (w_memory_allocated_mb w))"

definition members_ok :: "'z db_scheme \<Rightarrow> bool" where
  "members_ok s \<longleftrightarrow>
     distinct (map (\<lambda>m. (cm_cluster_id m, cm_worker_id m)) (cluster_members s)) \<and>
     distinct (map (\<lambda>m. (cm_cluster_id m, cm_ring_position m)) (cluster_members s)) \<and>
     (\<forall>m \<in> set (cluster_members s). cm_cluster_id m \<in> cluster_ids s \<and>
        (case cm_layer_window m of None \<Rightarrow> True | Some n \<Rightarrow> 0 \<le> n \<and> sql_int n))"

definition clusters_ok :: "'z db_scheme \<Rightarrow> bool" where
  "clusters_ok s \<longleftrightarrow> distinct (map cr_cluster_id (clusters s))"

definition requests_ok :: "'z db_scheme \<Rightarrow> bool" where
  "requests_ok s \<longleftrightarrow> distinct (map q_request_id (requests s)) \<and>
     (\<forall>q \<in> set (requests s). q_account_id q \<in> account_ids s \<and> q_key_id q \<in> key_ids s \<and>
        q_cluster_id q \<in> cluster_ids s \<and> sql_int (q_prompt_tokens q) \<and> sql_int (q_completion_tokens q))"

definition schema_ok :: "'z db_scheme \<Rightarrow> bool" where
  "schema_ok s \<longleftrightarrow> accounts_ok s \<and> keys_ok s \<and> workers_ok s \<and> clusters_ok s \<and> members_ok s \<and>
     requests_ok s"

lemmas table_oks = accounts_ok_def keys_ok_def workers_ok_def members_ok_def clusters_ok_def
  requests_ok_def
lemmas id_sets = account_ids_def key_ids_def worker_ids_def cluster_ids_def

lemma wp_insert_account [wp_simps]:
  "wp (insert_account a) Q E s =
    (if a_account_id a \<in> account_ids s \<or> a_username a \<in> a_username ` set (accounts s)
     then E IntegrityError s else Q () (s\<lparr>accounts := accounts s @ [a]\<rparr>))"
  by (simp add: insert_account_def wp_def)

lemma wp_update_accounts [wp_simps]:
  "wp (update_accounts i f) Q E s = Q (i \<in> account_ids s)
     (s\<lparr>accounts := map (\<lambda>a. if a_account_id a = i then f a else a) (accounts s)\<rparr>)"
  by (simp add: update_accounts_def wp_def)

lemma wp_insert_api_key [wp_simps]:
  "wp (insert_api_key r) Q E s =
    (if k_key_id r \<in> key_ids s \<or> k_key_hash r \<in> k_key_hash ` set (api_keys s)
        \<or> k_account_id r \<notin> account_ids s
     then E IntegrityError s else Q () (s\<lparr>api_keys := api_keys s @ [r\<lparr>k_worker_id := None\<rparr>]\<rparr>))"
  by (simp add: insert_api_key_def wp_def)

lemma wp_bind_api_key [wp_simps]:
  "wp (bind_api_key_to_worker i w) Q E s =
    (if i \<in> key_ids s \<and> w \<notin> worker_ids s then E IntegrityError s
     else Q () (s\<lparr>api_keys := map (\<lambda>r. if k_key_id r = i then r\<lparr>k_worker_id := Some w\<rparr> else r)
            (api_keys s)\<rparr>))"
  by (simp add: bind_api_key_to_worker_def wp_def)

lemma wp_revoke_api_key [wp_simps]:
  "wp (revoke_api_key i) Q E s = Q (i \<in> key_ids s)
     (s\<lparr>api_keys := filter (\<lambda>r. k_key_id r \<noteq> i) (api_keys s),
        requests := (if i \<in> key_ids s then filter (\<lambda>q. q_key_id q \<noteq> i) (requests s) else requests s)\<rparr>)"
  by (simp add: revoke_api_key_def wp_def)

lemma wp_create_worker [wp_simps]:
  "wp (create_worker r) Q E s =
    (if \<not> sql_int (w_memory_allocated_mb r) then E OverflowError s
     else if w_worker_id r \<in> worker_ids s \<or> w_account_id r \<notin> account_ids s
        \<or> \<not> fk (w_cluster_id r) (cluster_ids s) then E IntegrityError s
     else Q () (s\<lparr>workers := workers s @ [r]\<rparr>))"
  by (simp add: create_worker_def wp_def)

lemma wp_update_worker [wp_simps]:
  "wp (update_worker r) Q E s =
    (if \<not> sql_int (w_memory_allocated_mb r) then E OverflowError s
     else if w_worker_id r \<in> worker_ids s \<and>
        (w_account_id r \<notin> account_ids s \<or> \<not> fk (w_cluster_id r) (cluster_ids s))
     then E IntegrityError s
     else Q () (s\<lparr>workers := map (\<lambda>w. if w_worker_id w = w_worker_id r then r else w) (workers s)\<rparr>))"
  by (auto simp: update_worker_def wp_def)

lemma wp_delete_worker [wp_simps]:
  "wp (delete_worker i) Q E s = Q (i \<in> worker_ids s)
     (s\<lparr>workers := filter (\<lambda>w. w_worker_id w \<noteq> i) (workers s),
        api_keys := map (\<lambda>r. if k_worker_id r = Some i then r\<lparr>k_worker_id := None\<rparr> else r) (api_keys s)\<rparr>)"
  by (simp add: delete_worker_def wp_def)

section \<open>Every operation keeps the schema's promises\<close>

lemma keeps_schema_insert_account: "keeps schema_ok (insert_account a)"
  by (rule keepsI) (auto simp: wp_simps schema_ok_def table_oks id_sets)

lemma keeps_schema_update_accounts:
  assumes "\<And>a. a_account_id (f a) = a_account_id a" and "\<And>a. a_username (f a) = a_username a"
  shows "keeps schema_ok (update_accounts i f)"
proof (rule keepsI)
  fix s :: "'z db_scheme"
  assume ok: "schema_ok s"
  let ?t = "s\<lparr>accounts := map (\<lambda>a. if a_account_id a = i then f a else a) (accounts s)\<rparr>"
  have "account_ids ?t = account_ids s" 
    using ids_update [of "\<lambda>a. a_account_id a = i" a_account_id f "accounts s"] assms
    by (simp add: account_ids_def)
  moreover have "accounts_ok ?t"
    using ok assms by (simp add: schema_ok_def accounts_ok_def map_key_update del: map_map)
  ultimately have "schema_ok ?t"
    using ok by (simp add: schema_ok_def keys_ok_def workers_ok_def members_ok_def clusters_ok_def
        requests_ok_def key_ids_def worker_ids_def cluster_ids_def)
  then show "wp (update_accounts i f) (\<lambda>_. schema_ok) (\<lambda>_. schema_ok) s" by (simp add: wp_simps)
qed

lemma keeps_schema_insert_api_key: "keeps schema_ok (insert_api_key r)"
  by (rule keepsI) (auto simp: wp_simps schema_ok_def table_oks id_sets fk_def)

lemma keeps_schema_bind: "keeps schema_ok (bind_api_key_to_worker i w)"
proof (rule keepsI)
  fix s :: "'z db_scheme"
  assume ok: "schema_ok s"
  let ?t = "s\<lparr>api_keys := map (\<lambda>r. if k_key_id r = i then r\<lparr>k_worker_id := Some w\<rparr> else r) (api_keys s)\<rparr>"
  have "schema_ok ?t" if "\<not> (i \<in> key_ids s \<and> w \<notin> worker_ids s)"
  proof -
    have "key_ids ?t = key_ids s"
      using ids_update [of "\<lambda>r. k_key_id r = i" k_key_id "\<lambda>r. r\<lparr>k_worker_id := Some w\<rparr>" "api_keys s"]
      by (simp add: key_ids_def)
    moreover have "keys_ok ?t"
      using ok that by (auto simp: schema_ok_def keys_ok_def id_sets fk_def map_key_update simp del: map_map)
    ultimately show ?thesis
      using ok by (simp add: schema_ok_def accounts_ok_def workers_ok_def members_ok_def
          clusters_ok_def requests_ok_def account_ids_def worker_ids_def cluster_ids_def)
  qed
  then show "wp (bind_api_key_to_worker i w) (\<lambda>_. schema_ok) (\<lambda>_. schema_ok) s"
    using ok by (simp add: wp_simps)
qed

lemma keeps_schema_revoke: "keeps schema_ok (revoke_api_key i)"
proof (rule keepsI)
  fix s :: "'z db_scheme"
  assume ok: "schema_ok s"
  let ?rs = "if i \<in> key_ids s then filter (\<lambda>q. q_key_id q \<noteq> i) (requests s) else requests s"
  let ?t = "s\<lparr>api_keys := filter (\<lambda>r. k_key_id r \<noteq> i) (api_keys s), requests := ?rs\<rparr>"
  have "requests_ok ?t"
    using ok by (auto simp: schema_ok_def requests_ok_def id_sets distinct_map_filter)
  moreover have "keys_ok ?t"
    using ok by (auto simp: schema_ok_def keys_ok_def id_sets distinct_map_filter)
  ultimately have "schema_ok ?t"
    using ok by (simp add: schema_ok_def accounts_ok_def workers_ok_def members_ok_def
        clusters_ok_def account_ids_def worker_ids_def cluster_ids_def)
  then show "wp (revoke_api_key i) (\<lambda>_. schema_ok) (\<lambda>_. schema_ok) s" by (simp add: wp_simps)
qed

lemma keeps_schema_create_worker: "keeps schema_ok (create_worker r)"
  by (rule keepsI) (auto simp: wp_simps schema_ok_def table_oks id_sets fk_def split: option.splits)

lemma keeps_schema_update_worker: "keeps schema_ok (update_worker r)"
proof (rule keepsI)
  fix s :: "'z db_scheme"
  assume ok: "schema_ok s"
  let ?t = "s\<lparr>workers := map (\<lambda>w. if w_worker_id w = w_worker_id r then r else w) (workers s)\<rparr>"
  have "schema_ok ?t" if mem: "sql_int (w_memory_allocated_mb r)"
    and row: "w_worker_id r \<in> worker_ids s \<Longrightarrow> w_account_id r \<in> account_ids s \<and> fk (w_cluster_id r) (cluster_ids s)"
  proof -
    have w: "worker_ids ?t = worker_ids s"
      using ids_update [of "\<lambda>w. w_worker_id w = w_worker_id r" w_worker_id "\<lambda>_. r" "workers s"]
      by (simp add: worker_ids_def)
    have fks: "w_account_id r \<in> account_ids s \<and> fk (w_cluster_id r) (cluster_ids s)"
      if "x \<in> set (workers s)" and "w_worker_id x = w_worker_id r" for x
    proof -
      from that(1) have "w_worker_id x \<in> worker_ids s" by (simp add: worker_ids_def)
      with that(2) show ?thesis using row by simp
    qed
    have "workers_ok ?t"
      using ok mem fks by (auto simp: schema_ok_def workers_ok_def map_replace_row
          account_ids_def cluster_ids_def simp del: map_map)
    then show ?thesis
      using ok w by (simp add: schema_ok_def accounts_ok_def keys_ok_def members_ok_def
          clusters_ok_def requests_ok_def account_ids_def key_ids_def cluster_ids_def)
  qed
  then show "wp (update_worker r) (\<lambda>_. schema_ok) (\<lambda>_. schema_ok) s"
    using ok by (simp add: wp_simps)
qed

lemma keeps_schema_delete_worker: "keeps schema_ok (delete_worker i)"
proof (rule keepsI)
  fix s :: "'z db_scheme"
  assume ok: "schema_ok s"
  let ?ks = "map (\<lambda>r. if k_worker_id r = Some i then r\<lparr>k_worker_id := None\<rparr> else r) (api_keys s)"
  let ?t = "s\<lparr>workers := filter (\<lambda>w. w_worker_id w \<noteq> i) (workers s), api_keys := ?ks\<rparr>"
  have k: "key_ids ?t = key_ids s"
    using ids_update [of "\<lambda>r. k_worker_id r = Some i" k_key_id "\<lambda>r. r\<lparr>k_worker_id := None\<rparr>" "api_keys s"]
    by (simp add: key_ids_def)
  have "keys_ok ?t"
    using ok by (auto simp: schema_ok_def keys_ok_def id_sets fk_def map_key_update simp del: map_map
        split: option.splits)
  moreover have "workers_ok ?t"
    using ok by (auto simp: schema_ok_def workers_ok_def id_sets distinct_map_filter)
  ultimately have "schema_ok ?t"
    using ok k by (simp add: schema_ok_def accounts_ok_def members_ok_def
        clusters_ok_def requests_ok_def account_ids_def cluster_ids_def)
  then show "wp (delete_worker i) (\<lambda>_. schema_ok) (\<lambda>_. schema_ok) s" by (simp add: wp_simps)
qed

section \<open>Lookup by key\<close>

text \<open>
  What the operations on accounts, keys and workers rely on: a lookup by primary key finds the row of
  that key, after an insertion, an update or a deletion as well.
\<close>

locale keyed_table =
  fixes rows :: "'s \<Rightarrow> 'r list" and key :: "'r \<Rightarrow> string" and get :: "string \<Rightarrow> 's \<Rightarrow> 'r option"
  assumes get: "get i s = find (\<lambda>r. key r = i) (rows s)"
begin

lemma get_in: "get i s = Some r \<Longrightarrow> r \<in> set (rows s) \<and> key r = i"
  unfolding get by (rule find_Some_in)

lemma get_row: "distinct (map key (rows s)) \<Longrightarrow> r \<in> set (rows s) \<Longrightarrow> get (key r) s = Some r"
  by (simp add: get find_eq_key)

lemma get_None: "get i s = None \<longleftrightarrow> i \<notin> key ` set (rows s)"
  by (simp add: get find_None_key)

lemma get_same: "rows t = rows s \<Longrightarrow> get i t = get i s"
  by (simp add: get)

lemma get_insert:
  assumes "rows t = rows s @ [r]" and "key r \<notin> key ` set (rows s)"
  shows "get i t = (if i = key r then Some r else get i s)"
proof -
  have "find (\<lambda>x. key x = i) (xs @ [r]) = (case find (\<lambda>x. key x = i) xs of None \<Rightarrow> if key r = i then Some r else None
      | Some x \<Rightarrow> Some x)" for xs
    by (induction xs) auto
  moreover have "find (\<lambda>x. key x = key r) (rows s) = None" using assms(2) by (simp add: find_None_key)
  ultimately show ?thesis by (auto simp: get assms(1) split: option.split)
qed

lemma get_update:
  assumes "rows t = map (\<lambda>r. if key r = i then f r else r) (rows s)" and "\<And>r. key (f r) = key r"
  shows "get j t = (if j = i then map_option f (get j s) else get j s)"
proof -
  have "find (\<lambda>r. key r = j) (map (\<lambda>r. if key r = i then f r else r) xs) =
      (if j = i then map_option f (find (\<lambda>r. key r = j) xs) else find (\<lambda>r. key r = j) xs)" for xs
    using assms(2) by (induction xs) auto
  then show ?thesis by (simp add: get assms(1))
qed

lemma get_delete:
  assumes "rows t = filter (\<lambda>r. key r \<noteq> i) (rows s)"
  shows "get j t = (if j = i then None else get j s)"
proof -
  have "find (\<lambda>r. key r = j) (filter (\<lambda>r. key r \<noteq> i) xs) = (if j = i then None else find (\<lambda>r. key r = j) xs)" for xs
    by (induction xs) auto
  then show ?thesis by (simp add: get assms)
qed

end

interpretation account_table: keyed_table "accounts :: 'z db_scheme \<Rightarrow> account_rec list" a_account_id get_account
  by unfold_locales (simp add: get_account_def)

interpretation key_table: keyed_table "api_keys :: 'z db_scheme \<Rightarrow> api_key_rec list" k_key_id get_api_key
  by unfold_locales (simp add: get_api_key_def)

interpretation worker_table: keyed_table "workers :: 'z db_scheme \<Rightarrow> worker_rec list" w_worker_id get_worker
  by unfold_locales (simp add: get_worker_def)

end
