(* ===== verification/Pool_Clusters.thy ===== *)
theory Pool_Clusters
  imports Pool_Store
begin

text \<open>
  store.py, second part: clusters and their membership (the junction table), the readiness report,
  the layer distribution and the liveness gate. \<open>ready_spec\<close> and \<open>distribution_spec\<close> say what
  the two reports mean for the cluster record a reader sees; the refinement lemmas show that the
  SQL of \<open>mark_member_ready\<close> and \<open>set_cluster_distribution\<close> does exactly that and touches no
  other cluster. \<open>ring_ok\<close> is the shape of the junction rows that the server maintains.
\<close>

section \<open>Reading a cluster\<close>

definition cluster_row_of :: "string \<Rightarrow> 'z db_scheme \<Rightarrow> cluster_row option" where
  "cluster_row_of cid s = find (\<lambda>r. cr_cluster_id r = cid) (clusters s)"

definition rows_of :: "string \<Rightarrow> 'z db_scheme \<Rightarrow> member_row list" where
  "rows_of cid s = filter (\<lambda>m. cm_cluster_id m = cid) (cluster_members s)"

text \<open>The dict comprehensions over the rows: only addresses that are present and not empty.\<close>

definition ips_of_rows :: "member_row list \<Rightarrow> string dict" where
  "ips_of_rows rows = List.map_filter (\<lambda>m. case cm_assigned_ip m of None \<Rightarrow> None
     | Some ip \<Rightarrow> if ip = [] then None else Some (cm_worker_id m, ip)) rows"

definition windows_of_rows :: "member_row list \<Rightarrow> int dict" where
  "windows_of_rows rows = List.map_filter (\<lambda>m. case cm_layer_window m of None \<Rightarrow> None
     | Some n \<Rightarrow> Some (cm_worker_id m, n)) rows"

definition hydrate :: "cluster_row \<Rightarrow> member_row list \<Rightarrow> cluster_rec" where
  "hydrate r rows = \<lparr>
     c_cluster_id = cr_cluster_id r,
     c_model = cr_model r,
     c_subnet = cr_subnet r,
     c_members = map cm_worker_id rows,
     c_status = cr_status r,
     c_ready = set (map cm_worker_id (filter cm_ready rows)),
     c_created_at = cr_created_at r,
     c_ips = ips_of_rows rows,
     c_layer_windows = (if cr_distribution_reported r then Some (windows_of_rows rows) else None)\<rparr>"

definition load_cluster_members :: "string \<Rightarrow> 'z db_scheme \<Rightarrow> cluster_rec option" where
  "load_cluster_members cid s =
     (case cluster_row_of cid s of None \<Rightarrow> None
      | Some r \<Rightarrow> Some (hydrate r (sort_key cm_ring_position (rows_of cid s))))"

definition get_cluster :: "string \<Rightarrow> 'z db_scheme \<Rightarrow> cluster_rec option" where
  "get_cluster cid s = load_cluster_members cid s"

definition list_clusters :: "'z db_scheme \<Rightarrow> cluster_rec list" where
  "list_clusters s =
     List.map_filter (\<lambda>r. load_cluster_members (cr_cluster_id r) s) (sort_key cr_created_at (clusters s))"

section \<open>Writing a cluster\<close>

definition cluster_to_row :: "cluster_rec \<Rightarrow> cluster_row" where
  "cluster_to_row c = \<lparr>
     cr_cluster_id = c_cluster_id c,
     cr_model = c_model c,
     cr_subnet = c_subnet c,
     cr_status = c_status c,
     cr_created_at = c_created_at c,
     cr_distribution_reported = (c_layer_windows c \<noteq> None)\<rparr>"

text \<open>
  One \<open>INSERT INTO cluster_members ... ON CONFLICT (cluster_id, worker_id) DO UPDATE\<close>: the
  primary key selects update or insert; the foreign key, the CHECK on the window and
  \<open>UNIQUE (cluster_id, ring_position)\<close> are enforced.
\<close>

definition same_member :: "member_row \<Rightarrow> member_row \<Rightarrow> bool" where
  "same_member a b \<longleftrightarrow> cm_cluster_id a = cm_cluster_id b \<and> cm_worker_id a = cm_worker_id b"

definition upsert_member :: "member_row \<Rightarrow> ('z db_scheme, unit) act" where
  "upsert_member m = (\<lambda>s.
     if \<not> (case cm_layer_window m of None \<Rightarrow> True | Some n \<Rightarrow> sql_int n) then (Inl OverflowError, s)
     else if cm_cluster_id m \<notin> cluster_ids s
        \<or> \<not> (case cm_layer_window m of None \<Rightarrow> True | Some n \<Rightarrow> 0 \<le> n)
        \<or> (\<exists>x \<in> set (cluster_members s). cm_cluster_id x = cm_cluster_id m
              \<and> cm_ring_position x = cm_ring_position m \<and> \<not> same_member x m)
     then (Inl IntegrityError, s)
     else (Inr (), s\<lparr>cluster_members :=
       (if \<exists>x \<in> set (cluster_members s). same_member x m
        then map (\<lambda>x. if same_member x m then m else x) (cluster_members s)
        else cluster_members s @ [m])\<rparr>))"

definition member_row_of :: "cluster_rec \<Rightarrow> nat \<times> string \<Rightarrow> member_row" where
  "member_row_of c = (\<lambda>(i, wid). \<lparr>
     cm_cluster_id = c_cluster_id c,
     cm_worker_id = wid,
     cm_ring_position = i,
     cm_assigned_ip = map_of (c_ips c) wid,
     cm_ready = (wid \<in> c_ready c),
     cm_layer_window = (case c_layer_windows c of None \<Rightarrow> None | Some lw \<Rightarrow> map_of lw wid)\<rparr>)"

definition save_cluster_members :: "cluster_rec \<Rightarrow> ('z db_scheme, unit) act" where
  "save_cluster_members c =
     seqa (for_each (\<lambda>p. upsert_member (member_row_of c p)) (List.enumerate 0 (c_members c)))
       (puts (\<lambda>s. s\<lparr>cluster_members := filter (\<lambda>m. \<not> (cm_cluster_id m = c_cluster_id c
            \<and> cm_worker_id m \<notin> set (c_members c))) (cluster_members s)\<rparr>))"

definition insert_cluster_row :: "cluster_row \<Rightarrow> ('z db_scheme, unit) act" where
  "insert_cluster_row r = (\<lambda>s.
     if cr_cluster_id r \<in> cluster_ids s then (Inl IntegrityError, s)
     else (Inr (), s\<lparr>clusters := clusters s @ [r]\<rparr>))"

definition update_cluster_rows ::
  "string \<Rightarrow> (cluster_row \<Rightarrow> cluster_row) \<Rightarrow> ('z db_scheme, unit) act" where
  "update_cluster_rows cid f = puts (\<lambda>s. s\<lparr>clusters :=
     map (\<lambda>r. if cr_cluster_id r = cid then f r else r) (clusters s)\<rparr>)"

definition create_cluster :: "cluster_rec \<Rightarrow> ('z db_scheme, unit) act" where
  "create_cluster c = atomic (seqa (insert_cluster_row (cluster_to_row c)) (save_cluster_members c))"

definition update_cluster :: "cluster_rec \<Rightarrow> ('z db_scheme, unit) act" where
  "update_cluster c = atomic (seqa
     (update_cluster_rows (c_cluster_id c) (\<lambda>_. cluster_to_row c))
     (save_cluster_members c))"

section \<open>Readiness, layer distribution, and the liveness gate\<close>

definition update_members ::
  "(member_row \<Rightarrow> bool) \<Rightarrow> (member_row \<Rightarrow> member_row) \<Rightarrow> ('z db_scheme, unit) act" where
  "update_members P f = puts (\<lambda>s. s\<lparr>cluster_members :=
     map (\<lambda>m. if P m then f m else m) (cluster_members s)\<rparr>)"

definition gate_open :: "cluster_rec \<Rightarrow> bool" where
  "gate_open c \<longleftrightarrow> card (c_ready c) \<ge> length (c_members c) \<and> c_layer_windows c \<noteq> None
     \<and> c_status c \<noteq> terminated"

text \<open>The end of both reports: re-read the cluster and go live when the gate is open.\<close>

definition evaluate_gate :: "string \<Rightarrow> ('z db_scheme, cluster_rec option) act" where
  "evaluate_gate cid =
     bnd (gets (load_cluster_members cid)) (\<lambda>c.
     case c of None \<Rightarrow> throw AttributeError
     | Some cluster \<Rightarrow>
         if gate_open cluster then
           seqa (update_cluster_rows cid (\<lambda>r. r\<lparr>cr_status := live\<rparr>))
             (ret (Some (cluster\<lparr>c_status := live\<rparr>)))
         else ret (Some cluster))"

definition mark_member_ready ::
  "string \<Rightarrow> string \<Rightarrow> ('z db_scheme, cluster_rec option) act" where
  "mark_member_ready cid wid = atomic (
     bnd (gets (load_cluster_members cid)) (\<lambda>c.
     case c of None \<Rightarrow> ret None
     | Some cluster \<Rightarrow>
         if c_status cluster = terminated then ret (Some cluster)
         else seqa
           (update_members (\<lambda>m. cm_cluster_id m = cid \<and> cm_worker_id m = wid)
              (\<lambda>m. m\<lparr>cm_ready := True\<rparr>))
           (evaluate_gate cid)))"

definition set_member_window :: "string \<Rightarrow> string \<Rightarrow> int \<Rightarrow> ('z db_scheme, unit) act" where
  "set_member_window cid wid n = (\<lambda>s.
     if \<not> sql_int n then (Inl OverflowError, s)
     else if n < 0 \<and> (\<exists>m \<in> set (cluster_members s). cm_cluster_id m = cid \<and> cm_worker_id m = wid)
     then (Inl IntegrityError, s)
     else (Inr (), s\<lparr>cluster_members :=
       map (\<lambda>m. if cm_cluster_id m = cid \<and> cm_worker_id m = wid then m\<lparr>cm_layer_window := Some n\<rparr> else m)
         (cluster_members s)\<rparr>))"

definition set_cluster_distribution ::
  "string \<Rightarrow> int dict option \<Rightarrow> ('z db_scheme, cluster_rec option) act" where
  "set_cluster_distribution cid layer_windows = atomic (
     bnd (gets (load_cluster_members cid)) (\<lambda>c.
     case c of None \<Rightarrow> ret None
     | Some cluster \<Rightarrow>
         if c_status cluster = terminated then ret (Some cluster)
         else seqa
           (case layer_windows of
              None \<Rightarrow> seqa
                (update_cluster_rows cid (\<lambda>r. r\<lparr>cr_distribution_reported := False\<rparr>))
                (update_members (\<lambda>m. cm_cluster_id m = cid) (\<lambda>m. m\<lparr>cm_layer_window := None\<rparr>))
            | Some lw \<Rightarrow> seqa
                (update_cluster_rows cid (\<lambda>r. r\<lparr>cr_distribution_reported := True\<rparr>))
                (seqa (for_each (\<lambda>(wid, count). set_member_window cid wid count) lw)
                  (update_members (\<lambda>m. cm_cluster_id m = cid \<and> cm_layer_window m \<noteq> None
                       \<and> cm_worker_id m \<notin> set (map fst lw))
                    (\<lambda>m. m\<lparr>cm_layer_window := None\<rparr>))))
           (evaluate_gate cid)))"

definition set_cluster_layer_windows ::
  "string \<Rightarrow> int dict option \<Rightarrow> ('z db_scheme, bool) act" where
  "set_cluster_layer_windows cid layer_windows =
     bnd (set_cluster_distribution cid layer_windows) (\<lambda>c. ret (c \<noteq> None))"

lemmas cluster_op_defs = update_cluster_rows_def update_members_def evaluate_gate_def

section \<open>What the reports mean\<close>

definition go_live :: "cluster_rec \<Rightarrow> cluster_rec" where
  "go_live c = (if gate_open c then c\<lparr>c_status := live\<rparr> else c)"

definition ready_spec :: "string \<Rightarrow> cluster_rec \<Rightarrow> cluster_rec" where
  "ready_spec wid c =
     (if c_status c = terminated then c
      else go_live (c\<lparr>c_ready := c_ready c \<union> ({wid} \<inter> set (c_members c))\<rparr>))"

text \<open>The windows that the report gives to members, in ring order.\<close>

definition member_windows :: "int dict \<Rightarrow> string list \<Rightarrow> int dict" where
  "member_windows lw members =
     List.map_filter (\<lambda>wid. case map_of lw wid of None \<Rightarrow> None | Some n \<Rightarrow> Some (wid, n)) members"

definition distribution_spec :: "int dict option \<Rightarrow> cluster_rec \<Rightarrow> cluster_rec" where
  "distribution_spec lw c =
     (if c_status c = terminated then c
      else go_live (c\<lparr>c_layer_windows := map_option (\<lambda>d. member_windows d (c_members c)) lw\<rparr>))"

section \<open>Refinement\<close>

lemma insort_key_map: "(\<And>x. f (g x) = f x) \<Longrightarrow> insort_key f (g x) (map g xs) = map g (insort_key f x xs)"
  by (induction xs) auto

lemma sort_key_map: "(\<And>x. f (g x) = f x) \<Longrightarrow> sort_key f (map g xs) = map g (sort_key f xs)"
  by (induction xs) (auto simp: insort_key_map)

lemma filter_map_key: "(\<And>x. P (g x) = P x) \<Longrightarrow> filter P (map g xs) = map g (filter P xs)"
  by (induction xs) auto

lemma map_filter_map: "List.map_filter f (map g xs) = List.map_filter (f \<circ> g) xs"
  by (induction xs) (auto simp: List.map_filter_def)

lemma map_filter_cong: "(\<And>x. x \<in> set xs \<Longrightarrow> f x = g x) \<Longrightarrow> List.map_filter f xs = List.map_filter g xs"
  by (auto simp: List.map_filter_def intro!: map_cong filter_cong)

lemma load_cluster_update_members:
  assumes "\<And>m. cm_cluster_id (f m) = cm_cluster_id m" and "\<And>m. cm_ring_position (f m) = cm_ring_position m"
  shows "load_cluster_members cid (s\<lparr>cluster_members := map f (cluster_members s)\<rparr>) =
    (case cluster_row_of cid s of None \<Rightarrow> None
     | Some r \<Rightarrow> Some (hydrate r (map f (sort_key cm_ring_position (rows_of cid s)))))"
  using assms
  by (simp add: load_cluster_members_def cluster_row_of_def rows_of_def filter_map_key sort_key_map
      split: option.split)

lemma load_cluster_update_rows:
  assumes "\<And>r. cr_cluster_id (f r) = cr_cluster_id r"
  shows "load_cluster_members cid
      (s\<lparr>clusters := map (\<lambda>r. if cr_cluster_id r = c then f r else r) (clusters s)\<rparr>) =
    (case cluster_row_of cid s of None \<Rightarrow> None
     | Some r \<Rightarrow> Some (hydrate (if cid = c then f r else r)
                    (sort_key cm_ring_position (rows_of cid s))))"
proof -
  let ?g = "\<lambda>r. if cr_cluster_id r = c then f r else r"
  have "find (\<lambda>r. cr_cluster_id r = cid) (map ?g (clusters s)) =
      map_option ?g (find (\<lambda>r. cr_cluster_id r = cid) (clusters s))"
    by (rule find_map_update) (simp add: assms)
  then show ?thesis
    by (cases "find (\<lambda>r. cr_cluster_id r = cid) (clusters s)")
      (auto simp: load_cluster_members_def cluster_row_of_def rows_of_def dest: find_Some_in)
qed

lemma wp_update_members [wp_simps]:
  "wp (update_members P f) Q E s = Q () (s\<lparr>cluster_members :=
     map (\<lambda>m. if P m then f m else m) (cluster_members s)\<rparr>)"
  by (simp add: update_members_def wp_simps)

lemma wp_update_cluster_rows [wp_simps]:
  "wp (update_cluster_rows cid f) Q E s = Q () (s\<lparr>clusters :=
     map (\<lambda>r. if cr_cluster_id r = cid then f r else r) (clusters s)\<rparr>)"
  by (simp add: update_cluster_rows_def wp_simps)

lemma hydrate_status: "hydrate (r\<lparr>cr_status := st\<rparr>) rows = (hydrate r rows)\<lparr>c_status := st\<rparr>"
  by (simp add: hydrate_def)

text \<open>The state after the gate: what a reader sees of every cluster.\<close>

definition same_clusters_but :: "string \<Rightarrow> 'z db_scheme \<Rightarrow> 'z db_scheme \<Rightarrow> bool" where
  "same_clusters_but cid s t \<longleftrightarrow>
     (\<forall>c. c \<noteq> cid \<longrightarrow> load_cluster_members c t = load_cluster_members c s)"

lemma evaluate_gate_wp:
  assumes "load_cluster_members cid s = Some c"
  shows "wp (evaluate_gate cid)
     (\<lambda>r t. r = Some (go_live c) \<and> load_cluster_members cid t = Some (go_live c)
        \<and> same_clusters_but cid s t \<and> cluster_members t = cluster_members s \<and> workers t = workers s)
     (\<lambda>_ _. False) s"
proof -
  let ?t = "s\<lparr>clusters := map (\<lambda>r. if cr_cluster_id r = cid then r\<lparr>cr_status := live\<rparr> else r) (clusters s)\<rparr>"
  obtain r where r: "cluster_row_of cid s = Some r"
    and c: "c = hydrate r (sort_key cm_ring_position (rows_of cid s))"
    using assms by (auto simp: load_cluster_members_def split: option.splits)
  have "load_cluster_members x ?t = (if x = cid then Some (c\<lparr>c_status := live\<rparr>) else load_cluster_members x s)" for x
    using load_cluster_update_rows [of "\<lambda>r. r\<lparr>cr_status := live\<rparr>" x cid s] r c
    by (auto simp: hydrate_status load_cluster_members_def split: option.splits)
  then show ?thesis
    using assms by (simp add: evaluate_gate_def wp_simps go_live_def same_clusters_but_def)
qed

lemma rows_of_in: "m \<in> set (sort_key cm_ring_position (rows_of cid s)) \<Longrightarrow> cm_cluster_id m = cid"
  by (simp add: rows_of_def)

text \<open>
  A membership update that selects rows of one cluster: the record of that cluster is rebuilt from
  its updated rows, the others read as before.
\<close>

lemma load_cluster_member_update:
  assumes "\<And>m. P m \<Longrightarrow> cm_cluster_id m = cid"
    and "\<And>m. cm_cluster_id (f m) = cm_cluster_id m" and "\<And>m. cm_ring_position (f m) = cm_ring_position m"
  shows "load_cluster_members x
      (s\<lparr>cluster_members := map (\<lambda>m. if P m then f m else m) (cluster_members s)\<rparr>) =
    (if x = cid then map_option (\<lambda>r. hydrate r (map (\<lambda>m. if P m then f m else m)
        (sort_key cm_ring_position (rows_of cid s)))) (cluster_row_of cid s)
     else load_cluster_members x s)"
proof -
  let ?g = "\<lambda>m. if P m then f m else m"
  have l: "load_cluster_members x (s\<lparr>cluster_members := map ?g (cluster_members s)\<rparr>) =
    (case cluster_row_of x s of None \<Rightarrow> None
     | Some r \<Rightarrow> Some (hydrate r (map ?g (sort_key cm_ring_position (rows_of x s)))))"
    by (rule load_cluster_update_members) (simp_all add: assms)
  show ?thesis
  proof (cases "x = cid")
    case True
    then show ?thesis using l by (simp split: option.split)
  next
    case False
    then have "map ?g (sort_key cm_ring_position (rows_of x s)) = sort_key cm_ring_position (rows_of x s)"
      using assms(1) rows_of_in by (intro map_idI) fastforce
    with False show ?thesis unfolding l by (simp add: load_cluster_members_def split: option.split)
  qed
qed

lemma hydrate_ready:
  "hydrate r (map (\<lambda>m. if cm_worker_id m = wid then m\<lparr>cm_ready := True\<rparr> else m) rows) =
   (hydrate r rows)\<lparr>c_ready := c_ready (hydrate r rows) \<union> ({wid} \<inter> set (c_members (hydrate r rows)))\<rparr>"
proof -
  let ?g = "\<lambda>m. if cm_worker_id m = wid then m\<lparr>cm_ready := True\<rparr> else m"
  have "set (map cm_worker_id (filter cm_ready (map ?g rows))) =
      set (map cm_worker_id (filter cm_ready rows)) \<union> ({wid} \<inter> set (map cm_worker_id rows))"
    by (induction rows) auto
  moreover have "map cm_worker_id (map ?g rows) = map cm_worker_id rows" by simp
  moreover have "ips_of_rows (map ?g rows) = ips_of_rows rows"
    and "windows_of_rows (map ?g rows) = windows_of_rows rows"
    by (auto simp: ips_of_rows_def windows_of_rows_def map_filter_map intro!: map_filter_cong
        split: option.split)
  ultimately show ?thesis by (simp add: hydrate_def del: map_map)
qed

lemma mark_member_ready_wp:
  "wp (mark_member_ready cid wid)
     (\<lambda>r t. r = map_option (ready_spec wid) (get_cluster cid s) \<and> get_cluster cid t = r
        \<and> same_clusters_but cid s t)
     (\<lambda>_ _. False) s"
proof (cases "cluster_row_of cid s")
  case None
  then show ?thesis
    by (simp add: mark_member_ready_def get_cluster_def load_cluster_members_def wp_simps
        same_clusters_but_def)
next
  case (Some r)
  let ?rows = "sort_key cm_ring_position (rows_of cid s)"
  let ?c = "hydrate r ?rows"
  let ?P = "\<lambda>m. cm_cluster_id m = cid \<and> cm_worker_id m = wid"
  let ?s1 = "s\<lparr>cluster_members := map (\<lambda>m. if ?P m then m\<lparr>cm_ready := True\<rparr> else m) (cluster_members s)\<rparr>"
  let ?c1 = "?c\<lparr>c_ready := c_ready ?c \<union> ({wid} \<inter> set (c_members ?c))\<rparr>"
  have c: "load_cluster_members cid s = Some ?c" using Some by (simp add: load_cluster_members_def)
  have "map (\<lambda>m. if ?P m then m\<lparr>cm_ready := True\<rparr> else m) ?rows =
      map (\<lambda>m. if cm_worker_id m = wid then m\<lparr>cm_ready := True\<rparr> else m) ?rows"
    using rows_of_in [of _ cid s] by (intro map_cong) auto
  then have "hydrate r (map (\<lambda>m. if ?P m then m\<lparr>cm_ready := True\<rparr> else m) ?rows) = ?c1"
    by (simp only: hydrate_ready)
  then have s1: "load_cluster_members x ?s1 = (if x = cid then Some ?c1 else load_cluster_members x s)" for x
    using load_cluster_member_update [of ?P cid "\<lambda>m. m\<lparr>cm_ready := True\<rparr>" x s] Some
    by simp
  show ?thesis
  proof (cases "c_status ?c = terminated")
    case True
    then show ?thesis using c
      by (simp add: mark_member_ready_def get_cluster_def wp_simps same_clusters_but_def ready_spec_def)
  next
    case False
    have "wp (evaluate_gate cid) (\<lambda>r t. r = map_option (ready_spec wid) (get_cluster cid s) \<and>
        get_cluster cid t = r \<and> same_clusters_but cid s t) (\<lambda>_ _. False) ?s1"
      by (rule wp_conseq [OF evaluate_gate_wp [of cid ?s1 ?c1]])
        (use False c s1 in \<open>auto simp: get_cluster_def same_clusters_but_def ready_spec_def\<close>)
    then show ?thesis using c False by (simp add: mark_member_ready_def wp_simps)
  qed
qed

lemma wp_set_member_window [wp_simps]:
  "wp (set_member_window cid wid n) Q E s =
    (if \<not> sql_int n then E OverflowError s
     else if n < 0 \<and> (\<exists>m \<in> set (cluster_members s). cm_cluster_id m = cid \<and> cm_worker_id m = wid)
     then E IntegrityError s
     else Q () (s\<lparr>cluster_members := map (\<lambda>m. if cm_cluster_id m = cid \<and> cm_worker_id m = wid
            then m\<lparr>cm_layer_window := Some n\<rparr> else m) (cluster_members s)\<rparr>))"
  by (auto simp: set_member_window_def wp_def)

definition window_ok :: "int \<Rightarrow> bool" where
  "window_ok n \<longleftrightarrow> 0 \<le> n \<and> sql_int n"

definition windows_valid :: "int dict \<Rightarrow> bool" where
  "windows_valid lw \<longleftrightarrow> distinct (map fst lw) \<and> list_all (\<lambda>(wid, n). window_ok n) lw"

definition put_windows :: "string \<Rightarrow> int dict \<Rightarrow> member_row \<Rightarrow> member_row" where
  "put_windows cid lw m =
     (if cm_cluster_id m = cid \<and> cm_worker_id m \<in> set (map fst lw)
      then m\<lparr>cm_layer_window := map_of lw (cm_worker_id m)\<rparr> else m)"

lemma put_windows_Cons:
  "wid \<notin> set (map fst lw) \<Longrightarrow>
   put_windows cid lw (if cm_cluster_id m = cid \<and> cm_worker_id m = wid
      then m\<lparr>cm_layer_window := Some n\<rparr> else m) = put_windows cid ((wid, n) # lw) m"
  by (simp add: put_windows_def)

lemma wp_set_windows:
  assumes "windows_valid lw"
  shows "wp (for_each (\<lambda>(wid, n). set_member_window cid wid n) lw) Q E s =
    Q () (s\<lparr>cluster_members := map (put_windows cid lw) (cluster_members s)\<rparr>)"
  using assms
proof (induction lw arbitrary: s)
  case Nil
  have "put_windows cid [] = (\<lambda>m. m)" by (simp add: put_windows_def fun_eq_iff)
  then show ?case by (simp add: wp_simps)
next
  case (Cons p lw)
  obtain wid n where p: "p = (wid, n)" by fastforce
  have ok: "sql_int n" "\<not> n < 0" "windows_valid lw" "wid \<notin> set (map fst lw)"
    using Cons.prems by (auto simp: p windows_valid_def window_ok_def)
  have "map (put_windows cid lw) (map (\<lambda>m. if cm_cluster_id m = cid \<and> cm_worker_id m = wid
      then m\<lparr>cm_layer_window := Some n\<rparr> else m) (cluster_members s)) =
      map (put_windows cid ((wid, n) # lw)) (cluster_members s)"
    using put_windows_Cons [OF ok(4)] by simp
  then show ?case
    using ok(1,2) Cons.IH [OF ok(3), of "s\<lparr>cluster_members := map (\<lambda>m. if cm_cluster_id m = cid \<and>
      cm_worker_id m = wid then m\<lparr>cm_layer_window := Some n\<rparr> else m) (cluster_members s)\<rparr>"]
    by (simp add: p wp_simps del: map_map)
qed

text \<open>The rows of a cluster after a report: every member has what the report gives it, if anything.\<close>

definition assign_windows :: "(string \<rightharpoonup> int) \<Rightarrow> member_row \<Rightarrow> member_row" where
  "assign_windows W m = m\<lparr>cm_layer_window := W (cm_worker_id m)\<rparr>"

lemma hydrate_windows:
  "hydrate r (map (assign_windows (map_of d)) rows) =
   (if cr_distribution_reported r
    then (hydrate r rows)\<lparr>c_layer_windows := Some (member_windows d (c_members (hydrate r rows)))\<rparr>
    else hydrate r rows)"
proof -
  have "map cm_worker_id (filter cm_ready (map (assign_windows (map_of d)) rows)) =
      map cm_worker_id (filter cm_ready rows)"
    by (induction rows) (auto simp: assign_windows_def)
  moreover have "ips_of_rows (map (assign_windows (map_of d)) rows) = ips_of_rows rows"
    by (auto simp: ips_of_rows_def map_filter_map assign_windows_def intro!: map_filter_cong
        split: option.split)
  moreover have "windows_of_rows (map (assign_windows (map_of d)) rows) =
      member_windows d (map cm_worker_id rows)"
    by (auto simp: windows_of_rows_def member_windows_def map_filter_map assign_windows_def
        intro!: map_filter_cong split: option.split)
  ultimately show ?thesis
    by (simp add: hydrate_def del: set_map) (simp add: assign_windows_def)
qed

lemma put_then_clear:
  "(if cm_cluster_id (put_windows cid d m) = cid \<and> cm_layer_window (put_windows cid d m) \<noteq> None
       \<and> cm_worker_id (put_windows cid d m) \<notin> fst ` set d
    then (put_windows cid d m)\<lparr>cm_layer_window := None\<rparr> else put_windows cid d m) =
   (if cm_cluster_id m = cid then assign_windows (map_of d) m else m)"
proof -
  have "map_of d w = None" if "w \<notin> fst ` set d" for w
    using that by (simp add: map_of_eq_None_iff)
  then show ?thesis by (cases m) (auto simp: put_windows_def assign_windows_def)
qed

lemma put_then_clear_map:
  "map (\<lambda>m. if cm_cluster_id m = cid \<and> cm_layer_window m \<noteq> None \<and> cm_worker_id m \<notin> fst ` set d
        then m\<lparr>cm_layer_window := None\<rparr> else m) (map (put_windows cid d) ms) =
   map (\<lambda>m. if cm_cluster_id m = cid then assign_windows (map_of d) m else m) ms"
  using put_then_clear by (simp only: map_map comp_def)

lemma load_cluster_both:
  assumes "\<And>m. P m \<Longrightarrow> cm_cluster_id m = cid"
    and "\<And>m. cm_cluster_id (f m) = cm_cluster_id m" and "\<And>m. cm_ring_position (f m) = cm_ring_position m"
    and g: "\<And>r. cr_cluster_id (g r) = cr_cluster_id r"
  shows "load_cluster_members x
      (s\<lparr>clusters := map (\<lambda>r. if cr_cluster_id r = cid then g r else r) (clusters s),
         cluster_members := map (\<lambda>m. if P m then f m else m) (cluster_members s)\<rparr>) =
    (if x = cid then map_option (\<lambda>r. hydrate (g r) (map (\<lambda>m. if P m then f m else m)
        (sort_key cm_ring_position (rows_of cid s)))) (cluster_row_of cid s)
     else load_cluster_members x s)"
proof -
  let ?s1 = "s\<lparr>clusters := map (\<lambda>r. if cr_cluster_id r = cid then g r else r) (clusters s)\<rparr>"
  have "cluster_row_of cid ?s1 = map_option (\<lambda>r. if cr_cluster_id r = cid then g r else r) (cluster_row_of cid s)"
    unfolding cluster_row_of_def by (simp, rule find_map_update) (simp add: g)
  also have "\<dots> = map_option g (cluster_row_of cid s)"
    by (cases "cluster_row_of cid s") (auto simp: cluster_row_of_def dest: find_Some_in)
  finally have r: "cluster_row_of cid ?s1 = map_option g (cluster_row_of cid s)" .
  have "load_cluster_members x ?s1 = load_cluster_members x s" if "x \<noteq> cid"
    using load_cluster_update_rows [of g x cid s] that g
    by (simp add: load_cluster_members_def split: option.split)
  then show ?thesis
    using load_cluster_member_update [of P cid f x ?s1] assms r
    by (simp add: rows_of_def option.map_comp comp_def)
qed

lemma set_cluster_distribution_wp:
  assumes "case lw of None \<Rightarrow> True | Some d \<Rightarrow> windows_valid d"
  shows "wp (set_cluster_distribution cid lw)
     (\<lambda>r t. r = map_option (distribution_spec lw) (get_cluster cid s) \<and> get_cluster cid t = r
        \<and> same_clusters_but cid s t)
     (\<lambda>_ _. False) s"
proof (cases "cluster_row_of cid s")
  case None
  then show ?thesis
    by (simp add: set_cluster_distribution_def get_cluster_def load_cluster_members_def wp_simps
        same_clusters_but_def)
next
  case (Some r)
  let ?rows = "sort_key cm_ring_position (rows_of cid s)"
  let ?c = "hydrate r ?rows"
  have c: "load_cluster_members cid s = Some ?c" using Some by (simp add: load_cluster_members_def)
  show ?thesis
  proof (cases "c_status ?c = terminated")
    case True
    then show ?thesis using c
      by (simp add: set_cluster_distribution_def get_cluster_def wp_simps same_clusters_but_def
          distribution_spec_def)
  next
    case False
    let ?g = "\<lambda>r. r\<lparr>cr_distribution_reported := lw \<noteq> None\<rparr>"
    let ?f = "case lw of None \<Rightarrow> (\<lambda>m. m\<lparr>cm_layer_window := None\<rparr>) | Some d \<Rightarrow> assign_windows (map_of d)"
    let ?s1 = "s\<lparr>clusters := map (\<lambda>r. if cr_cluster_id r = cid then ?g r else r) (clusters s),
         cluster_members := map (\<lambda>m. if cm_cluster_id m = cid then ?f m else m) (cluster_members s)\<rparr>"
    let ?c1 = "?c\<lparr>c_layer_windows := map_option (\<lambda>d. member_windows d (c_members ?c)) lw\<rparr>"
    have none: "(\<lambda>m. m\<lparr>cm_layer_window := None\<rparr>) = assign_windows (map_of [])"
      by (simp add: assign_windows_def fun_eq_iff)
    have f: "?f = assign_windows (map_of (case lw of None \<Rightarrow> [] | Some d \<Rightarrow> d))"
      by (simp add: none split: option.split)
    have "map (\<lambda>m. if cm_cluster_id m = cid then ?f m else m) ?rows = map ?f ?rows"
      using rows_of_in [of _ cid s] by (intro map_cong) auto
    then have "hydrate (?g r) (map (\<lambda>m. if cm_cluster_id m = cid then ?f m else m) ?rows) = ?c1"
      by (simp only: f hydrate_windows) (simp add: hydrate_def split: option.split)
    then have s1: "load_cluster_members x ?s1 = (if x = cid then Some ?c1 else load_cluster_members x s)" for x
      using load_cluster_both [of "\<lambda>m. cm_cluster_id m = cid" cid ?f ?g x s] Some
      by (simp add: f assign_windows_def)
    have ev: "wp (evaluate_gate cid) (\<lambda>r t. r = map_option (distribution_spec lw) (get_cluster cid s) \<and>
        get_cluster cid t = r \<and> same_clusters_but cid s t) (\<lambda>_ _. False) ?s1"
      by (rule wp_conseq [OF evaluate_gate_wp [of cid ?s1 ?c1]])
        (use False c s1 in \<open>auto simp: get_cluster_def same_clusters_but_def distribution_spec_def\<close>)
    show ?thesis
    proof (cases lw)
      case None
      from ev [unfolded None] show ?thesis using c False None
        by (simp add: set_cluster_distribution_def wp_simps cong: if_cong)
    next
      case lw: (Some d)
      from ev [unfolded lw] show ?thesis using c False assms lw
        by (simp add: set_cluster_distribution_def wp_simps wp_set_windows put_then_clear_map
            del: map_map not_None_eq cong: if_cong)
    qed
  qed
qed

section \<open>Every order of the reports takes the cluster live\<close>

datatype report = Ready string | Distribution "int dict"

fun report_act :: "string \<Rightarrow> report \<Rightarrow> ('z db_scheme, unit) act" where
  "report_act cid (Ready wid) = bnd (mark_member_ready cid wid) (\<lambda>_. ret ())"
| "report_act cid (Distribution d) = bnd (set_cluster_distribution cid (Some d)) (\<lambda>_. ret ())"

fun report_spec :: "report \<Rightarrow> cluster_rec \<Rightarrow> cluster_rec" where
  "report_spec (Ready wid) = ready_spec wid"
| "report_spec (Distribution d) = distribution_spec (Some d)"

fun report_valid :: "report \<Rightarrow> bool" where
  "report_valid (Ready wid) = True"
| "report_valid (Distribution d) = windows_valid d"

lemma report_act_wp:
  assumes "report_valid r" and "get_cluster cid s = Some c"
  shows "wp (report_act cid r) (\<lambda>_ t. get_cluster cid t = Some (report_spec r c)) (\<lambda>_ _. False) s"
proof (cases r)
  case (Ready wid)
  show ?thesis unfolding Ready report_act.simps wp_bnd wp_ret
    by (rule wp_conseq [OF mark_member_ready_wp]) (use assms in simp_all)
next
  case (Distribution d)
  have "case Some d of None \<Rightarrow> True | Some d \<Rightarrow> windows_valid d" using assms Distribution by simp
  then show ?thesis unfolding Distribution report_act.simps wp_bnd wp_ret
    by (rule wp_conseq [OF set_cluster_distribution_wp]) (use assms in simp_all)
qed

text \<open>What is still missing for the gate, given the reports to come.\<close>

definition on_the_way :: "report list \<Rightarrow> cluster_rec \<Rightarrow> bool" where
  "on_the_way rs c \<longleftrightarrow> c_status c \<noteq> terminated \<and> distinct (c_members c) \<and> finite (c_ready c) \<and>
     (\<forall>m \<in> set (c_members c). m \<in> c_ready c \<or> Ready m \<in> set rs) \<and>
     (c_layer_windows c \<noteq> None \<or> (\<exists>d. Distribution d \<in> set rs))"

lemma on_the_way_step: "on_the_way (r # rs) c \<Longrightarrow> on_the_way rs (report_spec r c)"
  by (cases r) (auto simp: on_the_way_def ready_spec_def distribution_spec_def go_live_def)

lemma report_spec_settled:
  "c_status c \<noteq> terminated \<Longrightarrow> gate_open (report_spec r c) \<Longrightarrow> c_status (report_spec r c) = live"
  by (cases r) (auto simp: ready_spec_def distribution_spec_def go_live_def)

lemma on_the_way_gate: "on_the_way [] c \<Longrightarrow> gate_open c"
  unfolding on_the_way_def gate_open_def
  by (metis card_mono distinct_card empty_iff empty_set subsetI)

section \<open>A new cluster\<close>

lemma wp_upsert_member [wp_simps]:
  "wp (upsert_member m) Q E s =
    (if \<not> (case cm_layer_window m of None \<Rightarrow> True | Some n \<Rightarrow> sql_int n) then E OverflowError s
     else if cm_cluster_id m \<notin> cluster_ids s
        \<or> \<not> (case cm_layer_window m of None \<Rightarrow> True | Some n \<Rightarrow> 0 \<le> n)
        \<or> (\<exists>x \<in> set (cluster_members s). cm_cluster_id x = cm_cluster_id m
              \<and> cm_ring_position x = cm_ring_position m \<and> \<not> same_member x m)
     then E IntegrityError s
     else Q () (s\<lparr>cluster_members :=
       (if \<exists>x \<in> set (cluster_members s). same_member x m
        then map (\<lambda>x. if same_member x m then m else x) (cluster_members s)
        else cluster_members s @ [m])\<rparr>))"
  by (auto simp: upsert_member_def wp_def)

lemma wp_insert_cluster_row [wp_simps]:
  "wp (insert_cluster_row r) Q E s = (if cr_cluster_id r \<in> cluster_ids s then E IntegrityError s
     else Q () (s\<lparr>clusters := clusters s @ [r]\<rparr>))"
  by (simp add: insert_cluster_row_def wp_def)

lemma member_row_of_simps [simp]:
  "cm_cluster_id (member_row_of c p) = c_cluster_id c"
  "cm_worker_id (member_row_of c p) = snd p"
  "cm_ring_position (member_row_of c p) = fst p"
  "cm_assigned_ip (member_row_of c p) = map_of (c_ips c) (snd p)"
  "cm_ready (member_row_of c p) = (snd p \<in> c_ready c)"
  "cm_layer_window (member_row_of c p) =
     (case c_layer_windows c of None \<Rightarrow> None | Some lw \<Rightarrow> map_of lw (snd p))"
  by (simp_all add: member_row_of_def split_def)

definition record_windows_ok :: "cluster_rec \<Rightarrow> bool" where
  "record_windows_ok c \<longleftrightarrow> (case c_layer_windows c of None \<Rightarrow> True | Some lw \<Rightarrow> windows_valid lw)"

lemma record_window:
  "record_windows_ok c \<Longrightarrow> cm_layer_window (member_row_of c p) = Some n \<Longrightarrow> 0 \<le> n \<and> sql_int n"
  by (auto simp: record_windows_ok_def windows_valid_def window_ok_def list_all_iff
      split: option.splits dest: map_of_SomeD)

lemma wp_insert_members:
  assumes "record_windows_ok c" and "c_cluster_id c \<in> cluster_ids s" and "distinct ws"
    and "\<And>m. m \<in> set (cluster_members s) \<Longrightarrow> cm_cluster_id m = c_cluster_id c \<Longrightarrow>
        cm_ring_position m < n \<and> cm_worker_id m \<notin> set ws"
  shows "wp (for_each (\<lambda>p. upsert_member (member_row_of c p)) (List.enumerate n ws)) Q E s =
    Q () (s\<lparr>cluster_members := cluster_members s @ map (member_row_of c) (List.enumerate n ws)\<rparr>)"
  using assms(2-)
proof (induction ws arbitrary: n s)
  case Nil
  then show ?case by (simp add: wp_simps)
next
  case (Cons w ws)
  let ?m = "member_row_of c (n, w)"
  let ?s1 = "s\<lparr>cluster_members := cluster_members s @ [?m]\<rparr>"
  have win: "case cm_layer_window ?m of None \<Rightarrow> True | Some n \<Rightarrow> sql_int n"
    "case cm_layer_window ?m of None \<Rightarrow> True | Some n \<Rightarrow> 0 \<le> n"
    using record_window [OF assms(1), of "(n, w)"] by (auto split: option.split)
  have fresh: "\<not> (\<exists>x \<in> set (cluster_members s). same_member x ?m)"
    and slot: "\<not> (\<exists>x \<in> set (cluster_members s). cm_cluster_id x = cm_cluster_id ?m \<and>
      cm_ring_position x = cm_ring_position ?m \<and> \<not> same_member x ?m)"
    using Cons.prems(3) by (fastforce simp: same_member_def)+
  have cid: "cm_cluster_id ?m \<in> cluster_ids s" using Cons.prems(1) by simp
  have ih: "wp (for_each (\<lambda>p. upsert_member (member_row_of c p)) (List.enumerate (Suc n) ws)) Q E ?s1 =
    Q () (?s1\<lparr>cluster_members := cluster_members ?s1 @ map (member_row_of c) (List.enumerate (Suc n) ws)\<rparr>)"
  proof (rule Cons.IH)
    show "c_cluster_id c \<in> cluster_ids ?s1" using Cons.prems(1) by (simp add: cluster_ids_def)
    show "distinct ws" using Cons.prems(2) by simp
    show "cm_ring_position m < Suc n \<and> cm_worker_id m \<notin> set ws"
      if "m \<in> set (cluster_members ?s1)" "cm_cluster_id m = c_cluster_id c" for m
      using that Cons.prems(2,3) by (fastforce simp: less_Suc_eq)
  qed
  have "wp (upsert_member ?m) (\<lambda>_. wp (for_each (\<lambda>p. upsert_member (member_row_of c p))
      (List.enumerate (Suc n) ws)) Q E) E s =
      wp (for_each (\<lambda>p. upsert_member (member_row_of c p)) (List.enumerate (Suc n) ws)) Q E ?s1"
    using cid by (simp only: wp_upsert_member win fresh slot simp_thms if_False if_True)
  with ih show ?case by (simp add: wp_simps del: member_row_of_simps)
qed

text \<open>
  The transaction of \<open>create_cluster\<close>: the row and the members are appended, in ring order.
\<close>

lemma create_cluster_wp:
  assumes "record_windows_ok c" and "distinct (c_members c)"
    and "\<And>m. m \<in> set (cluster_members s) \<Longrightarrow> cm_cluster_id m \<in> cluster_ids s"
  shows "wp (create_cluster c) Q E s =
    (if c_cluster_id c \<in> cluster_ids s then E IntegrityError s
     else Q () (s\<lparr>clusters := clusters s @ [cluster_to_row c],
       cluster_members := cluster_members s @ map (member_row_of c) (List.enumerate 0 (c_members c))\<rparr>))"
proof (cases "c_cluster_id c \<in> cluster_ids s")
  case True
  then show ?thesis by (simp add: create_cluster_def wp_simps cluster_to_row_def)
next
  case False
  let ?s1 = "s\<lparr>clusters := clusters s @ [cluster_to_row c]\<rparr>"
  have other: "cm_cluster_id m \<noteq> c_cluster_id c" if "m \<in> set (cluster_members s)" for m
    using assms(3) [OF that] False by auto
  have "filter (\<lambda>m. \<not> (cm_cluster_id m = c_cluster_id c \<and> cm_worker_id m \<notin> set (c_members c)))
      (cluster_members s @ map (member_row_of c) (List.enumerate 0 (c_members c))) =
      cluster_members s @ map (member_row_of c) (List.enumerate 0 (c_members c))"
    using other by (auto simp: filter_id_conv in_set_enumerate_eq)
  moreover have "c_cluster_id c \<in> cluster_ids ?s1" by (simp add: cluster_ids_def cluster_to_row_def)
  ultimately show ?thesis
    using False other wp_insert_members [OF assms(1), of ?s1 "c_members c" 0] assms(2)
    by (simp add: create_cluster_def save_cluster_members_def wp_simps cluster_to_row_def
        del: filter_append)
qed

text \<open>What the store can hold faithfully: members once, addresses and windows of members, in ring order.\<close>

definition member_ips :: "string dict \<Rightarrow> string list \<Rightarrow> string dict" where
  "member_ips ips members = List.map_filter (\<lambda>wid. case map_of ips wid of None \<Rightarrow> None
     | Some ip \<Rightarrow> if ip = [] then None else Some (wid, ip)) members"

definition cluster_wf :: "cluster_rec \<Rightarrow> bool" where
  "cluster_wf c \<longleftrightarrow> distinct (c_members c) \<and> c_ready c \<subseteq> set (c_members c) \<and>
     c_ips c = member_ips (c_ips c) (c_members c) \<and> record_windows_ok c \<and>
     (case c_layer_windows c of None \<Rightarrow> True | Some lw \<Rightarrow> lw = member_windows lw (c_members c))"

lemma map_filter_enumerate:
  "List.map_filter (\<lambda>p. f (snd p)) (List.enumerate n xs) = List.map_filter f xs"
  by (induction xs arbitrary: n) (auto simp: List.map_filter_simps split: option.split)

lemma hydrate_member_rows:
  assumes "cluster_wf c"
  shows "hydrate (cluster_to_row c) (map (member_row_of c) (List.enumerate 0 (c_members c))) = c"
proof -
  let ?rows = "map (member_row_of c) (List.enumerate 0 (c_members c))"
  have "map cm_worker_id ?rows = c_members c" by (simp add: comp_def)
  moreover have "set (map cm_worker_id (filter cm_ready ?rows)) = c_ready c"
  proof -
    have "set (map cm_worker_id (filter cm_ready ?rows)) = {w \<in> snd ` set (List.enumerate 0 (c_members c)). w \<in> c_ready c}"
      by force
    also have "snd ` set (List.enumerate 0 (c_members c)) = set (c_members c)"
      by (metis list.set_map map_snd_enumerate)
    finally show ?thesis using assms by (auto simp: cluster_wf_def)
  qed
  moreover have "ips_of_rows ?rows = member_ips (c_ips c) (c_members c)"
  proof -
    let ?F = "\<lambda>wid. case map_of (c_ips c) wid of None \<Rightarrow> None
          | Some ip \<Rightarrow> if ip = [] then None else Some (wid, ip)"
    have "ips_of_rows ?rows = List.map_filter (\<lambda>p. ?F (snd p)) (List.enumerate 0 (c_members c))"
      unfolding ips_of_rows_def map_filter_map by (rule map_filter_cong) (simp split: option.split)
    also have "\<dots> = List.map_filter ?F (c_members c)" by (rule map_filter_enumerate)
    finally show ?thesis by (simp only: member_ips_def)
  qed
  moreover have "windows_of_rows ?rows = member_windows lw (c_members c)" if "c_layer_windows c = Some lw" for lw
  proof -
    let ?F = "\<lambda>wid. case map_of lw wid of None \<Rightarrow> None | Some n \<Rightarrow> Some (wid, n)"
    have "windows_of_rows ?rows = List.map_filter (\<lambda>p. ?F (snd p)) (List.enumerate 0 (c_members c))"
      unfolding windows_of_rows_def map_filter_map
      by (rule map_filter_cong) (simp add: that split: option.split)
    also have "\<dots> = List.map_filter ?F (c_members c)" by (rule map_filter_enumerate)
    finally show ?thesis by (simp only: member_windows_def)
  qed
  ultimately show ?thesis using assms
    by (auto simp: hydrate_def cluster_to_row_def cluster_wf_def split: option.splits)
qed

lemma rows_of_new:
  assumes "\<And>m. m \<in> set (cluster_members s) \<Longrightarrow> cm_cluster_id m \<in> cluster_ids s"
    and "c_cluster_id c \<notin> cluster_ids s"
  shows "rows_of (c_cluster_id c) (s\<lparr>clusters := cs, cluster_members := cluster_members s @
      map (member_row_of c) (List.enumerate 0 (c_members c))\<rparr>) =
    map (member_row_of c) (List.enumerate 0 (c_members c))"
proof -
  have "filter (\<lambda>m. cm_cluster_id m = c_cluster_id c) (cluster_members s) = []"
    using assms by (metis (mono_tags, lifting) filter_False)
  then show ?thesis by (simp add: rows_of_def filter_map_key filter_map comp_def)
qed

lemma load_new_cluster:
  assumes "\<And>m. m \<in> set (cluster_members s) \<Longrightarrow> cm_cluster_id m \<in> cluster_ids s"
    and "c_cluster_id c \<notin> cluster_ids s" and "cluster_wf c"
  shows "load_cluster_members x (s\<lparr>clusters := clusters s @ [cluster_to_row c],
      cluster_members := cluster_members s @ map (member_row_of c) (List.enumerate 0 (c_members c))\<rparr>) =
    (if x = c_cluster_id c then Some c else load_cluster_members x s)"
proof -
  let ?t = "s\<lparr>clusters := clusters s @ [cluster_to_row c],
      cluster_members := cluster_members s @ map (member_row_of c) (List.enumerate 0 (c_members c))\<rparr>"
  have find_snoc: "find P (xs @ [y]) = (case find P xs of Some z \<Rightarrow> Some z | None \<Rightarrow> if P y then Some y else None)"
    for P :: "cluster_row \<Rightarrow> bool" and xs y by (induction xs) auto
  show ?thesis
  proof (cases "x = c_cluster_id c")
    case True
    have "find (\<lambda>r. cr_cluster_id r = x) (clusters s) = None"
      using assms(2) True by (simp add: find_None_key cluster_ids_def)
    then have "cluster_row_of x ?t = Some (cluster_to_row c)"
      using True by (simp add: cluster_row_of_def find_snoc cluster_to_row_def)
    moreover have "sort_key cm_ring_position (rows_of x ?t) = rows_of x ?t"
      using rows_of_new [OF assms(1,2)] True
      by (intro sort_key_sorted_id) (simp add: comp_def)
    ultimately show ?thesis
      using True rows_of_new [OF assms(1,2)] hydrate_member_rows [OF assms(3)]
      by (simp add: load_cluster_members_def)
  next
    case False
    then have "rows_of x ?t = rows_of x s" by (auto simp: rows_of_def filter_empty_conv)
    moreover have "cluster_row_of x ?t = cluster_row_of x s"
      using False by (simp add: cluster_row_of_def find_snoc cluster_to_row_def split: option.split)
    ultimately show ?thesis using False by (simp add: load_cluster_members_def split: option.split)
  qed
qed

lemma same_clusters_but_refl [simp]: "same_clusters_but cid s s"
  by (simp add: same_clusters_but_def)

lemma get_cluster_finite_ready: "get_cluster cid s = Some c \<Longrightarrow> finite (c_ready c)"
  by (auto simp: get_cluster_def load_cluster_members_def hydrate_def split: option.splits)

section \<open>Properties\<close>

definition demo_cluster :: cluster_rec where
  "demo_cluster = \<lparr>c_cluster_id = ''clu_1'', c_model = ''m'', c_subnet = ''10.23.1.0/24'',
     c_members = [''a'', ''b''], c_status = assembling, c_ready = {}, c_created_at = 7,
     c_ips = [(''a'', ''10.23.1.1''), (''b'', ''10.23.1.2'')], c_layer_windows = None\<rparr>"

definition empty_db :: db where
  "empty_db = \<lparr>clock = 100, rnd = str_nat, rnd_used = 0, accounts = [], api_keys = [], workers = [],
     clusters = [], cluster_members = [], requests = []\<rparr>"

definition demo_cluster_db :: db where
  "demo_cluster_db = empty_db\<lparr>clusters := [cluster_to_row demo_cluster],
     cluster_members := map (member_row_of demo_cluster) (List.enumerate 0 (c_members demo_cluster))\<rparr>"

lemma demo_cluster_wf: "cluster_wf demo_cluster"
  by (simp add: cluster_wf_def demo_cluster_def member_ips_def List.map_filter_simps record_windows_ok_def)

lemma get_demo_cluster: "get_cluster ''clu_1'' demo_cluster_db = Some demo_cluster"
  using load_new_cluster [of empty_db demo_cluster "''clu_1''", OF _ _ demo_cluster_wf]
  by (simp add: get_cluster_def demo_cluster_db_def empty_db_def cluster_ids_def)
    (simp add: demo_cluster_def)

text \<open>C8: The readiness report refines its specification: \<open>mark_member_ready\<close> never raises; it returns,
  and leaves for every later reader, the record with the reporting member added to the ready set
  (a stranger is not added) and the status live exactly when all members are ready and the layer
  distribution is reported. A terminated cluster is returned and left as it is, a missing one is
  \<open>None\<close>, and every other cluster reads as before.\<close>


theorem mark_member_ready_refines:
  "wp (mark_member_ready cid wid)
     (\<lambda>r t. r = map_option (ready_spec wid) (get_cluster cid s) \<and> get_cluster cid t = r
        \<and> same_clusters_but cid s t)
     (\<lambda>_ _. False) s"
  by (rule mark_member_ready_wp)

text \<open>C7: The layer report refines its specification: for every report (\<open>None\<close>, the empty "unknown"
  dict, or counts per worker that fit SQLite) \<open>set_cluster_distribution\<close> never raises; the record
  that it returns and that later readers see carries exactly the reported windows of the
  members, in ring order, an earlier report being replaced as a whole, and it is live exactly when
  the gate is open. A terminated cluster is left alone and no other cluster changes.\<close>


theorem set_cluster_distribution_refines:
  assumes "case lw of None \<Rightarrow> True | Some d \<Rightarrow> windows_valid d"
  shows "wp (set_cluster_distribution cid lw)
     (\<lambda>r t. r = map_option (distribution_spec lw) (get_cluster cid s) \<and> get_cluster cid t = r
        \<and> same_clusters_but cid s t)
     (\<lambda>_ _. False) s"
  by (rule set_cluster_distribution_wp [OF assms])

lemma demo_windows_valid: "windows_valid [(''a'', 24), (''b'', 0)]"
  by (simp add: windows_valid_def window_ok_def sql_int_def)

theorem set_cluster_distribution_refines_witness:
  "wp (set_cluster_distribution ''clu_1'' (Some [(''a'', 24), (''b'', 0)]))
     (\<lambda>r t. r = Some (demo_cluster\<lparr>c_layer_windows := Some [(''a'', 24), (''b'', 0)]\<rparr>)
        \<and> get_cluster ''clu_1'' t = r \<and> same_clusters_but ''clu_1'' demo_cluster_db t)
     (\<lambda>_ _. False) demo_cluster_db"
proof -
  have h: "case Some [(''a'', 24), (''b'', 0)] of None \<Rightarrow> True | Some d \<Rightarrow> windows_valid d"
    by (simp add: demo_windows_valid)
  have "distribution_spec (Some [(''a'', 24), (''b'', 0)]) demo_cluster =
      demo_cluster\<lparr>c_layer_windows := Some [(''a'', 24), (''b'', 0)]\<rparr>"
    by (simp add: demo_cluster_def distribution_spec_def go_live_def gate_open_def member_windows_def
        List.map_filter_simps)
  then show ?thesis
    using set_cluster_distribution_refines [OF h, of "''clu_1''" demo_cluster_db] get_demo_cluster
    by simp
qed

text \<open>C9: Whatever the order of the reports, a cluster that is not terminated goes live: after any
  sequence of valid reports that contains the readiness of every member and a layer distribution
  (in any order, with repetitions and reports of strangers in between), the store holds the
  cluster as live, with every member ready and a distribution recorded, and nothing raised.\<close>

theorem reports_in_any_order_go_live:
  fixes s :: "'z db_scheme"
  assumes "get_cluster cid s = Some c" and "c_status c \<noteq> terminated" and "distinct (c_members c)"
    and "\<forall>m \<in> set (c_members c). Ready m \<in> set rs" and "\<exists>d. Distribution d \<in> set rs"
    and "\<forall>r \<in> set rs. report_valid r"
  shows "wp (for_each (report_act cid) rs)
     (\<lambda>_ t. \<exists>c'. get_cluster cid t = Some c' \<and> c_status c' = live \<and> c_members c' = c_members c
        \<and> set (c_members c) \<subseteq> c_ready c' \<and> c_layer_windows c' \<noteq> None)
     (\<lambda>_ _. False) s"
proof -
  define J :: "report list \<Rightarrow> 'z db_scheme \<Rightarrow> bool" where "J = (\<lambda>xs t. \<exists>c'. get_cluster cid t = Some c' \<and> on_the_way xs c' \<and>
     c_members c' = c_members c \<and> (\<forall>r \<in> set xs. report_valid r) \<and>
     (length xs = length rs \<or> (gate_open c' \<longrightarrow> c_status c' = live)) \<and> length xs \<le> length rs)"
  have "on_the_way rs c"
    using assms get_cluster_finite_ready by (auto simp: on_the_way_def)
  then have init: "J rs s" using assms(1,6) by (auto simp: J_def)
  have step: "wp (report_act cid r) (\<lambda>_. J ys) (\<lambda>_ _. False) t" if J: "J (r # ys) t" for r ys t
  proof -
    obtain c' where c': "get_cluster cid t = Some c'" "on_the_way (r # ys) c'"
      "c_members c' = c_members c" "\<forall>x \<in> set (r # ys). report_valid x" "length (r # ys) \<le> length rs"
      using J by (auto simp: J_def)
    have "c_members (report_spec r c') = c_members c'"
      by (cases r) (simp_all add: ready_spec_def distribution_spec_def go_live_def)
    then have "J ys u" if "get_cluster cid u = Some (report_spec r c')" for u
      using that c' on_the_way_step [OF c'(2)] report_spec_settled [of c' r]
      by (auto simp: J_def on_the_way_def)
    then show ?thesis using wp_conseq [OF report_act_wp [OF _ c'(1), of r]] c'(4) by simp
  qed
  show ?thesis
  proof (rule wp_for_each_inv [of J, OF init step])
    fix t
    assume "J [] t"
    moreover have "rs \<noteq> []" using assms(5) by auto
    ultimately show "\<exists>c'. get_cluster cid t = Some c' \<and> c_status c' = live \<and> c_members c' = c_members c
        \<and> set (c_members c) \<subseteq> c_ready c' \<and> c_layer_windows c' \<noteq> None"
      using on_the_way_gate by (auto simp: J_def on_the_way_def)
  qed
qed

theorem reports_in_any_order_go_live_witness:
  "wp (for_each (report_act ''clu_1'')
        [Ready ''b'', Distribution [], Ready ''zz'', Ready ''a''])
     (\<lambda>_ t. \<exists>c'. get_cluster ''clu_1'' t = Some c' \<and> c_status c' = live \<and> c_members c' = [''a'', ''b'']
        \<and> set [''a'', ''b''] \<subseteq> c_ready c' \<and> c_layer_windows c' \<noteq> None)
     (\<lambda>_ _. False) demo_cluster_db"
proof -
  let ?rs = "[Ready ''b'', Distribution [], Ready ''zz'', Ready ''a'']"
  have "c_status demo_cluster \<noteq> terminated" and "distinct (c_members demo_cluster)"
    and "\<forall>m \<in> set (c_members demo_cluster). Ready m \<in> set ?rs"
    and "\<exists>d. Distribution d \<in> set ?rs" and "\<forall>r \<in> set ?rs. report_valid r"
    by (auto simp: demo_cluster_def windows_valid_def)
  from reports_in_any_order_go_live [OF get_demo_cluster this] show ?thesis
    by (simp add: demo_cluster_def)
qed

text \<open>C18: What is stored is what is read: a cluster record whose members are distinct and whose
  addresses and windows are those of its members comes back from \<open>get_cluster\<close> field by field,
  in ring order, after \<open>create_cluster\<close>, which raises nothing when the id is new; every
  other cluster reads as before.\<close>

theorem create_cluster_roundtrip:
  assumes "cluster_wf c" and "c_cluster_id c \<notin> cluster_ids s" and "members_ok s"
  shows "wp (create_cluster c)
     (\<lambda>_ t. get_cluster (c_cluster_id c) t = Some c \<and> same_clusters_but (c_cluster_id c) s t)
     (\<lambda>_ _. False) s"
proof -
  have fk: "cm_cluster_id m \<in> cluster_ids s" if "m \<in> set (cluster_members s)" for m
    using assms(3) that by (simp add: members_ok_def)
  have "record_windows_ok c" and "distinct (c_members c)" using assms(1) by (simp_all add: cluster_wf_def)
  then show ?thesis
    using create_cluster_wp [of c s, OF _ _ fk] load_new_cluster [OF fk assms(2,1)] assms(2)
    by (simp add: get_cluster_def same_clusters_but_def)
qed

theorem create_cluster_roundtrip_witness:
  "wp (create_cluster demo_cluster)
     (\<lambda>_ t. get_cluster ''clu_1'' t = Some demo_cluster \<and> same_clusters_but ''clu_1'' empty_db t)
     (\<lambda>_ _. False) empty_db"
proof -
  have "c_cluster_id demo_cluster \<notin> cluster_ids empty_db" and "members_ok empty_db"
    by (simp_all add: empty_db_def cluster_ids_def members_ok_def)
  from create_cluster_roundtrip [OF demo_cluster_wf this] show ?thesis
    by (simp add: demo_cluster_def)
qed

end
