(* ===== verification/Pool_Rings.thy ===== *)
theory Pool_Rings
  imports Pool_Clusters
begin

text \<open>
  What the server maintains about its clusters, on top of the constraints of the schema.
  \<open>ring_ok\<close>: every cluster row has a ring (positions \<open>0, 1, ...\<close>, at least a head, every member
  with an address), windows are recorded only for a reported distribution, and a live cluster is
  fully ready and reported. This theory proves that the cluster operations keep the schema and the
  rings, and that writing back a record that was read changes nothing but the status.
\<close>

section \<open>Cluster operations keep the schema\<close>

lemma schema_clusters_cong:
  assumes "schema_ok s" and "cluster_ids t = cluster_ids s" and "clusters_ok t" and "members_ok t"
    and "accounts t = accounts s" and "api_keys t = api_keys s" and "workers t = workers s"
    and "requests t = requests s"
  shows "schema_ok t"
  using assms by (simp add: schema_ok_def accounts_ok_def keys_ok_def workers_ok_def requests_ok_def
      account_ids_def key_ids_def worker_ids_def)

lemma schema_members_only:
  "schema_ok s \<Longrightarrow> members_ok (s\<lparr>cluster_members := ms\<rparr>) \<Longrightarrow> schema_ok (s\<lparr>cluster_members := ms\<rparr>)"
  by (rule schema_clusters_cong [of s]) (simp_all add: schema_ok_def cluster_ids_def clusters_ok_def)

lemma keeps_schema_insert_cluster: "keeps schema_ok (insert_cluster_row r)"
  by (rule keepsI) (auto simp: wp_simps schema_ok_def table_oks id_sets fk_def split: option.splits)

lemma keeps_schema_update_cluster_rows:
  assumes "\<And>r. cr_cluster_id r = cid \<Longrightarrow> cr_cluster_id (f r) = cid"
  shows "keeps schema_ok (update_cluster_rows cid f)"
proof (rule keepsI)
  fix s :: "'z db_scheme"
  assume ok: "schema_ok s"
  let ?t = "s\<lparr>clusters := map (\<lambda>r. if cr_cluster_id r = cid then f r else r) (clusters s)\<rparr>"
  have ids: "cluster_ids ?t = cluster_ids s"
    using ids_update [of "\<lambda>r. cr_cluster_id r = cid" cr_cluster_id f "clusters s"] assms
    by (simp add: cluster_ids_def)
  have "clusters_ok ?t"
    using ok map_key_update [of "\<lambda>r. cr_cluster_id r = cid" cr_cluster_id f "clusters s"] assms
    by (simp add: schema_ok_def clusters_ok_def del: map_map)
  moreover have "members_ok ?t" using ok ids by (simp add: schema_ok_def members_ok_def)
  ultimately have "schema_ok ?t"
    using ok ids by - (rule schema_clusters_cong [of s], simp_all)
  then show "wp (update_cluster_rows cid f) (\<lambda>_. schema_ok) (\<lambda>_. schema_ok) s"
    by (simp add: wp_simps)
qed

lemma members_okI:
  assumes "members_ok s" and "cluster_ids t = cluster_ids s"
    and "map (\<lambda>m. (cm_cluster_id m, cm_worker_id m)) (cluster_members t) =
         map (\<lambda>m. (cm_cluster_id m, cm_worker_id m)) (cluster_members s)"
    and "map (\<lambda>m. (cm_cluster_id m, cm_ring_position m)) (cluster_members t) =
         map (\<lambda>m. (cm_cluster_id m, cm_ring_position m)) (cluster_members s)"
    and "\<And>m n. m \<in> set (cluster_members t) \<Longrightarrow> cm_layer_window m = Some n \<Longrightarrow> window_ok n"
  shows "members_ok t"
proof -
  have "cm_cluster_id m \<in> cluster_ids t" if "m \<in> set (cluster_members t)" for m
  proof -
    have "(cm_cluster_id m, cm_worker_id m) \<in> set (map (\<lambda>m. (cm_cluster_id m, cm_worker_id m)) (cluster_members t))"
      using that by auto
    then have "\<exists>x \<in> set (cluster_members s). cm_cluster_id x = cm_cluster_id m"
      unfolding assms(3) by fastforce
    then show ?thesis using assms(1,2) by (auto simp: members_ok_def)
  qed
  moreover have "distinct (map (\<lambda>m. (cm_cluster_id m, cm_worker_id m)) (cluster_members t))"
    and "distinct (map (\<lambda>m. (cm_cluster_id m, cm_ring_position m)) (cluster_members t))"
    using assms(1) unfolding assms(3,4) by (simp_all add: members_ok_def)
  ultimately show ?thesis using assms(5) by (auto simp: members_ok_def window_ok_def split: option.split)
qed

lemma members_window_ok:
  "schema_ok s \<Longrightarrow> m \<in> set (cluster_members s) \<Longrightarrow> cm_layer_window m = Some n \<Longrightarrow> window_ok n"
  by (fastforce simp: schema_ok_def members_ok_def window_ok_def)

lemma keeps_schema_update_members:
  assumes "\<And>m. cm_cluster_id (f m) = cm_cluster_id m" and "\<And>m. cm_worker_id (f m) = cm_worker_id m"
    and "\<And>m. cm_ring_position (f m) = cm_ring_position m"
    and "\<And>m n. cm_layer_window (f m) = Some n \<Longrightarrow> cm_layer_window m = Some n"
  shows "keeps schema_ok (update_members P f)"
proof (rule keepsI)
  fix s :: "'z db_scheme"
  assume ok: "schema_ok s"
  let ?t = "s\<lparr>cluster_members := map (\<lambda>m. if P m then f m else m) (cluster_members s)\<rparr>"
  have "members_ok ?t"
  proof (rule members_okI [of s])
    fix m n
    assume "m \<in> set (cluster_members ?t)" and n: "cm_layer_window m = Some n"
    then obtain x where x: "x \<in> set (cluster_members s)" and m: "m = (if P x then f x else x)" by auto
    with n assms(4) [of x n] have "cm_layer_window x = Some n" by (simp split: if_splits)
    with x show "window_ok n" by (rule members_window_ok [OF ok])
  qed (use ok assms in \<open>simp_all add: schema_ok_def cluster_ids_def\<close>)
  then have "schema_ok ?t"
    using schema_members_only [OF ok] by simp
  then show "wp (update_members P f) (\<lambda>_. schema_ok) (\<lambda>_. schema_ok) s" by (simp add: wp_simps)
qed

lemma keeps_schema_set_member_window: "keeps schema_ok (set_member_window cid wid n)"
proof (rule keepsI)
  fix s :: "'z db_scheme"
  assume ok: "schema_ok s"
  let ?t = "s\<lparr>cluster_members := map (\<lambda>m. if cm_cluster_id m = cid \<and> cm_worker_id m = wid
            then m\<lparr>cm_layer_window := Some n\<rparr> else m) (cluster_members s)\<rparr>"
  have "schema_ok ?t"
    if big: "sql_int n" and n: "\<not> (n < 0 \<and> (\<exists>m \<in> set (cluster_members s). cm_cluster_id m = cid \<and> cm_worker_id m = wid))"
  proof -
    have "members_ok ?t"
    proof (rule members_okI [of s])
      fix m k
      assume "m \<in> set (cluster_members ?t)" and k: "cm_layer_window m = Some k"
      then obtain x where x: "x \<in> set (cluster_members s)"
        and m: "m = (if cm_cluster_id x = cid \<and> cm_worker_id x = wid then x\<lparr>cm_layer_window := Some n\<rparr> else x)"
        by auto
      show "window_ok k"
      proof (cases "cm_cluster_id x = cid \<and> cm_worker_id x = wid")
        case True
        then have "\<not> n < 0" using n x by blast
        then show ?thesis using k m True big by (simp add: window_ok_def)
      next
        case False
        then show ?thesis using k m members_window_ok [OF ok x] by auto
      qed
    qed (use ok in \<open>simp_all add: schema_ok_def cluster_ids_def\<close>)
    then show ?thesis
      using schema_members_only [OF ok] by simp
  qed
  then show "wp (set_member_window cid wid n) (\<lambda>_. schema_ok) (\<lambda>_. schema_ok) s"
    using ok by (simp add: wp_simps)
qed

lemma keeps_schema_upsert_member: "keeps schema_ok (upsert_member m)"
proof (rule keepsI)
  fix s :: "'z db_scheme"
  assume ok: "schema_ok s"
  let ?ms = "if \<exists>x \<in> set (cluster_members s). same_member x m
      then map (\<lambda>x. if same_member x m then m else x) (cluster_members s) else cluster_members s @ [m]"
  let ?t = "s\<lparr>cluster_members := ?ms\<rparr>"
  have "schema_ok ?t" if cid: "cm_cluster_id m \<in> cluster_ids s"
    and win: "case cm_layer_window m of None \<Rightarrow> True | Some n \<Rightarrow> 0 \<le> n \<and> sql_int n"
    and slot: "\<not> (\<exists>x \<in> set (cluster_members s). cm_cluster_id x = cm_cluster_id m
              \<and> cm_ring_position x = cm_ring_position m \<and> \<not> same_member x m)"
  proof -
    let ?ids = "\<lambda>m. (cm_cluster_id m, cm_worker_id m)"
    let ?pos = "\<lambda>m. (cm_cluster_id m, cm_ring_position m)"
    have d: "distinct (map ?ids (cluster_members s))" "distinct (map ?pos (cluster_members s))"
      using ok by (simp_all add: schema_ok_def members_ok_def)
    have ids: "distinct (map ?ids ?ms)"
    proof (cases "\<exists>x \<in> set (cluster_members s). same_member x m")
      case True
      have "map ?ids (map (\<lambda>x. if same_member x m then m else x) (cluster_members s)) = map ?ids (cluster_members s)"
        by (rule map_key_update) (simp add: same_member_def)
      with True d(1) show ?thesis by (simp del: map_map)
    next
      case False
      then have "?ids m \<notin> ?ids ` set (cluster_members s)" by (auto simp: same_member_def)
      then show ?thesis using False d(1) by auto
    qed
    have pos: "distinct (map ?pos ?ms)"
    proof (cases "\<exists>x \<in> set (cluster_members s). same_member x m")
      case True
      have one: "x = y" if "x \<in> set (cluster_members s)" "y \<in> set (cluster_members s)"
        "same_member x m" "same_member y m" for x y
        using distinct_key_eq [OF d(1) that(1,2)] that(3,4) by (simp add: same_member_def)
      have "x = y" if xy: "x \<in> set (cluster_members s)" "y \<in> set (cluster_members s)"
        and "?pos (if same_member x m then m else x) = ?pos (if same_member y m then m else y)" for x y
      proof (cases "same_member x m"; cases "same_member y m")
        assume "same_member x m" "same_member y m"
        then show ?thesis by (rule one [OF xy])
      next
        assume "\<not> same_member x m" "\<not> same_member y m"
        then show ?thesis using that distinct_key_eq [OF d(2) xy] by simp
      qed (use that slot in auto)
      then have "inj_on (?pos \<circ> (\<lambda>x. if same_member x m then m else x)) (set (cluster_members s))"
        by (intro inj_onI) simp
      moreover have "distinct (cluster_members s)" using d(1) by (simp add: distinct_map)
      ultimately show ?thesis using True by (simp add: distinct_map)
    next
      case False
      then have "?pos m \<notin> ?pos ` set (cluster_members s)" using slot by auto
      then show ?thesis using False d(2) by auto
    qed
    have "x = m \<or> x \<in> set (cluster_members s)" if "x \<in> set ?ms" for x
      using that by (auto split: if_splits)
    then have "members_ok ?t"
      using ids pos ok cid win unfolding members_ok_def schema_ok_def
      by (simp add: cluster_ids_def) blast
    then show ?thesis
      using schema_members_only [OF ok] by simp
  qed
  then show "wp (upsert_member m) (\<lambda>_. schema_ok) (\<lambda>_. schema_ok) s"
    using ok by (cases "cm_layer_window m") (simp_all add: wp_upsert_member)
qed

lemma keeps_schema_prune: "keeps schema_ok (puts (\<lambda>s. s\<lparr>cluster_members := filter P (cluster_members s)\<rparr>))"
  by (rule keeps_puts) (auto simp: schema_ok_def table_oks id_sets distinct_map_filter)

lemmas keeps_schema_cluster_ops = keeps_schema_insert_cluster keeps_schema_update_cluster_rows
  keeps_schema_update_members keeps_schema_set_member_window keeps_schema_upsert_member
  keeps_schema_prune

lemma keeps_schema_create_cluster: "keeps schema_ok (create_cluster c)"
  unfolding create_cluster_def save_cluster_members_def
  by (intro keeps_intros keeps_schema_cluster_ops)

lemma keeps_schema_update_cluster: "keeps schema_ok (update_cluster c)"
  unfolding update_cluster_def save_cluster_members_def
  by (intro keeps_intros keeps_schema_cluster_ops) (simp add: cluster_to_row_def)

lemma keeps_schema_evaluate_gate: "keeps schema_ok (evaluate_gate cid)"
  unfolding evaluate_gate_def by (intro keeps_intros keeps_schema_cluster_ops) simp

lemma keeps_schema_mark_member_ready: "keeps schema_ok (mark_member_ready cid wid)"
  unfolding mark_member_ready_def
  by (intro keeps_intros keeps_schema_cluster_ops keeps_schema_evaluate_gate) simp_all

lemma keeps_schema_set_cluster_distribution: "keeps schema_ok (set_cluster_distribution cid lw)"
  unfolding set_cluster_distribution_def
  by (intro keeps_intros keeps_schema_cluster_ops keeps_schema_evaluate_gate) simp_all

section \<open>Rings\<close>

definition ring :: "string \<Rightarrow> 'z db_scheme \<Rightarrow> member_row list" where
  "ring cid s = sort_key cm_ring_position (rows_of cid s)"

definition rows_ok :: "cluster_row \<Rightarrow> member_row list \<Rightarrow> bool" where
  "rows_ok r rows \<longleftrightarrow> rows \<noteq> [] \<and> map cm_ring_position rows = [0..<length rows] \<and>
     distinct (map cm_worker_id rows) \<and>
     (\<forall>m \<in> set rows. (\<exists>ip. cm_assigned_ip m = Some ip \<and> ip \<noteq> []) \<and>
        (\<forall>n. cm_layer_window m = Some n \<longrightarrow> cr_distribution_reported r \<and> window_ok n) \<and>
        (cr_status r = live \<longrightarrow> cm_ready m \<and> cr_distribution_reported r))"

definition ring_ok :: "'z db_scheme \<Rightarrow> bool" where
  "ring_ok s \<longleftrightarrow> (\<forall>r \<in> set (clusters s). rows_ok r (ring (cr_cluster_id r) s))"

definition store_ok :: "'z db_scheme \<Rightarrow> bool" where
  "store_ok s \<longleftrightarrow> schema_ok s \<and> ring_ok s"

lemma store_ok_eq: "store_ok = (\<lambda>s. schema_ok s \<and> ring_ok s)"
  by (simp add: fun_eq_iff store_ok_def)

lemma store_ok_schema: "store_ok s \<Longrightarrow> schema_ok s"
  by (simp add: store_ok_def)

lemma ring_ok_cong:
  "clusters t = clusters s \<Longrightarrow> cluster_members t = cluster_members s \<Longrightarrow> ring_ok t = ring_ok s"
  by (simp add: ring_ok_def ring_def rows_of_def)

lemma load_cluster_ring:
  "load_cluster_members cid s = map_option (\<lambda>r. hydrate r (ring cid s)) (cluster_row_of cid s)"
  by (simp add: load_cluster_members_def ring_def split: option.split)

lemma cluster_row_of_Some:
  "cluster_row_of cid s = Some r \<Longrightarrow> r \<in> set (clusters s) \<and> cr_cluster_id r = cid"
  by (auto simp: cluster_row_of_def dest: find_Some_in)

lemma cluster_row_of_eq:
  "clusters_ok s \<Longrightarrow> r \<in> set (clusters s) \<Longrightarrow> cluster_row_of (cr_cluster_id r) s = Some r"
  by (simp add: cluster_row_of_def clusters_ok_def find_eq_key)

lemma get_cluster_row:
  assumes "get_cluster cid s = Some c"
  obtains r where "r \<in> set (clusters s)" and "cr_cluster_id r = cid" and "cluster_row_of cid s = Some r"
    and "c = hydrate r (ring cid s)"
  using assms cluster_row_of_Some by (auto simp: get_cluster_def load_cluster_ring)

lemma get_cluster_of_row:
  "clusters_ok s \<Longrightarrow> r \<in> set (clusters s) \<Longrightarrow>
   get_cluster (cr_cluster_id r) s = Some (hydrate r (ring (cr_cluster_id r) s))"
  by (simp add: get_cluster_def load_cluster_ring cluster_row_of_eq)

text \<open>The junction rows of a good ring can be read off the hydrated record.\<close>

lemma map_of_map_filter:
  "distinct (map k rows) \<Longrightarrow> x \<in> set rows \<Longrightarrow>
   map_of (List.map_filter (\<lambda>m. case v m of None \<Rightarrow> None | Some y \<Rightarrow> Some (k m, y)) rows) (k x) = v x"
proof (induction rows)
  case (Cons m rows)
  have out: "map_of (List.map_filter (\<lambda>m. case v m of None \<Rightarrow> None | Some y \<Rightarrow> Some (k m, y)) ms) i = None"
    if "i \<notin> k ` set ms" for i ms
    using that by (induction ms) (auto simp: List.map_filter_simps split: option.split)
  show ?case
  proof (cases "x = m")
    case True
    then show ?thesis using Cons.prems out [of "k m" rows]
      by (simp add: List.map_filter_simps split: option.split)
  next
    case False
    then have "k x \<noteq> k m" and "x \<in> set rows" using Cons.prems by (auto simp: image_iff)
    then show ?thesis using Cons by (simp add: List.map_filter_simps split: option.split)
  qed
qed simp

lemma map_of_ips_of_rows:
  assumes "distinct (map cm_worker_id rows)" and "m \<in> set rows" and "cm_assigned_ip m = Some ip" and "ip \<noteq> []"
  shows "map_of (ips_of_rows rows) (cm_worker_id m) = Some ip"
proof -
  let ?v = "\<lambda>m. case cm_assigned_ip m of None \<Rightarrow> None | Some ip \<Rightarrow> if ip = [] then None else Some ip"
  have "ips_of_rows rows =
      List.map_filter (\<lambda>m. case ?v m of None \<Rightarrow> None | Some y \<Rightarrow> Some (cm_worker_id m, y)) rows"
    unfolding ips_of_rows_def by (rule map_filter_cong) (simp split: option.split)
  then show ?thesis using map_of_map_filter [OF assms(1,2), of ?v] assms(3,4) by simp
qed

lemma map_of_windows_of_rows:
  "distinct (map cm_worker_id rows) \<Longrightarrow> m \<in> set rows \<Longrightarrow>
   map_of (windows_of_rows rows) (cm_worker_id m) = cm_layer_window m"
  unfolding windows_of_rows_def by (rule map_of_map_filter)

lemma ready_member:
  "distinct (map cm_worker_id rows) \<Longrightarrow> m \<in> set rows \<Longrightarrow>
   cm_worker_id m \<in> set (map cm_worker_id (filter cm_ready rows)) \<longleftrightarrow> cm_ready m"
  by (auto simp: image_iff dest: distinct_key_eq)

lemma rows_of_hydrate:
  assumes "rows_ok r rows" and "\<And>m. m \<in> set rows \<Longrightarrow> cm_cluster_id m = cr_cluster_id r"
  shows "map (member_row_of (hydrate r rows)) (List.enumerate 0 (map cm_worker_id rows)) = rows"
proof (rule nth_equalityI)
  fix i
  assume "i < length (map (member_row_of (hydrate r rows)) (List.enumerate 0 (map cm_worker_id rows)))"
  then have i: "i < length rows" by simp
  let ?m = "rows ! i"
  have m: "?m \<in> set rows" using i by simp
  have d: "distinct (map cm_worker_id rows)" using assms(1) by (simp add: rows_ok_def)
  have "cm_ring_position ?m = i"
    using assms(1) i by (metis add_0 diff_zero length_map length_upt nth_map nth_upt rows_ok_def)
  moreover obtain ip where ip: "cm_assigned_ip ?m = Some ip" "ip \<noteq> []"
    using assms(1) m by (auto simp: rows_ok_def)
  moreover have "map_of (ips_of_rows rows) (cm_worker_id ?m) = Some ip"
    by (rule map_of_ips_of_rows [OF d m ip])
  moreover have "(if cr_distribution_reported r then map_of (windows_of_rows rows) (cm_worker_id ?m) else None) =
      cm_layer_window ?m"
    using assms(1) m map_of_windows_of_rows [OF d m] by (cases "cm_layer_window ?m") (auto simp: rows_ok_def)
  moreover have "cm_worker_id ?m \<in> set (map cm_worker_id (filter cm_ready rows)) \<longleftrightarrow> cm_ready ?m"
    by (rule ready_member [OF d m])
  ultimately show "map (member_row_of (hydrate r rows)) (List.enumerate 0 (map cm_worker_id rows)) ! i = rows ! i"
    using i assms(2) [OF m] by (simp add: nth_enumerate_eq member_row_of_def hydrate_def split: if_splits)
qed simp

lemma ring_cluster_id: "m \<in> set (ring cid s) \<Longrightarrow> cm_cluster_id m = cid"
  by (simp add: ring_def rows_of_def)

lemma ring_members: "set (ring cid s) = {m \<in> set (cluster_members s). cm_cluster_id m = cid}"
  by (auto simp: ring_def rows_of_def)

text \<open>Writing back a record that was read, with another status.\<close>

lemma upsert_same:
  assumes "members_ok s" and "m \<in> set (cluster_members s)"
    and "case cm_layer_window m of None \<Rightarrow> True | Some n \<Rightarrow> window_ok n"
  shows "wp (upsert_member m) Q E s = Q () s"
proof -
  have eq: "x = m" if "x \<in> set (cluster_members s)" "same_member x m" for x
    using that assms(1,2) distinct_key_eq [of "\<lambda>m. (cm_cluster_id m, cm_worker_id m)" "cluster_members s" x m]
    by (simp add: members_ok_def same_member_def)
  have slot: "x = m" if "x \<in> set (cluster_members s)" "cm_cluster_id x = cm_cluster_id m"
    "cm_ring_position x = cm_ring_position m" for x
    using that assms(1,2) distinct_key_eq [of "\<lambda>m. (cm_cluster_id m, cm_ring_position m)" "cluster_members s" x m]
    by (simp add: members_ok_def)
  have "same_member m m" by (simp add: same_member_def)
  moreover have "map (\<lambda>x. if same_member x m then m else x) (cluster_members s) = cluster_members s"
    by (rule map_update_same) (metis eq)
  moreover have "cm_cluster_id m \<in> cluster_ids s" using assms(1,2) by (simp add: members_ok_def)
  moreover have "\<not> (\<exists>x \<in> set (cluster_members s). cm_cluster_id x = cm_cluster_id m \<and>
      cm_ring_position x = cm_ring_position m \<and> \<not> same_member x m)"
    using slot \<open>same_member m m\<close> by blast
  ultimately show ?thesis
    using assms(2,3) by (auto simp: wp_upsert_member window_ok_def split: option.splits)
qed

lemma upsert_all_same:
  assumes "members_ok s" and "set ms \<subseteq> set (cluster_members s)"
    and "\<And>m n. m \<in> set ms \<Longrightarrow> cm_layer_window m = Some n \<Longrightarrow> window_ok n"
  shows "wp (for_each upsert_member ms) Q E s = Q () s"
  using assms(2,3)
proof (induction ms)
  case (Cons m ms)
  have "case cm_layer_window m of None \<Rightarrow> True | Some n \<Rightarrow> window_ok n"
    using Cons.prems(2) [of m] by (simp split: option.split)
  then have "wp (upsert_member m) (\<lambda>_. wp (for_each upsert_member ms) Q E) E s =
      wp (for_each upsert_member ms) Q E s"
    using Cons.prems(1) by (intro upsert_same [OF assms(1)]) simp_all
  moreover have "wp (for_each upsert_member ms) Q E s = Q () s"
    by (rule Cons.IH) (use Cons.prems in auto)
  ultimately show ?case by (simp add: wp_seqa)
qed (simp add: wp_simps)

lemma for_each_map: "for_each f (map g xs) = for_each (\<lambda>x. f (g x)) xs"
  by (induction xs) simp_all

lemma row_of_status: "member_row_of (c\<lparr>c_status := st\<rparr>) = member_row_of c"
  by (simp add: member_row_of_def fun_eq_iff)

lemma update_cluster_wp:
  assumes "store_ok s" and "get_cluster cid s = Some c"
  shows "wp (update_cluster (c\<lparr>c_status := st\<rparr>)) Q E s = Q () (s\<lparr>clusters :=
     map (\<lambda>r. if cr_cluster_id r = cid then r\<lparr>cr_status := st\<rparr> else r) (clusters s)\<rparr>)"
proof -
  obtain r where r: "r \<in> set (clusters s)" "cr_cluster_id r = cid" and c: "c = hydrate r (ring cid s)"
    using assms(2) by (rule get_cluster_row)
  have ok: "rows_ok r (ring cid s)" and cok: "clusters_ok s" and mok: "members_ok s"
    using assms(1) r by (auto simp: store_ok_def ring_ok_def schema_ok_def)
  let ?s1 = "s\<lparr>clusters := map (\<lambda>r. if cr_cluster_id r = cid then r\<lparr>cr_status := st\<rparr> else r) (clusters s)\<rparr>"
  have id: "c_cluster_id c = cid" and members: "c_members c = map cm_worker_id (ring cid s)"
    using r(2) c by (simp_all add: hydrate_def)
  have row: "cluster_to_row (c\<lparr>c_status := st\<rparr>) = r\<lparr>cr_status := st\<rparr>"
    using c by (simp add: cluster_to_row_def hydrate_def)
  have only: "x = r" if "x \<in> set (clusters s)" "cr_cluster_id x = cid" for x
    using that r cok distinct_key_eq [of cr_cluster_id "clusters s" x r] by (simp add: clusters_ok_def)
  have rows: "map (\<lambda>x. if cr_cluster_id x = cid then cluster_to_row (c\<lparr>c_status := st\<rparr>) else x) (clusters s) =
      map (\<lambda>x. if cr_cluster_id x = cid then x\<lparr>cr_status := st\<rparr> else x) (clusters s)"
    by (rule map_cong [OF refl]) (use only row in auto)
  have ms: "map (member_row_of c) (List.enumerate 0 (c_members c)) = ring cid s"
    using rows_of_hydrate [OF ok] ring_cluster_id r(2) c members by fastforce
  have "members_ok ?s1"
    using mok ids_update [of "\<lambda>r. cr_cluster_id r = cid" cr_cluster_id "\<lambda>r. r\<lparr>cr_status := st\<rparr>" "clusters s"]
    by (simp add: members_ok_def cluster_ids_def)
  then have "wp (for_each upsert_member (ring cid s)) Q' E' ?s1 = Q' () ?s1" for Q' E'
    by (rule upsert_all_same) (use ok in \<open>auto simp: ring_members rows_ok_def\<close>)
  then have up: "wp (for_each (\<lambda>p. upsert_member (member_row_of c p)) (List.enumerate 0 (c_members c))) Q' E' ?s1 =
      Q' () ?s1" for Q' E'
    by (simp only: for_each_map [symmetric] ms)
  have "filter (\<lambda>m. \<not> (cm_cluster_id m = cid \<and> cm_worker_id m \<notin> set (c_members c))) (cluster_members s) =
      cluster_members s"
    by (auto simp: filter_id_conv members ring_members)
  then have "?s1\<lparr>cluster_members := filter (\<lambda>m. \<not> (cm_cluster_id m = cid \<and>
      cm_worker_id m \<notin> set (c_members c))) (cluster_members ?s1)\<rparr> = ?s1"
    by simp
  then show ?thesis
    using up by (simp add: update_cluster_def save_cluster_members_def wp_simps id row_of_status rows)
qed

section \<open>The operations keep the rings\<close>

lemma ring_rows_distinct: "rows_ok r rows \<Longrightarrow> distinct (map cm_worker_id rows)"
  by (simp add: rows_ok_def)

lemma ring_map:
  assumes "\<And>m. cm_cluster_id (f m) = cm_cluster_id m" and "\<And>m. cm_ring_position (f m) = cm_ring_position m"
  shows "ring cid (s\<lparr>cluster_members := map f (cluster_members s)\<rparr>) = map f (ring cid s)"
  using assms by (simp add: ring_def rows_of_def filter_map_key sort_key_map)

lemma ring_clusters [simp]: "ring cid (s\<lparr>clusters := cs\<rparr>) = ring cid s"
  by (simp add: ring_def rows_of_def)

lemma rows_ok_map:
  assumes "rows_ok r rows" and "map cm_ring_position (map f rows) = map cm_ring_position rows"
    and "map cm_worker_id (map f rows) = map cm_worker_id rows"
    and "\<And>m. m \<in> set rows \<Longrightarrow> cm_assigned_ip (f m) = cm_assigned_ip m"
    and "\<And>m n. m \<in> set rows \<Longrightarrow> cm_layer_window (f m) = Some n \<Longrightarrow> cr_distribution_reported r' \<and> window_ok n"
    and "\<And>m. m \<in> set rows \<Longrightarrow> cr_status r' = live \<Longrightarrow> cm_ready (f m) \<and> cr_distribution_reported r'"
  shows "rows_ok r' (map f rows)"
proof -
  have "distinct (map cm_worker_id (map f rows))" unfolding assms(3) using assms(1) by (simp add: rows_ok_def)
  moreover have "map cm_ring_position (map f rows) = [0..<length (map f rows)]"
    unfolding assms(2) using assms(1) by (simp add: rows_ok_def)
  ultimately show ?thesis using assms(1,4-6) by (auto simp: rows_ok_def simp del: map_map)
qed

lemma keeps_ring_update_ready:
  "keeps ring_ok (update_members P (\<lambda>m. m\<lparr>cm_ready := True\<rparr>))"
proof (rule keepsI)
  fix s :: "'z db_scheme"
  assume ok: "ring_ok s"
  let ?f = "\<lambda>m. if P m then m\<lparr>cm_ready := True\<rparr> else m"
  have "rows_ok r (map ?f (ring (cr_cluster_id r) s))" if r: "r \<in> set (clusters s)" for r
  proof (rule rows_ok_map [of r])
    show rok: "rows_ok r (ring (cr_cluster_id r) s)" using ok r by (simp add: ring_ok_def)
    show "cr_distribution_reported r \<and> window_ok n"
      if "m \<in> set (ring (cr_cluster_id r) s)" "cm_layer_window (?f m) = Some n" for m n
      using that rok by (auto simp: rows_ok_def split: if_splits)
    show "cm_ready (?f m) \<and> cr_distribution_reported r"
      if "m \<in> set (ring (cr_cluster_id r) s)" "cr_status r = live" for m
      using that rok by (auto simp: rows_ok_def)
  qed simp_all
  then show "wp (update_members P (\<lambda>m. m\<lparr>cm_ready := True\<rparr>)) (\<lambda>_. ring_ok) (\<lambda>_. ring_ok) s"
    by (simp add: wp_simps ring_ok_def ring_map)
qed

lemma keeps_store_evaluate_gate: "keeps store_ok (evaluate_gate cid)"
proof (rule keepsI)
  fix s :: "'z db_scheme"
  assume ok: "store_ok s"
  show "wp (evaluate_gate cid) (\<lambda>_. store_ok) (\<lambda>_. store_ok) s"
  proof (cases "cluster_row_of cid s")
    case None
    then show ?thesis using ok by (simp add: evaluate_gate_def wp_simps load_cluster_ring)
  next
    case (Some r)
    let ?c = "hydrate r (ring cid s)"
    let ?t = "s\<lparr>clusters := map (\<lambda>r. if cr_cluster_id r = cid then r\<lparr>cr_status := live\<rparr> else r) (clusters s)\<rparr>"
    have r: "r \<in> set (clusters s)" "cr_cluster_id r = cid" using cluster_row_of_Some [OF Some] by simp_all
    have "ring_ok ?t" if gate: "gate_open ?c"
    proof -
      have rok: "rows_ok r (ring cid s)" using ok r by (auto simp: store_ok_def ring_ok_def)
      let ?ready = "set (map cm_worker_id (filter cm_ready (ring cid s)))"
      have "?ready \<subseteq> set (map cm_worker_id (ring cid s))" by auto
      moreover have "card ?ready \<ge> card (set (map cm_worker_id (ring cid s)))"
        using gate ring_rows_distinct [OF rok] by (simp only: distinct_card) (simp add: gate_open_def hydrate_def)
      ultimately have all: "?ready = set (map cm_worker_id (ring cid s))"
        by (meson List.finite_set card_seteq)
      have ready: "cm_ready m" if "m \<in> set (ring cid s)" for m
        using all that ready_member [OF ring_rows_distinct [OF rok] that] by simp
      have rep: "cr_distribution_reported r" using gate by (auto simp: gate_open_def hydrate_def split: if_splits)
      have only: "x = r" if "x \<in> set (clusters s)" "cr_cluster_id x = cid" for x
        using that r ok distinct_key_eq [of cr_cluster_id "clusters s" x r]
        by (simp add: store_ok_def schema_ok_def clusters_ok_def)
      have "rows_ok (r\<lparr>cr_status := live\<rparr>) (ring cid s)"
        using rok ready rep by (auto simp: rows_ok_def)
      then show ?thesis using ok only by (auto simp: store_ok_def ring_ok_def)
    qed
    moreover have "schema_ok ?t"
      using keeps_wpD [OF keeps_schema_update_cluster_rows [of cid "\<lambda>r. r\<lparr>cr_status := live\<rparr>"], of s] ok
      by (simp add: store_ok_def wp_simps)
    ultimately show ?thesis
      using ok Some by (simp add: evaluate_gate_def wp_simps load_cluster_ring store_ok_def)
  qed
qed

lemma keeps_store_update_ready:
  "keeps store_ok (update_members P (\<lambda>m. m\<lparr>cm_ready := True\<rparr>))"
  unfolding store_ok_eq
  by (rule keeps_conj [OF keeps_schema_update_members keeps_ring_update_ready]) simp_all

lemma keeps_store_mark_member_ready: "keeps store_ok (mark_member_ready cid wid)"
  unfolding mark_member_ready_def
  by (intro keeps_intros keeps_store_update_ready keeps_store_evaluate_gate)

text \<open>While a report is recorded, the cluster's reported flag is already set.\<close>

definition reporting :: "string \<Rightarrow> 'z db_scheme \<Rightarrow> bool" where
  "reporting cid s \<longleftrightarrow> store_ok s \<and>
     (\<forall>r \<in> set (clusters s). cr_cluster_id r = cid \<longrightarrow> cr_distribution_reported r)"

lemma keeps_reporting_update_members:
  assumes "\<And>m. cm_cluster_id (f m) = cm_cluster_id m" and "\<And>m. cm_worker_id (f m) = cm_worker_id m"
    and "\<And>m. cm_ring_position (f m) = cm_ring_position m" and "\<And>m. cm_assigned_ip (f m) = cm_assigned_ip m"
    and "\<And>m. cm_ready (f m) = cm_ready m" and "\<And>m. P m \<Longrightarrow> cm_cluster_id m = cid"
    and "\<And>m n. cm_layer_window (f m) = Some n \<Longrightarrow> window_ok n"
    and "keeps (schema_ok :: 'z db_scheme \<Rightarrow> bool) (update_members P f)"
  shows "keeps (reporting cid :: 'z db_scheme \<Rightarrow> bool) (update_members P f)"
proof (rule keepsI)
  fix s :: "'z db_scheme"
  assume ok: "reporting cid s"
  let ?f = "\<lambda>m. if P m then f m else m"
  let ?t = "s\<lparr>cluster_members := map ?f (cluster_members s)\<rparr>"
  have "rows_ok r (map ?f (ring (cr_cluster_id r) s))" if r: "r \<in> set (clusters s)" for r
  proof (rule rows_ok_map [of r])
    show rok: "rows_ok r (ring (cr_cluster_id r) s)" using ok r by (simp add: reporting_def store_ok_def ring_ok_def)
    show "cr_distribution_reported r \<and> window_ok n"
      if m: "m \<in> set (ring (cr_cluster_id r) s)" and n: "cm_layer_window (?f m) = Some n" for m n
    proof (cases "P m")
      case True
      then have "cr_cluster_id r = cid" using m ring_cluster_id assms(6) by metis
      then show ?thesis using True n ok r assms(7) [of m n] by (simp add: reporting_def)
    next
      case False
      then show ?thesis using n m rok by (simp add: rows_ok_def)
    qed
    show "cm_ready (?f m) \<and> cr_distribution_reported r"
      if "m \<in> set (ring (cr_cluster_id r) s)" "cr_status r = live" for m
      using that rok assms(5) by (simp add: rows_ok_def)
  qed (use assms in auto)
  then have "ring_ok ?t" using assms by (simp add: ring_ok_def ring_map)
  moreover have "schema_ok ?t"
    using keeps_wpD [OF assms(8), of s] ok by (simp add: reporting_def store_ok_def wp_simps)
  ultimately show "wp (update_members P f) (\<lambda>_. reporting cid) (\<lambda>_. reporting cid) s"
    using ok by (simp add: wp_simps reporting_def store_ok_def)
qed

lemma keeps_schema_clear: "keeps schema_ok (update_members P (\<lambda>m. m\<lparr>cm_layer_window := None\<rparr>))"
  by (rule keeps_schema_update_members) simp_all

lemma keeps_reporting_window:
  assumes "0 \<le> n"
  shows "keeps (reporting cid) (set_member_window cid wid n)"
proof (cases "sql_int n")
  case True
  have "set_member_window cid wid n = update_members (\<lambda>m. cm_cluster_id m = cid \<and> cm_worker_id m = wid)
      (\<lambda>m. m\<lparr>cm_layer_window := Some n\<rparr>)"
    using True assms by (simp add: set_member_window_def update_members_def puts_def fun_eq_iff)
  then have eq: "set_member_window cid wid n = update_members (\<lambda>m. cm_cluster_id m = cid \<and> cm_worker_id m = wid)
      (\<lambda>m. m\<lparr>cm_layer_window := Some n\<rparr>)" .
  show ?thesis unfolding eq
    by (rule keeps_reporting_update_members)
      (use True assms keeps_schema_set_member_window [of cid wid n, unfolded eq] in \<open>simp_all add: window_ok_def\<close>)
next
  case False
  then show ?thesis by (intro keepsI) (simp add: wp_simps)
qed

lemma reporting_start:
  "store_ok s \<Longrightarrow> reporting cid (s\<lparr>clusters := map (\<lambda>r. if cr_cluster_id r = cid
      then r\<lparr>cr_distribution_reported := True\<rparr> else r) (clusters s)\<rparr>)"
proof -
  assume ok: "store_ok s"
  let ?t = "s\<lparr>clusters := map (\<lambda>r. if cr_cluster_id r = cid
      then r\<lparr>cr_distribution_reported := True\<rparr> else r) (clusters s)\<rparr>"
  have "schema_ok ?t"
    using keeps_wpD [OF keeps_schema_update_cluster_rows [of cid "\<lambda>r. r\<lparr>cr_distribution_reported := True\<rparr>"], of s] ok
    by (simp add: store_ok_def wp_simps)
  moreover have "rows_ok (r\<lparr>cr_distribution_reported := True\<rparr>) rows" if "rows_ok r rows" for r rows
    using that by (simp add: rows_ok_def)
  moreover have "rows_ok x (ring (cr_cluster_id x) s)" if "x \<in> set (clusters s)" for x
    using that ok by (simp add: store_ok_def ring_ok_def)
  ultimately have "ring_ok ?t" by (fastforce simp: ring_ok_def)
  moreover have "\<forall>r \<in> set (map (\<lambda>r. if cr_cluster_id r = cid
      then r\<lparr>cr_distribution_reported := True\<rparr> else r) (clusters s)). cr_cluster_id r = cid \<longrightarrow> cr_distribution_reported r"
    unfolding set_map ball_simps by simp
  ultimately show ?thesis using \<open>schema_ok ?t\<close> by (simp add: reporting_def store_ok_def del: set_map)
qed

lemma keeps_store_set_cluster_distribution:
  assumes "\<And>wid n. (wid, n) \<in> set lw \<Longrightarrow> 0 \<le> n"
  shows "keeps (store_ok :: 'z db_scheme \<Rightarrow> bool) (set_cluster_distribution cid (Some lw))"
proof -
  have loop: "keeps (reporting cid :: 'z db_scheme \<Rightarrow> bool) (for_each (\<lambda>(wid, count). set_member_window cid wid count) lw)"
    by (rule keeps_for_each_in) (auto intro: keeps_reporting_window assms)
  have clear: "keeps (reporting cid :: 'z db_scheme \<Rightarrow> bool) (update_members (\<lambda>m. cm_cluster_id m = cid \<and> cm_layer_window m \<noteq> None
      \<and> cm_worker_id m \<notin> set (map fst lw)) (\<lambda>m. m\<lparr>cm_layer_window := None\<rparr>))"
    by (rule keeps_reporting_update_members) (simp_all add: keeps_schema_clear)
  have body: "keeps (store_ok :: 'z db_scheme \<Rightarrow> bool) (seqa (update_cluster_rows cid (\<lambda>r. r\<lparr>cr_distribution_reported := True\<rparr>))
      (seqa (for_each (\<lambda>(wid, count). set_member_window cid wid count) lw)
        (update_members (\<lambda>m. cm_cluster_id m = cid \<and> cm_layer_window m \<noteq> None
             \<and> cm_worker_id m \<notin> set (map fst lw)) (\<lambda>m. m\<lparr>cm_layer_window := None\<rparr>))))"
  proof (rule keepsI)
    fix s :: "'z db_scheme"
    assume "store_ok s"
    from keeps_wpD [OF keeps_seqa [OF loop clear] reporting_start [OF this, of cid]]
    show "wp (seqa (update_cluster_rows cid (\<lambda>r. r\<lparr>cr_distribution_reported := True\<rparr>))
      (seqa (for_each (\<lambda>(wid, count). set_member_window cid wid count) lw)
        (update_members (\<lambda>m. cm_cluster_id m = cid \<and> cm_layer_window m \<noteq> None
             \<and> cm_worker_id m \<notin> set (map fst lw)) (\<lambda>m. m\<lparr>cm_layer_window := None\<rparr>)))) (\<lambda>_. store_ok) (\<lambda>_. store_ok) s"
      unfolding wp_seqa [of "update_cluster_rows cid _"] wp_update_cluster_rows
      by (rule wp_conseq) (simp_all add: reporting_def)
  qed
  show ?thesis
    unfolding set_cluster_distribution_def option.case
    by (intro keeps_atomic keeps_bnd keeps_gets keeps_case_option keeps_if keeps_ret
        keeps_seqa [OF body keeps_store_evaluate_gate])
qed

end
