(* ===== verification/Pool_Lifecycle.thy ===== *)
theory Pool_Lifecycle
  imports Pool_Rings
begin

text \<open>
  How clusters change over time. \<open>evolves\<close> relates two states of the store through what a reader
  sees of each cluster: a cluster never changes its model, subnet, ring, addresses or creation
  time, its status only moves forward, readiness and the reported flag are never taken back, and a
  terminated cluster is frozen. The operations that reports, dissolution and formation use are
  shown to respect it, to keep the rings, and to keep the subnets of the active clusters apart.
\<close>

definition evolve_rec :: "cluster_rec \<Rightarrow> cluster_rec \<Rightarrow> bool" where
  "evolve_rec c d \<longleftrightarrow> c_cluster_id d = c_cluster_id c \<and> c_model d = c_model c \<and> c_subnet d = c_subnet c \<and>
     c_members d = c_members c \<and> c_ips d = c_ips c \<and> c_created_at d = c_created_at c \<and>
     c_ready c \<subseteq> c_ready d \<and> (c_layer_windows c \<noteq> None \<longrightarrow> c_layer_windows d \<noteq> None) \<and>
     c_status c \<le> c_status d \<and> (c_status c = terminated \<longrightarrow> d = c)"

definition evolves :: "'z db_scheme \<Rightarrow> 'z db_scheme \<Rightarrow> bool" where
  "evolves s t \<longleftrightarrow> (\<forall>cid. rel_option evolve_rec (get_cluster cid s) (get_cluster cid t))"

text \<open>Since \<open>s0\<close>: every cluster of \<open>s0\<close> is still there, evolved.\<close>

definition since :: "'z db_scheme \<Rightarrow> 'z db_scheme \<Rightarrow> bool" where
  "since s0 s \<longleftrightarrow> (\<forall>cid c. get_cluster cid s0 = Some c \<longrightarrow> (\<exists>d. get_cluster cid s = Some d \<and> evolve_rec c d))"

definition active :: "string \<Rightarrow> 'z db_scheme \<Rightarrow> bool" where
  "active cid s \<longleftrightarrow> (\<exists>c. get_cluster cid s = Some c \<and> c_status c \<noteq> terminated)"

definition subnets_ok :: "'z db_scheme \<Rightarrow> bool" where
  "subnets_ok s \<longleftrightarrow> (\<forall>i j c d. get_cluster i s = Some c \<and> get_cluster j s = Some d \<and>
     c_status c \<noteq> terminated \<and> c_status d \<noteq> terminated \<and> c_subnet c = c_subnet d \<longrightarrow> i = j)"

lemma evolve_rec_refl [simp]: "evolve_rec c c"
  by (simp add: evolve_rec_def)

lemma evolve_rec_trans: "evolve_rec c d \<Longrightarrow> evolve_rec d e \<Longrightarrow> evolve_rec c e"
  unfolding evolve_rec_def by auto

lemma evolve_rec_active: "evolve_rec c d \<Longrightarrow> c_status d \<noteq> terminated \<Longrightarrow> c_status c \<noteq> terminated"
  by (auto simp: evolve_rec_def)

lemma evolves_Some:
  "evolves s t \<Longrightarrow> get_cluster cid s = Some c \<Longrightarrow> \<exists>d. get_cluster cid t = Some d \<and> evolve_rec c d"
  by (metis evolves_def rel_option_inf option.rel_cases option.sel option.simps(3))

lemma evolves_back:
  "evolves s t \<Longrightarrow> get_cluster cid t = Some d \<Longrightarrow> \<exists>c. get_cluster cid s = Some c \<and> evolve_rec c d"
  by (metis evolves_def option.rel_cases option.sel option.simps(3))

lemma evolves_same: "(\<And>cid. get_cluster cid t = get_cluster cid s) \<Longrightarrow> evolves s t"
  by (simp add: evolves_def option.rel_refl)

lemma evolves_one:
  assumes "same_clusters_but cid s t" and "rel_option evolve_rec (get_cluster cid s) (get_cluster cid t)"
  shows "evolves s t"
  unfolding evolves_def
proof
  fix x
  show "rel_option evolve_rec (get_cluster x s) (get_cluster x t)"
    using assms by (cases "x = cid") (simp_all add: same_clusters_but_def get_cluster_def option.rel_refl)
qed

lemma since_refl: "since s s"
  by (simp add: since_def)

lemma since_evolves: "since s0 s \<Longrightarrow> evolves s t \<Longrightarrow> since s0 t"
  unfolding since_def by (meson evolve_rec_trans evolves_Some)

lemma subnets_evolves: "subnets_ok s \<Longrightarrow> evolves s t \<Longrightarrow> subnets_ok t"
proof -
  assume ok: "subnets_ok s" and ev: "evolves s t"
  have "i = j" if ij: "get_cluster i t = Some c" "get_cluster j t = Some d" "c_status c \<noteq> terminated"
    "c_status d \<noteq> terminated" "c_subnet c = c_subnet d" for i j c d
  proof -
    obtain c0 where c0: "get_cluster i s = Some c0" "evolve_rec c0 c" using evolves_back [OF ev ij(1)] by blast
    obtain d0 where d0: "get_cluster j s = Some d0" "evolve_rec d0 d" using evolves_back [OF ev ij(2)] by blast
    have "c_subnet c0 = c_subnet d0" using c0 d0 ij(5) by (simp add: evolve_rec_def)
    then show ?thesis
      using ok c0 d0 evolve_rec_active [OF c0(2) ij(3)] evolve_rec_active [OF d0(2) ij(4)]
      by (simp add: subnets_ok_def)
  qed
  then show ?thesis by (simp add: subnets_ok_def)
qed

section \<open>Reports\<close>

lemma evolve_go_live: "c_status c \<noteq> terminated \<Longrightarrow> evolve_rec c d \<Longrightarrow> c_status d = c_status c \<Longrightarrow> evolve_rec c (go_live d)"
  by (auto simp: go_live_def evolve_rec_def)

lemma evolve_ready_spec: "evolve_rec c (ready_spec wid c)"
  by (cases "c_status c = terminated")
    (auto simp: ready_spec_def intro!: evolve_go_live, auto simp: evolve_rec_def)

lemma evolve_distribution_spec: "evolve_rec c (distribution_spec (Some d) c)"
  by (cases "c_status c = terminated")
    (auto simp: distribution_spec_def intro!: evolve_go_live, auto simp: evolve_rec_def)

lemma mark_member_ready_evolves: "wp (mark_member_ready cid wid) (\<lambda>_. evolves s) (\<lambda>_. evolves s) s"
proof (rule wp_conseq [OF mark_member_ready_wp])
  fix r t
  assume *: "r = map_option (ready_spec wid) (get_cluster cid s) \<and> get_cluster cid t = r \<and> same_clusters_but cid s t"
  then have "rel_option evolve_rec (get_cluster cid s) (get_cluster cid t)"
    by (cases "get_cluster cid s") (auto simp: evolve_ready_spec)
  with * show "evolves s t" using evolves_one by blast
qed simp

text \<open>A count that SQLite cannot hold makes the whole report fail and leaves the store alone.\<close>

lemma windows_overflow:
  fixes s :: "'z db_scheme"
  assumes "\<And>wid n. (wid, n) \<in> set lw \<Longrightarrow> 0 \<le> n" and "\<exists>(wid, n) \<in> set lw. \<not> sql_int n"
  shows "wp (for_each (\<lambda>(wid, n). set_member_window cid wid n) lw) (\<lambda>_ _. False) (\<lambda>e _. e = OverflowError) s"
  using assms
proof (induction lw arbitrary: s)
  case (Cons p lw)
  obtain wid n where p: "p = (wid, n)" by fastforce
  then have n: "\<not> n < 0" using Cons.prems(1) by fastforce
  show ?case
  proof (cases "sql_int n")
    case True
    have "wp (for_each (\<lambda>(wid, n). set_member_window cid wid n) lw) (\<lambda>_ _. False) (\<lambda>e _. e = OverflowError) t" for t :: "'z db_scheme"
      by (rule Cons.IH) (use Cons.prems p True in auto)
    then show ?thesis using True n by (simp add: p wp_simps)
  next
    case False
    then show ?thesis by (simp add: p wp_simps)
  qed
qed simp

lemma set_cluster_distribution_overflow:
  assumes "\<And>wid n. (wid, n) \<in> set lw \<Longrightarrow> 0 \<le> n" and "\<exists>(wid, n) \<in> set lw. \<not> sql_int n"
    and "get_cluster cid s = Some c" and "c_status c \<noteq> terminated"
  shows "wp (set_cluster_distribution cid (Some lw)) (\<lambda>_ _. False) (\<lambda>e t. e = OverflowError \<and> t = s) s"
proof -
  have "wp (for_each (\<lambda>(wid, n). set_member_window cid wid n) lw) Q (\<lambda>e _. e = OverflowError) t" for Q t
  proof -
    have "wp (for_each (\<lambda>(wid, n). set_member_window cid wid n) lw) (\<lambda>_ _. False) (\<lambda>e _. e = OverflowError) t"
      by (rule windows_overflow) (use assms(1,2) in auto)
    then show ?thesis by (rule wp_conseq) auto
  qed
  then show ?thesis
    using assms(3,4) by (simp add: set_cluster_distribution_def wp_simps get_cluster_def)
qed

definition report_ok :: "int dict \<Rightarrow> bool" where
  "report_ok lw \<longleftrightarrow> distinct (map fst lw) \<and> list_all (\<lambda>(wid, n). 0 \<le> n) lw"

lemma set_cluster_distribution_evolves:
  assumes "report_ok lw"
  shows "wp (set_cluster_distribution cid (Some lw)) (\<lambda>_. evolves s) (\<lambda>_. evolves s) s"
proof (cases "windows_valid lw")
  case True
  then have v: "case Some lw of None \<Rightarrow> True | Some d \<Rightarrow> windows_valid d" by simp
  show ?thesis
  proof (rule wp_conseq [OF set_cluster_distribution_wp [OF v]])
    fix r t
    assume *: "r = map_option (distribution_spec (Some lw)) (get_cluster cid s) \<and> get_cluster cid t = r \<and>
      same_clusters_but cid s t"
    then have "rel_option evolve_rec (get_cluster cid s) (get_cluster cid t)"
      by (cases "get_cluster cid s") (auto simp: evolve_distribution_spec)
    with * show "evolves s t" using evolves_one by blast
  qed simp
next
  case False
  then have big: "\<exists>(wid, n) \<in> set lw. \<not> sql_int n" and pos: "\<And>wid n. (wid, n) \<in> set lw \<Longrightarrow> 0 \<le> n"
    using assms by (auto simp: report_ok_def windows_valid_def window_ok_def list_all_iff)
  show ?thesis
  proof (cases "\<exists>c. get_cluster cid s = Some c \<and> c_status c \<noteq> terminated")
    case True
    then obtain c where c: "get_cluster cid s = Some c" "c_status c \<noteq> terminated" by blast
    show ?thesis
      by (rule wp_conseq [OF set_cluster_distribution_overflow [OF pos big c]]) (auto intro: evolves_same)
  next
    case False
    then show ?thesis
      by (auto simp: set_cluster_distribution_def wp_simps get_cluster_def intro: evolves_same split: option.split)
  qed
qed

section \<open>Dissolution: the record that was read is written back as terminated\<close>

lemma update_cluster_status_get:
  assumes "get_cluster cid s = Some c"
  shows "get_cluster x (s\<lparr>clusters := map (\<lambda>r. if cr_cluster_id r = cid then r\<lparr>cr_status := st\<rparr> else r) (clusters s)\<rparr>) =
    (if x = cid then Some (c\<lparr>c_status := st\<rparr>) else get_cluster x s)"
proof -
  obtain r where r: "cluster_row_of cid s = Some r" and c: "c = hydrate r (sort_key cm_ring_position (rows_of cid s))"
    using assms by (auto simp: get_cluster_def load_cluster_members_def split: option.splits)
  show ?thesis
    using load_cluster_update_rows [of "\<lambda>r. r\<lparr>cr_status := st\<rparr>" x cid s] r c
    by (auto simp: get_cluster_def hydrate_status load_cluster_members_def split: option.splits)
qed

lemma keeps_schema_status:
  "schema_ok s \<Longrightarrow> schema_ok (s\<lparr>clusters := map (\<lambda>r. if cr_cluster_id r = cid then r\<lparr>cr_status := st\<rparr> else r) (clusters s)\<rparr>)"
  using keeps_wpD [OF keeps_schema_update_cluster_rows [of cid "\<lambda>r. r\<lparr>cr_status := st\<rparr>"], of s]
  by (simp add: wp_simps)

lemma store_ok_terminate:
  assumes "store_ok s"
  shows "store_ok (s\<lparr>clusters := map (\<lambda>r. if cr_cluster_id r = cid then r\<lparr>cr_status := terminated\<rparr> else r) (clusters s)\<rparr>)"
proof -
  have "rows_ok (r\<lparr>cr_status := terminated\<rparr>) rows" if "rows_ok r rows" for r rows
    using that by (simp add: rows_ok_def)
  then have "\<forall>r \<in> set (map (\<lambda>r. if cr_cluster_id r = cid then r\<lparr>cr_status := terminated\<rparr> else r) (clusters s)).
      rows_ok r (ring (cr_cluster_id r) s)"
    unfolding set_map ball_simps using assms by (auto simp: store_ok_def ring_ok_def)
  then show ?thesis using assms keeps_schema_status [of s cid terminated]
    by (simp add: store_ok_def ring_ok_def del: set_map)
qed

lemma terminate_cluster_wp:
  assumes "store_ok s" and "get_cluster cid s = Some c"
  shows "wp (update_cluster (c\<lparr>c_status := terminated\<rparr>))
     (\<lambda>_ t. store_ok t \<and> evolves s t \<and> get_cluster cid t = Some (c\<lparr>c_status := terminated\<rparr>)
        \<and> same_clusters_but cid s t \<and> (\<exists>cs. t = s\<lparr>clusters := cs\<rparr>))
     (\<lambda>_ _. False) s"
proof -
  let ?t = "s\<lparr>clusters := map (\<lambda>r. if cr_cluster_id r = cid then r\<lparr>cr_status := terminated\<rparr> else r) (clusters s)\<rparr>"
  have get: "get_cluster x ?t = (if x = cid then Some (c\<lparr>c_status := terminated\<rparr>) else get_cluster x s)" for x
    by (rule update_cluster_status_get [OF assms(2)])
  have "evolve_rec c (c\<lparr>c_status := terminated\<rparr>)" by (auto simp: evolve_rec_def)
  then have "evolves s ?t" using get assms(2) by (intro evolves_one [of cid]) (simp_all add: same_clusters_but_def get_cluster_def)
  moreover have "\<exists>cs. ?t = s\<lparr>clusters := cs\<rparr>" by (rule exI) (rule refl)
  ultimately show ?thesis
    using get store_ok_terminate [OF assms(1)] update_cluster_wp [OF assms]
    by (simp add: same_clusters_but_def get_cluster_def)
qed

section \<open>Formation: a new cluster\<close>

definition new_cluster_ok :: "cluster_rec \<Rightarrow> bool" where
  "new_cluster_ok c \<longleftrightarrow> c_members c \<noteq> [] \<and> distinct (c_members c) \<and> c_status c = assembling \<and>
     c_ready c = {} \<and> c_layer_windows c = None \<and> c_ips c = member_ips (c_ips c) (c_members c) \<and>
     (\<forall>m \<in> set (c_members c). \<exists>ip. map_of (c_ips c) m = Some ip \<and> ip \<noteq> [])"

definition subnet_free :: "string \<Rightarrow> 'z db_scheme \<Rightarrow> bool" where
  "subnet_free n s \<longleftrightarrow> (\<forall>cid c. get_cluster cid s = Some c \<and> c_status c \<noteq> terminated \<longrightarrow> c_subnet c \<noteq> n)"

lemma new_cluster_wf: "new_cluster_ok c \<Longrightarrow> cluster_wf c"
  by (simp add: new_cluster_ok_def cluster_wf_def record_windows_ok_def)

lemma new_rows_ok:
  assumes "new_cluster_ok c"
  shows "rows_ok (cluster_to_row c) (map (member_row_of c) (List.enumerate 0 (c_members c)))"
proof -
  let ?rows = "map (member_row_of c) (List.enumerate 0 (c_members c))"
  have "\<exists>ip. cm_assigned_ip m = Some ip \<and> ip \<noteq> []" and "cm_layer_window m = None" if "m \<in> set ?rows" for m
  proof -
    obtain p where p: "p \<in> set (List.enumerate 0 (c_members c))" "m = member_row_of c p"
      using \<open>m \<in> set ?rows\<close> by auto
    then have "snd p \<in> set (c_members c)" by (metis list.set_map map_snd_enumerate imageI)
    then show "\<exists>ip. cm_assigned_ip m = Some ip \<and> ip \<noteq> []" and "cm_layer_window m = None"
      using assms p by (simp_all add: new_cluster_ok_def)
  qed
  moreover have "map cm_ring_position ?rows = [0..<length ?rows]" and "map cm_worker_id ?rows = c_members c"
    by (simp_all add: comp_def)
  moreover have "cr_status (cluster_to_row c) \<noteq> live" and "?rows \<noteq> []"
    using assms by (auto simp: new_cluster_ok_def cluster_to_row_def dest: arg_cong [of _ _ length])
  ultimately show ?thesis using assms unfolding rows_ok_def by (simp add: new_cluster_ok_def del: map_map)
qed

lemma new_cluster_wp:
  assumes "store_ok s" and "new_cluster_ok c"
  shows "wp (create_cluster c)
     (\<lambda>_ t. store_ok t \<and> get_cluster (c_cluster_id c) s = None \<and> get_cluster (c_cluster_id c) t = Some c
        \<and> same_clusters_but (c_cluster_id c) s t \<and> (\<exists>cs ms. t = s\<lparr>clusters := cs, cluster_members := ms\<rparr>))
     (\<lambda>e t. e = IntegrityError \<and> t = s \<and> c_cluster_id c \<in> cluster_ids s) s"
proof -
  let ?t = "s\<lparr>clusters := clusters s @ [cluster_to_row c],
       cluster_members := cluster_members s @ map (member_row_of c) (List.enumerate 0 (c_members c))\<rparr>"
  have fk: "cm_cluster_id m \<in> cluster_ids s" if "m \<in> set (cluster_members s)" for m
    using assms(1) that by (simp add: store_ok_def schema_ok_def members_ok_def)
  have w: "record_windows_ok c" "distinct (c_members c)"
    using new_cluster_wf [OF assms(2)] by (simp_all add: cluster_wf_def)
  have eq: "wp (create_cluster c) Q E s = (if c_cluster_id c \<in> cluster_ids s then E IntegrityError s else Q () ?t)" for Q E
    by (rule create_cluster_wp [OF w fk])
  have "store_ok ?t \<and> (\<forall>x. get_cluster x ?t = (if x = c_cluster_id c then Some c else get_cluster x s)) \<and>
      get_cluster (c_cluster_id c) s = None"
    if new: "c_cluster_id c \<notin> cluster_ids s"
  proof (intro conjI allI)
    show get: "get_cluster x ?t = (if x = c_cluster_id c then Some c else get_cluster x s)" for x
      unfolding get_cluster_def by (rule load_new_cluster [OF fk new new_cluster_wf [OF assms(2)]])
    show "get_cluster (c_cluster_id c) s = None"
      using new by (auto simp: get_cluster_def load_cluster_members_def cluster_row_of_def cluster_ids_def
          find_None_key split: option.split dest: find_Some_in)
    have "rows_ok r (ring (cr_cluster_id r) ?t)" if r: "r \<in> set (clusters ?t)" for r
    proof (cases "r = cluster_to_row c")
      case True
      have rows: "rows_of (c_cluster_id c) ?t = map (member_row_of c) (List.enumerate 0 (c_members c))"
        by (rule rows_of_new [OF fk new])
      then have "ring (c_cluster_id c) ?t = map (member_row_of c) (List.enumerate 0 (c_members c))"
        unfolding ring_def rows by (intro sort_key_sorted_id) (simp add: comp_def)
      then show ?thesis using new_rows_ok [OF assms(2)] True by (simp add: cluster_to_row_def)
    next
      case False
      then have old: "r \<in> set (clusters s)" using r by simp
      then have "cr_cluster_id r \<noteq> c_cluster_id c" using new by (metis cluster_ids_def imageI)
      then have "rows_of (cr_cluster_id r) ?t = rows_of (cr_cluster_id r) s"
        by (auto simp: rows_of_def filter_empty_conv)
      then show ?thesis using old assms(1) by (simp add: ring_def store_ok_def ring_ok_def)
    qed
    moreover have "schema_ok ?t"
      using keeps_wpD [OF keeps_schema_create_cluster, of s c] assms(1) new unfolding eq by (simp add: store_ok_def)
    ultimately show "store_ok ?t" by (simp add: store_ok_def ring_ok_def)
  qed
  then show ?thesis unfolding eq by (auto simp: same_clusters_but_def get_cluster_def)
qed

lemma since_new:
  assumes "since s0 s" and "get_cluster cid s = None" and "same_clusters_but cid s t"
  shows "since s0 t"
proof -
  have "get_cluster x t = get_cluster x s" if "x \<noteq> cid" for x
    using assms(3) that by (simp add: same_clusters_but_def get_cluster_def)
  then show ?thesis using assms(1,2) unfolding since_def by (metis option.distinct(1))
qed

lemma subnets_new:
  assumes "subnets_ok s" and "get_cluster cid t = Some c" and "same_clusters_but cid s t"
    and "subnet_free (c_subnet c) s"
  shows "subnets_ok t"
proof -
  have other: "get_cluster x t = get_cluster x s" if "x \<noteq> cid" for x
    using assms(3) that by (simp add: same_clusters_but_def get_cluster_def)
  have "i = j" if ij: "get_cluster i t = Some a" "get_cluster j t = Some b" "c_status a \<noteq> terminated"
    "c_status b \<noteq> terminated" "c_subnet a = c_subnet b" for i j a b
  proof (cases "i = cid"; cases "j = cid")
    assume "i = cid" "j \<noteq> cid"
    then show ?thesis using ij assms(2,4) other [of j] by (auto simp: subnet_free_def)
  next
    assume "i \<noteq> cid" "j = cid"
    then show ?thesis using ij assms(2,4) other [of i] by (auto simp: subnet_free_def)
  next
    assume "i \<noteq> cid" "j \<noteq> cid"
    then show ?thesis using ij assms(1) other [of i] other [of j] by (auto simp: subnets_ok_def)
  qed simp
  then show ?thesis by (simp add: subnets_ok_def)
qed

end
