(* ===== verification/Pool_Json.thy ===== *)
theory Pool_Json
  imports Pool_Security
begin

text \<open>
  JSON values as Python sees them and the conversion \<open>int(x)\<close> of one, with the token counts that
  the proxy reads out of an upstream answer (app.py, \<open>_parse_sse_usage\<close> and the counts of a plain
  response). \<open>json.loads\<close> is a parameter: \<open>None\<close> is its \<open>ValueError\<close>; an object is a dict.
\<close>

section \<open>Values\<close>

datatype float_val = Finite rat | Infinite | NotANumber

datatype json =
    JNull
  | JBool bool
  | JInt int
  | JFloat float_val
  | JStr string
  | JList "json list"
  | JObj "(string \<times> json) list"

text \<open>\<open>int(x)\<close>: truncation of a float; \<open>int\<close> of an infinity is an \<open>OverflowError\<close>.\<close>

definition truncate_rat :: "rat \<Rightarrow> int" where
  "truncate_rat q = (if q < 0 then \<lceil>q\<rceil> else \<lfloor>q\<rfloor>)"

fun int_of_json :: "json \<Rightarrow> exn + int" where
  "int_of_json (JInt i) = Inr i"
| "int_of_json (JBool b) = Inr (if b then 1 else 0)"
| "int_of_json (JFloat (Finite q)) = Inr (truncate_rat q)"
| "int_of_json (JFloat Infinite) = Inl OverflowError"
| "int_of_json (JFloat NotANumber) = Inl ValueError"
| "int_of_json (JStr s) = py_int s"
| "int_of_json _ = Inl TypeError"

text \<open>Python's truth value of a JSON value.\<close>

fun truthy :: "json \<Rightarrow> bool" where
  "truthy JNull = False"
| "truthy (JBool b) = b"
| "truthy (JInt i) = (i \<noteq> 0)"
| "truthy (JFloat v) = (v \<noteq> Finite 0)"
| "truthy (JStr s) = (s \<noteq> [])"
| "truthy (JList xs) = (xs \<noteq> [])"
| "truthy (JObj d) = (d \<noteq> [])"

text \<open>\<open>json.dumps(v, allow_nan=False)\<close>, which \<open>JSONResponse\<close> uses, raises for a NaN or an infinity in \<open>v\<close>.\<close>

fun finite_json :: "json \<Rightarrow> bool" where
  "finite_json (JFloat v) = (case v of Finite _ \<Rightarrow> True | _ \<Rightarrow> False)"
| "finite_json (JList xs) = (\<forall>x \<in> set xs. finite_json x)"
| "finite_json (JObj d) = (\<forall>p \<in> set d. finite_json (snd p))"
| "finite_json _ = True"

text \<open>\<open>v.get(k)\<close>: only a dict has the method.\<close>

definition json_get :: "string \<Rightarrow> json \<Rightarrow> exn + json option" where
  "json_get k v = (case v of JObj d \<Rightarrow> Inr (map_of d k) | _ \<Rightarrow> Inl AttributeError)"

text \<open>\<open>int(u.get(k, dflt))\<close>.\<close>

definition count_of :: "json dict \<Rightarrow> string \<Rightarrow> int \<Rightarrow> exn + int" where
  "count_of u k dflt = (case map_of u k of None \<Rightarrow> Inr dflt | Some v \<Rightarrow> int_of_json v)"

definition newline :: char where
  "newline = CHR 0x0A"

section \<open>The usage of an event stream\<close>

text \<open>\<open>bytes.strip()\<close>: the six ASCII blanks.\<close>

definition is_byte_space :: "char \<Rightarrow> bool" where
  "is_byte_space c \<longleftrightarrow> (let n = of_char c :: nat in n = 32 \<or> 9 \<le> n \<and> n \<le> 13)"

definition strip_bytes :: "string \<Rightarrow> string" where
  "strip_bytes s = rev (dropWhile is_byte_space (rev (dropWhile is_byte_space s)))"

text \<open>The payload of a \<open>data:\<close> line that is to be parsed; \<open>None\<close> for a line that is skipped.\<close>

definition data_payload :: "string \<Rightarrow> string option" where
  "data_payload raw_line =
     (let line = strip_bytes raw_line in
      if take 5 line \<noteq> ''data:'' then None
      else let payload = strip_bytes (drop 5 line) in
        if payload = [] \<or> payload = ''[DONE]'' then None else Some payload)"

text \<open>
  The loop body on the prompt count, the completion count and the flag that a usage was seen. A
  malformed count ends the chunk: a prompt count that was already assigned stays assigned.
\<close>

type_synonym usage_state = "int \<times> int \<times> bool"

definition sse_line :: "(string \<Rightarrow> json option) \<Rightarrow> string \<Rightarrow> usage_state \<Rightarrow> exn + usage_state" where
  "sse_line loads raw_line st =
     (case data_payload raw_line of None \<Rightarrow> Inr st
      | Some payload \<Rightarrow>
     (case loads payload of None \<Rightarrow> Inr st
      | Some obj \<Rightarrow>
     (case json_get ''usage'' obj of Inl x \<Rightarrow> Inl x
      | Inr (Some (JObj usage)) \<Rightarrow>
          (case st of (prompt, completion, seen) \<Rightarrow>
          (case count_of usage ''prompt_tokens'' prompt of
             Inl x \<Rightarrow> if x = TypeError \<or> x = ValueError then Inr st else Inl x
           | Inr p \<Rightarrow>
          (case count_of usage ''completion_tokens'' completion of
             Inl x \<Rightarrow> if x = TypeError \<or> x = ValueError then Inr (p, completion, seen) else Inl x
           | Inr c \<Rightarrow> Inr (p, c, True))))
      | Inr _ \<Rightarrow> Inr st)))"

fun sse_lines :: "(string \<Rightarrow> json option) \<Rightarrow> string list \<Rightarrow> usage_state \<Rightarrow> exn + usage_state" where
  "sse_lines loads [] st = Inr st"
| "sse_lines loads (l # ls) st =
     (case sse_line loads l st of Inl x \<Rightarrow> Inl x | Inr st' \<Rightarrow> sse_lines loads ls st')"

definition parse_sse_usage :: "(string \<Rightarrow> json option) \<Rightarrow> string \<Rightarrow> exn + (int \<times> int) option" where
  "parse_sse_usage loads raw =
     (case sse_lines loads (split_on newline raw) (0, 0, False) of Inl x \<Rightarrow> Inl x
      | Inr (prompt, completion, seen) \<Rightarrow> Inr (if seen then Some (prompt, completion) else None))"

section \<open>What the parser answers\<close>

text \<open>
  The objects of the stream, in order, and the usages among them. The parser is compared with these
  for streams in which every parsed payload is an object and every usage carries integer counts.
\<close>

definition stream_objects :: "(string \<Rightarrow> json option) \<Rightarrow> string \<Rightarrow> json list" where
  "stream_objects loads raw =
     List.map_filter (\<lambda>l. case data_payload l of None \<Rightarrow> None | Some p \<Rightarrow> loads p) (split_on newline raw)"

fun usage_of :: "json \<Rightarrow> json dict option" where
  "usage_of (JObj d) = (case map_of d ''usage'' of Some (JObj u) \<Rightarrow> Some u | _ \<Rightarrow> None)"
| "usage_of _ = None"

definition int_counts :: "json dict \<Rightarrow> (int \<times> int) option" where
  "int_counts u = (case (map_of u ''prompt_tokens'', map_of u ''completion_tokens'') of
     (Some (JInt p), Some (JInt c)) \<Rightarrow> Some (p, c) | _ \<Rightarrow> None)"

fun is_object :: "json \<Rightarrow> bool" where
  "is_object (JObj d) = True"
| "is_object _ = False"

text \<open>What an honest upstream sends.\<close>

definition well_formed_stream :: "(string \<Rightarrow> json option) \<Rightarrow> string \<Rightarrow> bool" where
  "well_formed_stream loads raw \<longleftrightarrow>
     list_all is_object (stream_objects loads raw) \<and>
     list_all (\<lambda>u. int_counts u \<noteq> None) (List.map_filter usage_of (stream_objects loads raw))"

definition last_usage :: "(string \<Rightarrow> json option) \<Rightarrow> string \<Rightarrow> (int \<times> int) option" where
  "last_usage loads raw =
     (case rev (List.map_filter usage_of (stream_objects loads raw)) of [] \<Rightarrow> None | u # _ \<Rightarrow> int_counts u)"

definition line_object :: "(string \<Rightarrow> json option) \<Rightarrow> string \<Rightarrow> json option" where
  "line_object loads l = (case data_payload l of None \<Rightarrow> None | Some p \<Rightarrow> loads p)"

lemma sse_line_object:
  assumes "case line_object loads l of None \<Rightarrow> True
     | Some v \<Rightarrow> is_object v \<and> (case usage_of v of None \<Rightarrow> True | Some u \<Rightarrow> int_counts u \<noteq> None)"
  shows "sse_line loads l st = Inr (case line_object loads l of None \<Rightarrow> st
     | Some v \<Rightarrow> (case usage_of v of None \<Rightarrow> st
        | Some u \<Rightarrow> (fst (the (int_counts u)), snd (the (int_counts u)), True)))"
proof (cases "line_object loads l")
  case None
  then show ?thesis
    by (auto simp: line_object_def sse_line_def split: option.splits)
next
  case (Some v)
  then obtain p where p: "data_payload l = Some p" "loads p = Some v"
    by (auto simp: line_object_def split: option.splits)
  obtain d where v: "v = JObj d" using assms Some by (cases v) auto
  show ?thesis
  proof (cases "usage_of v")
    case None
    then show ?thesis using p v Some
      by (auto simp: sse_line_def json_get_def split: option.splits json.splits)
  next
    case u: (Some u)
    then have m: "map_of d ''usage'' = Some (JObj u)" using v by (auto split: option.splits json.splits)
    obtain a b where ab: "map_of u ''prompt_tokens'' = Some (JInt a)" "map_of u ''completion_tokens'' = Some (JInt b)"
      using assms Some u by (auto simp: int_counts_def split: option.splits json.splits)
    show ?thesis using p v m ab u Some
      by (cases st) (simp add: sse_line_def json_get_def count_of_def int_counts_def)
  qed
qed

lemma sse_lines_last:
  assumes "list_all is_object (List.map_filter (line_object loads) ls)"
    and "list_all (\<lambda>u. int_counts u \<noteq> None) (List.map_filter usage_of (List.map_filter (line_object loads) ls))"
  shows "sse_lines loads ls st = Inr (case rev (List.map_filter usage_of (List.map_filter (line_object loads) ls)) of
     [] \<Rightarrow> st | u # _ \<Rightarrow> (fst (the (int_counts u)), snd (the (int_counts u)), True))"
  using assms
proof (induction ls arbitrary: st)
  case (Cons l ls)
  have tail: "list_all is_object (List.map_filter (line_object loads) ls)"
    "list_all (\<lambda>u. int_counts u \<noteq> None) (List.map_filter usage_of (List.map_filter (line_object loads) ls))"
    using Cons.prems by (auto simp: map_filter_simps split: option.splits)
  have "case line_object loads l of None \<Rightarrow> True
     | Some v \<Rightarrow> is_object v \<and> (case usage_of v of None \<Rightarrow> True | Some u \<Rightarrow> int_counts u \<noteq> None)"
    using Cons.prems by (auto simp: map_filter_simps split: option.splits)
  note step = sse_line_object [OF this, of st] and rest = Cons.IH [OF tail]
  show ?case
  proof (cases "line_object loads l")
    case None
    then show ?thesis using step rest by (simp add: map_filter_simps)
  next
    case (Some v)
    let ?us = "List.map_filter usage_of (List.map_filter (line_object loads) ls)"
    show ?thesis
    proof (cases "usage_of v")
      case None
      then show ?thesis using step rest Some by (simp add: map_filter_simps)
    next
      case u: (Some u)
      have "sse_lines loads (l # ls) st = sse_lines loads ls (fst (the (int_counts u)), snd (the (int_counts u)), True)"
        using step Some u by simp
      then show ?thesis using Some u unfolding rest
        by (cases "rev ?us") (simp_all add: map_filter_simps)
    qed
  qed
qed (simp add: map_filter_simps)

definition demo_loads :: "string \<Rightarrow> json option" where
  "demo_loads = map_of [(''a'', JObj []),
     (''b'', JObj [(''usage'', JObj [(''prompt_tokens'', JInt 5), (''completion_tokens'', JInt 7)])]),
     (''c'', JList [])]"

definition demo_stream :: string where
  "demo_stream = ''data: a'' @ newline # ''data: b'' @ newline # ''data: [DONE]''"

section \<open>Properties\<close>

text \<open>For a stream whose payloads are objects and whose usages carry integer counts, the proxy logs
  exactly the last usage that the head sent, and nothing when it sent none (so an aborted stream is
  never logged as a request of zero tokens).\<close>

theorem sse_usage_is_last:
  assumes "well_formed_stream loads raw"
  shows "parse_sse_usage loads raw = Inr (last_usage loads raw)"
proof -
  let ?us = "List.map_filter usage_of (stream_objects loads raw)"
  have objs: "stream_objects loads raw = List.map_filter (line_object loads) (split_on newline raw)"
    by (simp add: stream_objects_def line_object_def [abs_def])
  have all: "list_all (\<lambda>u. int_counts u \<noteq> None) ?us" using assms by (simp add: well_formed_stream_def)
  have last: "int_counts u \<noteq> None" if r: "rev ?us = u # us" for u us
  proof -
    have "u \<in> set (rev ?us)" unfolding r by simp
    then have "u \<in> set ?us" unfolding set_rev .
    then show ?thesis using all unfolding list_all_iff by blast
  qed
  have "sse_lines loads (split_on newline raw) (0, 0, False) = Inr (case rev ?us of
      [] \<Rightarrow> (0, 0, False) | u # _ \<Rightarrow> (fst (the (int_counts u)), snd (the (int_counts u)), True))"
    using assms unfolding objs by (intro sse_lines_last) (simp_all add: well_formed_stream_def objs)
  then show ?thesis
    using last by (auto simp: parse_sse_usage_def last_usage_def split: list.splits)
qed

theorem sse_usage_is_last_witness:
  "parse_sse_usage demo_loads demo_stream = Inr (Some (5, 7))"
proof -
  have objs: "stream_objects demo_loads demo_stream = [JObj [],
      JObj [(''usage'', JObj [(''prompt_tokens'', JInt 5), (''completion_tokens'', JInt 7)])]]"
    by (simp add: demo_stream_def stream_objects_def newline_def map_filter_simps data_payload_def strip_bytes_def
        is_byte_space_def demo_loads_def)
  have "well_formed_stream demo_loads demo_stream"
    by (simp add: well_formed_stream_def objs map_filter_simps int_counts_def)
  from sse_usage_is_last [OF this] show ?thesis
    by (simp add: last_usage_def objs map_filter_simps int_counts_def)
qed

text \<open>A payload that is JSON but not an object makes the accounting of a stream raise an
  \<open>AttributeError\<close> that no handler expects, whatever the stream holds before or after it.\<close>

theorem sse_non_object_raises:
  assumes "data_payload l = Some p" and "loads p = Some v" and "\<not> is_object v"
    and "well_formed_stream loads raw" and "newline \<notin> set l"
  shows "parse_sse_usage loads (raw @ newline # l @ newline # rest) = Inl AttributeError"
proof -
  have app: "sse_lines loads (xs @ ys) st = (case sse_lines loads xs st of Inl x \<Rightarrow> Inl x | Inr st' \<Rightarrow> sse_lines loads ys st')"
    for xs ys st by (induction xs arbitrary: st) (auto split: sum.split)
  have bad: "sse_line loads l st = Inl AttributeError" for st
    using assms(1-3) by (cases v) (simp_all add: sse_line_def json_get_def)
  have objs: "stream_objects loads raw = List.map_filter (line_object loads) (split_on newline raw)"
    by (simp add: stream_objects_def line_object_def [abs_def])
  obtain st where st: "sse_lines loads (split_on newline raw) (0, 0, False) = Inr st"
    using sse_lines_last [of loads "split_on newline raw" "(0, 0, False)"] assms(4)
    by (simp add: well_formed_stream_def objs)
  have "split_on newline (raw @ newline # l @ newline # rest) = split_on newline raw @ l # split_on newline rest"
    using assms(5) by (simp add: split_on_append_sep split_on_plain)
  then show ?thesis using st bad by (simp add: parse_sse_usage_def app)
qed

theorem sse_non_object_raises_witness:
  "parse_sse_usage demo_loads (''data: a'' @ newline # ''data: c'' @ newline # ''data: b'') = Inl AttributeError"
  by (rule sse_non_object_raises [of _ "''c''" _ "JList []"])
    (simp_all add: data_payload_def strip_bytes_def is_byte_space_def demo_loads_def newline_def
      well_formed_stream_def stream_objects_def map_filter_simps)

end
