(* ===== verification/Pool_Net.thy ===== *)
theory Pool_Net
  imports Pool_Json
begin

text \<open>
  The address that a worker is reached at (app.py, \<open>_client_ip\<close> and \<open>_is_usable_endpoint_host\<close>).
  IPv4 addresses are parsed and classified as Python's \<open>ipaddress\<close> module does; the classification
  of IPv6 texts is a parameter.
\<close>

section \<open>Addresses\<close>

record ip_flags =
  ip_loopback :: bool
  ip_link_local :: bool
  ip_multicast :: bool
  ip_unspecified :: bool
  ip_private :: bool
  ip_shared :: bool

definition octet :: "string \<Rightarrow> nat option" where
  "octet t =
     (if t = [] \<or> 3 < length t \<or> (length t > 1 \<and> hd t = CHR ''0'') then None
      else (case digits_value 0 t of None \<Rightarrow> None | Some n \<Rightarrow> if n \<le> 255 then Some n else None))"

definition ipv4_of :: "string \<Rightarrow> nat option" where
  "ipv4_of s =
     (case split_on CHR ''.'' s of
        [a, b, c, d] \<Rightarrow>
          (case (octet a, octet b, octet c, octet d) of
             (Some a, Some b, Some c, Some d) \<Rightarrow> Some (((a * 256 + b) * 256 + c) * 256 + d)
           | _ \<Rightarrow> None)
      | _ \<Rightarrow> None)"

definition quad :: "nat \<Rightarrow> nat \<Rightarrow> nat \<Rightarrow> nat \<Rightarrow> nat" where
  "quad a b c d = ((a * 256 + b) * 256 + c) * 256 + d"

text \<open>\<open>addr in ip_network(net/len)\<close>.\<close>

definition in_net :: "nat \<Rightarrow> nat \<Rightarrow> nat \<Rightarrow> bool" where
  "in_net n net len \<longleftrightarrow> n div 2 ^ (32 - len) = net div 2 ^ (32 - len)"

definition private_networks :: "(nat \<times> nat) list" where
  "private_networks =
     [(quad 0 0 0 0, 8), (quad 10 0 0 0, 8), (quad 127 0 0 0, 8), (quad 169 254 0 0, 16),
      (quad 172 16 0 0, 12), (quad 192 0 0 0, 24), (quad 192 0 0 170, 31), (quad 192 0 2 0, 24),
      (quad 192 168 0 0, 16), (quad 198 18 0 0, 15), (quad 198 51 100 0, 24), (quad 203 0 113 0, 24),
      (quad 240 0 0 0, 4), (quad 255 255 255 255, 32)]"

definition private_exceptions :: "(nat \<times> nat) list" where
  "private_exceptions = [(quad 192 0 0 9, 32), (quad 192 0 0 10, 32)]"

definition ipv4_flags :: "nat \<Rightarrow> ip_flags" where
  "ipv4_flags n = \<lparr>ip_loopback = in_net n (quad 127 0 0 0) 8, ip_link_local = in_net n (quad 169 254 0 0) 16,
     ip_multicast = in_net n (quad 224 0 0 0) 4, ip_unspecified = (n = 0),
     ip_private = list_ex (\<lambda>(net, len). in_net n net len) private_networks \<and>
        list_all (\<lambda>(net, len). \<not> in_net n net len) private_exceptions,
     ip_shared = in_net n (quad 100 64 0 0) 10\<rparr>"

text \<open>\<open>ipaddress.ip_address\<close>: \<open>None\<close> is its \<open>ValueError\<close>.\<close>

definition ip_address :: "(string \<Rightarrow> ip_flags option) \<Rightarrow> string \<Rightarrow> ip_flags option" where
  "ip_address ipv6 s = (case ipv4_of s of Some n \<Rightarrow> Some (ipv4_flags n) | None \<Rightarrow> ipv6 s)"

section \<open>Endpoints\<close>

definition is_usable_endpoint_host :: "(string \<Rightarrow> ip_flags option) \<Rightarrow> string \<Rightarrow> bool" where
  "is_usable_endpoint_host ipv6 raw =
     (let host = strip raw in
      if host = [] then False
      else (case ip_address ipv6 host of None \<Rightarrow> True
        | Some ip \<Rightarrow>
            if ip_loopback ip \<or> ip_link_local ip \<or> ip_multicast ip \<or> ip_unspecified ip then False
            else if ip_private ip \<and> \<not> ip_shared ip then False
            else True))"

text \<open>The first hop of \<open>X-Forwarded-For\<close>, else the peer of the connection.\<close>

definition client_ip :: "string option \<Rightarrow> string option \<Rightarrow> string" where
  "client_ip xff peer_host =
     (let fallback = (case peer_host of None \<Rightarrow> [] | Some h \<Rightarrow> h) in
      case xff of None \<Rightarrow> fallback
      | Some h \<Rightarrow>
          if h = [] then fallback
          else let first = strip (hd (split_on CHR '','' h)) in
            if first \<noteq> [] then first else fallback)"

section \<open>What is usable\<close>

definition dotted :: "nat \<Rightarrow> nat \<Rightarrow> nat \<Rightarrow> nat \<Rightarrow> string" where
  "dotted a b c d = str_nat a @ ''.'' @ str_nat b @ ''.'' @ str_nat c @ ''.'' @ str_nat d"

lemma quad_div:
  fixes a b c d :: nat
  assumes "a \<le> 255" "b \<le> 255" "c \<le> 255" "d \<le> 255"
  shows "quad a b c d div 2 ^ 24 = a" "quad a b c d div 2 ^ 20 = a * 16 + b div 16"
    "quad a b c d div 2 ^ 16 = a * 256 + b" "quad a b c d div 2 ^ 8 = (a * 256 + b) * 256 + c"
    "quad a b c d div 2 ^ 28 = a div 16" "quad a b c d div 2 ^ 17 = a * 128 + b div 2"
    "quad a b c d div 2 ^ 22 = a * 4 + b div 64"
  using assms by (simp_all add: quad_def; presburger)+

lemma digits_unique:
  assumes "k < m" and "j < (m :: nat)"
  shows "a * m + k = x * m + j \<longleftrightarrow> a = x \<and> k = j"
proof -
  have "(a * m + k) div m = a" "(x * m + j) div m = x" using assms by simp_all
  then show ?thesis by (metis add_left_imp_eq)
qed

lemma base256: "b \<le> 255 \<Longrightarrow> y \<le> 255 \<Longrightarrow> a * 256 + b = x * 256 + y \<longleftrightarrow> a = x \<and> b = (y :: nat)"
  by (rule digits_unique) simp_all

lemma digits16: "k \<le> 15 \<Longrightarrow> a * 16 + k = 2753 \<longleftrightarrow> a = 172 \<and> k = (1 :: nat)"
  using digits_unique [of k 16 1 a 172] by simp

lemma digits128: "k \<le> 127 \<Longrightarrow> a * 128 + k = 25353 \<longleftrightarrow> a = 198 \<and> k = (9 :: nat)"
  using digits_unique [of k 128 9 a 198] by simp

lemma octet_str_nat: "n \<le> 255 \<Longrightarrow> octet (str_nat n) = Some n"
proof -
  assume n: "n \<le> 255"
  have d: "digit k \<noteq> CHR ''0''" if "0 < k" "k < 10" for k
    using lt10_cases [OF that(2)] that(1) by (auto simp: digit_def)
  have "length (str_nat n) \<le> 3 \<and> \<not> (length (str_nat n) > 1 \<and> hd (str_nat n) = CHR ''0'')"
  proof (cases "n < 10")
    case False
    show ?thesis
    proof (cases "n < 100")
      case True
      then have "n div 10 < 10" "0 < n div 10" using False by auto
      then show ?thesis using False d [of "n div 10"]
        by (simp add: str_nat.simps [of n] str_nat.simps [of "n div 10"])
    next
      case ge: False
      then have b: "\<not> n < 10" "\<not> n div 10 < 10" "n div 10 div 10 < 10" "0 < n div 10 div 10"
        using n by (simp_all add: div_greater_zero_iff)
      then have "str_nat n = [digit (n div 10 div 10), digit (n div 10 mod 10), digit (n mod 10)]"
        by (simp only: str_nat.simps [of n] str_nat.simps [of "n div 10"] str_nat.simps [of "n div 10 div 10"]
            b if_False if_True append.simps)
      then show ?thesis using d [OF b(4,3)] by simp
    qed
  qed (simp add: str_nat.simps [of n])
  then show ?thesis using n by (auto simp: octet_def digits_value_str_nat)
qed

lemma split_dotted:
  "split_on CHR ''.'' (dotted a b c d) = [str_nat a, str_nat b, str_nat c, str_nat d]"
  by (simp add: dotted_def split_on_sep split_on_plain)

lemma ipv4_of_dotted:
  "a \<le> 255 \<Longrightarrow> b \<le> 255 \<Longrightarrow> c \<le> 255 \<Longrightarrow> d \<le> 255 \<Longrightarrow> ipv4_of (dotted a b c d) = Some (quad a b c d)"
  by (simp add: ipv4_of_def split_dotted octet_str_nat quad_def)

lemma strip_dotted: "strip (dotted a b c d) = dotted a b c d"
proof (rule strip_no_space)
  fix x
  assume "x \<in> set (dotted a b c d)"
  then have "x = CHR ''.'' \<or> (\<exists>n. x \<in> set (str_nat n))" by (auto simp: dotted_def)
  then show "\<not> is_space x"
    using str_nat_chars by (fastforce simp: is_space_def)
qed

section \<open>Properties\<close>

text \<open>For a dotted IPv4 address the check is exactly the table of addresses that no other peer
  can reach: this network, RFC 1918, loopback, link-local, the protocol and documentation blocks,
  benchmarking, multicast and the reserved top. In particular the carrier-grade range
  100.64.0.0/10, which Tailscale uses, is accepted.\<close>

theorem usable_endpoint_ipv4:
  assumes "a \<le> 255" and "b \<le> 255" and "c \<le> 255" and "d \<le> 255"
  shows "is_usable_endpoint_host ipv6 (dotted a b c d) \<longleftrightarrow>
    \<not> (a = 0 \<or> a = 10 \<or> a = 127 \<or> 224 \<le> a \<or> (a = 169 \<and> b = 254) \<or> (a = 172 \<and> b div 16 = 1) \<or>
       (a = 192 \<and> (b = 168 \<or> (b = 0 \<and> (c = 2 \<or> (c = 0 \<and> d \<noteq> 9 \<and> d \<noteq> 10))))) \<or>
       (a = 198 \<and> (b = 18 \<or> b = 19 \<or> (b = 51 \<and> c = 100))) \<or> (a = 203 \<and> b = 0 \<and> c = 113))"
proof -
  let ?n = "quad a b c d"
  note q = quad_div [OF assms]
  have d8: "32 - 24 = (8::nat)" by simp
  have n8: "in_net ?n (quad x 0 0 0) 8 \<longleftrightarrow> a = x" if "x \<le> 255" for x
    using q(1) quad_div(1) [of x 0 0 0] that by (simp add: in_net_def)
  have n16: "in_net ?n (quad x y 0 0) 16 \<longleftrightarrow> a = x \<and> b = y" if "x \<le> 255" "y \<le> 255" for x y
    using q(3) quad_div(3) [of x y 0 0] that assms by (simp add: in_net_def base256)
  have n24: "in_net ?n (quad x y z 0) 24 \<longleftrightarrow> a = x \<and> b = y \<and> c = z" if "x \<le> 255" "y \<le> 255" "z \<le> 255" for x y z
    by (simp only: in_net_def d8 q(4) quad_div(4) [of x y z 0] base256 that assms le0 conj_assoc)
  have n32: "in_net ?n (quad x y z w) 32 \<longleftrightarrow> a = x \<and> b = y \<and> c = z \<and> d = w"
    if "x \<le> 255" "y \<le> 255" "z \<le> 255" "w \<le> 255" for x y z w
    by (simp only: in_net_def quad_def base256 that assms conj_assoc diff_self_eq_0 power_0 div_by_1)
  have n12: "in_net ?n (quad 172 16 0 0) 12 \<longleftrightarrow> a = 172 \<and> b div 16 = 1"
  proof -
    have "quad 172 16 0 0 div 2 ^ 20 = 2753" using quad_div(2) [of 172 16 0 0] by simp
    moreover have "b div 16 \<le> 15" using assms(2) by simp
    then have "a * 16 + b div 16 = 2753 \<longleftrightarrow> a = 172 \<and> b div 16 = 1" by (rule digits16)
    ultimately show ?thesis using q(2) by (simp add: in_net_def)
  qed
  have n31: "in_net ?n (quad 192 0 0 170) 31 \<Longrightarrow> in_net ?n (quad 192 0 0 0) 24"
    using assms by (simp add: in_net_def quad_def)
  have n15: "in_net ?n (quad 198 18 0 0) 15 \<longleftrightarrow> a = 198 \<and> (b = 18 \<or> b = 19)"
  proof -
    have "quad 198 18 0 0 div 2 ^ 17 = 25353" using quad_div(6) [of 198 18 0 0] by simp
    moreover have "b div 2 \<le> 127" using assms(2) by simp
    then have "a * 128 + b div 2 = 25353 \<longleftrightarrow> a = 198 \<and> b div 2 = 9" by (rule digits128)
    moreover have "b div 2 = 9 \<longleftrightarrow> b = 18 \<or> b = 19" by presburger
    ultimately show ?thesis using q(6) by (simp add: in_net_def)
  qed
  have n10: "in_net ?n (quad 100 64 0 0) 10 \<Longrightarrow> a = 100"
  proof -
    assume "in_net ?n (quad 100 64 0 0) 10"
    moreover have "quad 100 64 0 0 div 2 ^ 22 = 401" using quad_div(7) [of 100 64 0 0] by simp
    ultimately have "a * 4 + b div 64 = 401" using q(7) by (simp add: in_net_def)
    moreover have "b div 64 \<le> 3" using assms(2) by simp
    ultimately show "a = 100" by linarith
  qed
  have n4: "in_net ?n (quad x 0 0 0) 4 \<longleftrightarrow> a div 16 = x div 16" if "x \<le> 255" for x
    using q(5) quad_div(5) [of x 0 0 0] that by (simp add: in_net_def)
  have zero: "?n = 0 \<longleftrightarrow> a = 0 \<and> b = 0 \<and> c = 0 \<and> d = 0" by (simp add: quad_def)
  have ne: "dotted a b c d \<noteq> []" by (simp add: dotted_def)
  have hi: "a div 16 = 14 \<or> a div 16 = 15 \<longleftrightarrow> 224 \<le> a"
    using assms(1) less_eq_div_iff_mult_less_eq [of 16 14 a] div_le_mono [of a 255 16] by auto
  have ten: "in_net ?n (quad 192 0 0 9) 32 \<or> in_net ?n (quad 192 0 0 10) 32 \<longleftrightarrow> a = 192 \<and> b = 0 \<and> c = 0 \<and> (d = 9 \<or> d = 10)"
    by (auto simp: n32)
  have priv: "list_ex (\<lambda>(net, len). in_net ?n net len) private_networks \<longleftrightarrow>
      a = 0 \<or> a = 10 \<or> a = 127 \<or> (a = 169 \<and> b = 254) \<or> (a = 172 \<and> b div 16 = 1) \<or> (a = 192 \<and> b = 0 \<and> c = 0) \<or>
      (a = 192 \<and> b = 0 \<and> c = 2) \<or> (a = 192 \<and> b = 168) \<or> (a = 198 \<and> (b = 18 \<or> b = 19)) \<or>
      (a = 198 \<and> b = 51 \<and> c = 100) \<or> (a = 203 \<and> b = 0 \<and> c = 113) \<or> a div 16 = 15"
  proof -
    have top: "in_net ?n (quad 255 255 255 255) 32 \<Longrightarrow> in_net ?n (quad 240 0 0 0) 4"
      using n32 [of 255 255 255 255] n4 [of 240] by simp
    have r: "in_net ?n (quad 0 0 0 0) 8 = (a = 0)" "in_net ?n (quad 10 0 0 0) 8 = (a = 10)"
      "in_net ?n (quad 127 0 0 0) 8 = (a = 127)" "in_net ?n (quad 169 254 0 0) 16 = (a = 169 \<and> b = 254)"
      "in_net ?n (quad 192 168 0 0) 16 = (a = 192 \<and> b = 168)"
      "in_net ?n (quad 192 0 0 0) 24 = (a = 192 \<and> b = 0 \<and> c = 0)"
      "in_net ?n (quad 192 0 2 0) 24 = (a = 192 \<and> b = 0 \<and> c = 2)"
      "in_net ?n (quad 198 51 100 0) 24 = (a = 198 \<and> b = 51 \<and> c = 100)"
      "in_net ?n (quad 203 0 113 0) 24 = (a = 203 \<and> b = 0 \<and> c = 113)"
      "in_net ?n (quad 240 0 0 0) 4 = (a div 16 = 15)"
      using n8 n16 n24 n4 by simp_all
    show ?thesis
      using top n31 unfolding private_networks_def list_ex_Cons_iff list_ex_Nil_iff prod.case n12 n15 r by argo
  qed
  have exc: "list_all (\<lambda>(net, len). \<not> in_net ?n net len) private_exceptions \<longleftrightarrow>
      \<not> (a = 192 \<and> b = 0 \<and> c = 0 \<and> (d = 9 \<or> d = 10))"
    using ten by (simp only: private_exceptions_def list.pred_inject prod.case simp_thms, argo)
  have flags: "ip_loopback (ipv4_flags ?n) \<longleftrightarrow> a = 127" "ip_link_local (ipv4_flags ?n) \<longleftrightarrow> a = 169 \<and> b = 254"
    "ip_multicast (ipv4_flags ?n) \<longleftrightarrow> a div 16 = 14" "ip_unspecified (ipv4_flags ?n) \<Longrightarrow> a = 0"
    "ip_shared (ipv4_flags ?n) \<Longrightarrow> a = 100"
    using n10 zero by (simp_all add: ipv4_flags_def n8 n16 n4)
  have "is_usable_endpoint_host ipv6 (dotted a b c d) \<longleftrightarrow>
      \<not> (ip_loopback (ipv4_flags ?n) \<or> ip_link_local (ipv4_flags ?n) \<or> ip_multicast (ipv4_flags ?n) \<or>
         ip_unspecified (ipv4_flags ?n)) \<and> \<not> (ip_private (ipv4_flags ?n) \<and> \<not> ip_shared (ipv4_flags ?n))"
    by (simp add: is_usable_endpoint_host_def strip_dotted ne ip_address_def ipv4_of_dotted assms)
  moreover have "ip_private (ipv4_flags ?n) \<longleftrightarrow>
      list_ex (\<lambda>(net, len). in_net ?n net len) private_networks \<and>
      list_all (\<lambda>(net, len). \<not> in_net ?n net len) private_exceptions"
    by (simp add: ipv4_flags_def)
  ultimately have main: "is_usable_endpoint_host ipv6 (dotted a b c d) \<longleftrightarrow>
      \<not> (a = 127 \<or> (a = 169 \<and> b = 254) \<or> a div 16 = 14 \<or> ip_unspecified (ipv4_flags ?n)) \<and>
      \<not> ((list_ex (\<lambda>(net, len). in_net ?n net len) private_networks \<and>
         \<not> (a = 192 \<and> b = 0 \<and> c = 0 \<and> (d = 9 \<or> d = 10))) \<and> \<not> ip_shared (ipv4_flags ?n))"
    unfolding flags(1-3) exc by argo
  have un: "ip_unspecified (ipv4_flags ?n) \<longrightarrow> a = 0" using flags(4) by blast
  show ?thesis
  proof (cases "a = 100")
    case True
    then show ?thesis using main hi un priv by simp
  next
    case False
    then have ns: "ip_shared (ipv4_flags ?n) \<longleftrightarrow> False" using flags(5) by blast
    show ?thesis
    proof (cases "a = 192")
      case True
      then show ?thesis using main [unfolded ns] un hi priv by simp auto
    next
      case False
      then show ?thesis using main [unfolded ns] un hi priv by argo
    qed
  qed
qed

theorem usable_endpoint_ipv4_witness:
  "\<not> is_usable_endpoint_host (\<lambda>_. None) (dotted 172 17 0 2) \<and> is_usable_endpoint_host (\<lambda>_. None) (dotted 100 101 2 3)"
  using usable_endpoint_ipv4 [of 172 17 0 2 "\<lambda>_. None"] usable_endpoint_ipv4 [of 100 101 2 3 "\<lambda>_. None"] by simp

end
