(* ===== verification/Pool_WireGuard.thy ===== *)
theory Pool_WireGuard
  imports Pool_Lifecycle Pool_Net
begin

text \<open>
  wg_server.py: the server's own WireGuard identity, the address it takes in a cluster, the peer
  entry it advertises, the interface name and the configuration file it renders, and bringing an
  interface up and down. \<open>pool\<close> is the whole state of the running server: the tables, the
  WireGuard keys and the calls made to \<open>wg-quick\<close>, the notification tasks that are scheduled, the
  connected sockets, the frames sent, and the coroutines that are suspended in an await. The X25519
  primitives and the outcome of the external commands are parameters (\<open>env\<close>).
\<close>

datatype frame =
    Hello worker_status bool int "int list"
  | ClusterAssigned string string string string string nat string
  | ClusterDissolved string string
  | Pong

text \<open>A chat request whose credentials were accepted and whose body is still being read.\<close>

record chat_entry =
  ce_account_id :: string
  ce_key_id :: string

text \<open>A chat request that has been sent to a head and has not been answered yet.\<close>

record call =
  ca_request_id :: string
  ca_account_id :: string
  ca_key_id :: string
  ca_model :: string
  ca_cluster_id :: string
  ca_target :: string
  ca_body :: json
  ca_stream :: bool

text \<open>
  What a coroutine of the WebSocket side has still to do: send a frame to a worker, send it if the worker
  is still in the cluster, or serve the receive loop of a socket. A \<open>flight\<close> is a coroutine that is
  suspended in \<open>await ws.send_json(frame)\<close>: the worker and the socket, the frame, and the rest.
\<close>

datatype job = SendTo string frame | SendToMember string string frame | Receive nat string

record flight =
  fl_worker :: string
  fl_socket :: nat
  fl_frame :: frame
  fl_rest :: "job list"

datatype task = NotifyAssigned string frame | NotifyDissolved "string list" frame

text \<open>\<open>WgUp\<close>: the path and the text of the file that is written, and the interface; \<open>WgDown\<close>: the interface.\<close>

datatype wg_call = WgUp string string string | WgDown string

record pool = db +
  wg_private :: string
  wg_public :: string
  wg_log :: "wg_call list"
  tasks :: "task list"
  conns :: "nat dict"
  sent :: "(nat \<times> frame) list"
  accepting :: "(nat \<times> string) list"
  socks :: "(nat \<times> string) list"
  flights :: "flight list"
  admitted :: "chat_entry list"
  calls :: "call list"

record env =
  cfg :: settings
  prim :: crypto
  has_wg_quick :: bool
  has_wg :: bool
  x25519_public :: "string \<Rightarrow> string"
  x25519_generate :: "string \<Rightarrow> string"
  wg_outcome :: "wg_call \<Rightarrow> exn option"
  json_loads :: "string \<Rightarrow> json option"
  json_text :: "json \<Rightarrow> string"
  ipv6 :: "string \<Rightarrow> ip_flags option"

section \<open>Keys, addresses, peers\<close>

text \<open>A new pair of keys in base64, out of the raw private key that the library draws.\<close>

definition generate_keypair :: "env \<Rightarrow> (pool, string \<times> string) act" where
  "generate_keypair e = bnd draw (\<lambda>r.
     let private = x25519_generate e r in
     ret (b64encode (prim e) private, b64encode (prim e) (x25519_public e private)))"

text \<open>A text that is no base64, or not a key of 32 bytes, raises.\<close>

definition derive_public_key :: "env \<Rightarrow> string \<Rightarrow> exn + string" where
  "derive_public_key e private_key_b64 =
     (case b64decode (prim e) private_key_b64 of Inl x \<Rightarrow> Inl x
      | Inr raw \<Rightarrow> if length raw \<noteq> 32 then Inl ValueError
          else Inr (b64encode (prim e) (x25519_public e raw)))"

text \<open>\<open>ServerWireGuard.__init__\<close>: a configured private key determines the public key, or is refused.\<close>

definition wg_init :: "env \<Rightarrow> (pool, unit) act" where
  "wg_init e = (let k = server_wg_private_key (cfg e) in
     seqa (puts (\<lambda>s. s\<lparr>wg_private := k, wg_public := []\<rparr>))
       (if k = [] then ret ()
        else bnd (lift_result (derive_public_key e k)) (\<lambda>p. puts (\<lambda>s. s\<lparr>wg_public := p\<rparr>))))"

definition new_keys :: "env \<Rightarrow> (pool, unit) act" where
  "new_keys e = bnd (generate_keypair e) (\<lambda>(private, pub). puts (\<lambda>s. s\<lparr>wg_private := private, wg_public := pub\<rparr>))"

definition public_key :: "env \<Rightarrow> (pool, string) act" where
  "public_key e = bnd (gets wg_public) (\<lambda>k. seqa (if k = [] then new_keys e else ret ()) (gets wg_public))"

definition private_key :: "env \<Rightarrow> (pool, string) act" where
  "private_key e = bnd (gets wg_private) (\<lambda>k. seqa (if k = [] then new_keys e else ret ()) (gets wg_private))"

definition enabled :: "env \<Rightarrow> bool" where
  "enabled e = server_join_wg (cfg e)"

definition has_endpoint :: "env \<Rightarrow> bool" where
  "has_endpoint e = (server_wg_endpoint_host (cfg e) \<noteq> [])"

text \<open>\<open>f"{parts[0]}.{parts[1]}.{parts[2]}.{offset}"\<close>; fewer than three parts are an \<open>IndexError\<close>.\<close>

definition server_ip :: "env \<Rightarrow> string \<Rightarrow> exn + string" where
  "server_ip e subnet =
     (case split_on CHR ''.'' subnet of
        p0 # p1 # p2 # _ \<Rightarrow>
          Inr (p0 @ ''.'' @ p1 @ ''.'' @ p2 @ ''.'' @ str_int (server_wg_ip_offset (cfg e)))
      | _ \<Rightarrow> Inl IndexError)"

record peer =
  pr_pubkey :: string
  pr_endpoint :: "string option"
  pr_allowed_ips :: "string list"
  pr_keepalive :: int
  pr_preferred :: string
  pr_role :: "string option"

definition server_peer :: "env \<Rightarrow> cluster_rec \<Rightarrow> (pool, peer) act" where
  "server_peer e c =
     bnd (public_key e) (\<lambda>k.
     bnd (lift_result (server_ip e (c_subnet c))) (\<lambda>ip.
     let host = server_wg_endpoint_host (cfg e) in
     ret \<lparr>pr_pubkey = k,
       pr_endpoint = (if host \<noteq> []
          then Some (host @ '':'' @ str_int (server_wg_listen_port (cfg e))) else None),
       pr_allowed_ips = [ip @ ''/32''],
       pr_keepalive = wg_persistent_keepalive (cfg e),
       pr_preferred = ''direct'',
       pr_role = Some ''server''\<rparr>))"

section \<open>The configuration file\<close>

text \<open>The lines for one member; an address that the cluster does not have is a \<open>KeyError\<close>.\<close>

definition conf_peer :: "env \<Rightarrow> cluster_rec \<Rightarrow> worker_rec \<Rightarrow> exn + string list" where
  "conf_peer e c m =
     (case map_of (c_ips c) (w_worker_id m) of None \<Rightarrow> Inl (KeyError (w_worker_id m))
      | Some ip \<Rightarrow> Inr (
          [''[Peer]'', ''PublicKey = '' @ w_wg_pubkey m]
          @ (case w_endpoint m of
               Some ep \<Rightarrow> if e_host ep \<noteq> [] then [''Endpoint = '' @ e_host ep @ '':'' @ str_int (e_port ep)] else []
             | None \<Rightarrow> [])
          @ [''AllowedIPs = '' @ ip @ ''/32'',
             ''PersistentKeepalive = '' @ str_int (wg_persistent_keepalive (cfg e)), '''']))"

fun conf_peers :: "env \<Rightarrow> cluster_rec \<Rightarrow> worker_rec list \<Rightarrow> exn + string list" where
  "conf_peers e c [] = Inr []"
| "conf_peers e c (m # ms) =
     (case conf_peer e c m of Inl x \<Rightarrow> Inl x
      | Inr ls \<Rightarrow> (case conf_peers e c ms of Inl x \<Rightarrow> Inl x | Inr rest \<Rightarrow> Inr (ls @ rest)))"

definition render_server_conf :: "env \<Rightarrow> cluster_rec \<Rightarrow> worker_rec list \<Rightarrow> (pool, string) act" where
  "render_server_conf e c members =
     bnd (private_key e) (\<lambda>k.
     bnd (lift_result (server_ip e (c_subnet c))) (\<lambda>ip.
     bnd (lift_result (conf_peers e c members)) (\<lambda>ls.
     ret (join_with newline
       ([''[Interface]'', ''PrivateKey = '' @ k, ''Address = '' @ ip @ ''/24'',
         ''MTU = '' @ str_int (wg_mtu (cfg e)),
         ''ListenPort = '' @ str_int (server_wg_listen_port (cfg e)), ''''] @ ls)))))"

section \<open>Interfaces\<close>

definition rstrip_dash :: "string \<Rightarrow> string" where
  "rstrip_dash s = rev (dropWhile (\<lambda>c. c = CHR ''-'') (rev s))"

definition iface :: "env \<Rightarrow> string \<Rightarrow> string" where
  "iface e cluster_id =
     rstrip_dash (take 6 (server_wg_interface (cfg e))) @ ''-'' @ take 8 (sha256_hex (prim e) cluster_id)"

definition conf_path :: "env \<Rightarrow> string \<Rightarrow> string" where
  "conf_path e cluster_id = server_wg_conf_dir (cfg e) @ ''/'' @ iface e cluster_id @ ''.conf''"

text \<open>Running an external command: it is made, then it may fail.\<close>

definition run_wg :: "env \<Rightarrow> wg_call \<Rightarrow> (pool, unit) act" where
  "run_wg e call = seqa (puts (\<lambda>s. s\<lparr>wg_log := wg_log s @ [call]\<rparr>))
     (case wg_outcome e call of None \<Rightarrow> ret () | Some x \<Rightarrow> throw x)"

definition wg_up :: "env \<Rightarrow> cluster_rec \<Rightarrow> worker_rec list \<Rightarrow> (pool, unit) act" where
  "wg_up e c members =
     (if \<not> enabled e then ret ()
      else if \<not> has_wg_quick e \<or> \<not> has_wg e
      then throw (RuntimeError ''wg-quick/wg not found; cannot join WireGuard network'')
      else bnd (render_server_conf e c members) (\<lambda>conf.
        run_wg e (WgUp (conf_path e (c_cluster_id c)) conf (iface e (c_cluster_id c)))))"

definition wg_down :: "env \<Rightarrow> string \<Rightarrow> (pool, unit) act" where
  "wg_down e cluster_id =
     (if \<not> enabled e then ret ()
      else if \<not> has_wg_quick e then throw TypeError
      else run_wg e (WgDown (iface e cluster_id)))"

section \<open>What these operations leave alone\<close>

text \<open>The clock, the connections, what was sent, and the suspended coroutines.\<close>

definition same_sessions :: "pool \<Rightarrow> pool \<Rightarrow> bool" where
  "same_sessions s t \<longleftrightarrow> clock t = clock s \<and> conns t = conns s \<and> sent t = sent s \<and> accepting t = accepting s \<and>
     socks t = socks s \<and> flights t = flights s \<and> admitted t = admitted s \<and> calls t = calls s"

text \<open>The tables, the tasks and the sessions.\<close>

definition same_but_wg :: "pool \<Rightarrow> pool \<Rightarrow> bool" where
  "same_but_wg s t \<longleftrightarrow> rnd t = rnd s \<and> accounts t = accounts s \<and> api_keys t = api_keys s \<and>
     workers t = workers s \<and> clusters t = clusters s \<and> cluster_members t = cluster_members s \<and>
     requests t = requests s \<and> tasks t = tasks s \<and> same_sessions s t"

lemmas same_defs = same_but_wg_def same_sessions_def

lemma keeps_wg_generate: "keeps (same_but_wg s0) (new_keys e)"
  by (rule keepsI) (simp add: new_keys_def generate_keypair_def wp_simps Let_def same_defs)

lemma keeps_wg_init: "keeps (same_but_wg s0) (wg_init e)"
  by (rule keepsI)
    (simp add: wg_init_def wp_simps Let_def same_defs split: sum.split)

lemma keeps_wg_run: "keeps (same_but_wg s0) (run_wg e call)"
  by (rule keepsI) (simp add: run_wg_def wp_simps same_defs split: option.split)

lemma keeps_wg_public_key: "keeps (same_but_wg s0) (public_key e)"
  unfolding public_key_def by (intro keeps_intros keeps_wg_generate)

lemma keeps_wg_server_peer: "keeps (same_but_wg s0) (server_peer e c)"
  unfolding server_peer_def by (intro keeps_intros keeps_wg_public_key)

lemma keeps_wg_up: "keeps (same_but_wg s0) (wg_up e c ms)"
  unfolding wg_up_def render_server_conf_def private_key_def
  by (intro keeps_intros keeps_wg_generate keeps_wg_run)

lemma keeps_wg_down: "keeps (same_but_wg s0) (wg_down e cid)"
  unfolding wg_down_def by (intro keeps_intros keeps_wg_run)

text \<open>A WireGuard call whose failure is only logged never raises and leaves the rest alone.\<close>

lemma wg_guarded:
  assumes "keeps (same_but_wg s) m"
  shows "wp (try_with m (\<lambda>_. ret ())) (\<lambda>_ t. same_but_wg s t) (\<lambda>_ _. False) s"
proof -
  have "same_but_wg s s" by (simp add: same_defs)
  from keeps_wpD [OF assms this] show ?thesis
    unfolding wp_try_with by (rule wp_conseq) (simp_all add: wp_simps)
qed

section \<open>Properties\<close>

text \<open>The interface name that the server uses for a cluster is never longer than the 15
  characters that Linux allows, whatever the configured base name and the cluster id, and it ends in
  the digest prefix of the cluster id.\<close>

theorem iface_fits:
  "length (iface e cid) \<le> 15 \<and>
   (\<exists>base. iface e cid = base @ ''-'' @ take 8 (sha256_hex (prim e) cid) \<and> length base \<le> 6)"
proof -
  have "length (rstrip_dash (take 6 b)) \<le> 6" for b
    using length_dropWhile_le [of "\<lambda>c. c = CHR ''-''" "rev (take 6 b)"] by (simp add: rstrip_dash_def)
  from this [of "server_wg_interface (cfg e)"] show ?thesis by (auto simp: iface_def)
qed

end
