(* ===== verification/Pool_Scheduler.thy ===== *)
theory Pool_Scheduler
  imports Pool_WireGuard
begin

text \<open>
  scheduler.py: the waitlist, subnet and address allocation, cluster formation (first come first
  served), dissolution, the cluster configuration handed to members, and the two report entry
  points. An \<open>async\<close> notification is a task appended to \<open>tasks\<close>, in the order in which the
  scheduler creates them. \<open>pool_ok\<close> is the invariant of the whole store that formation and
  dissolution keep; it says that the worker's view of its cluster and the cluster's view of its
  members agree.
\<close>

section \<open>The waitlist\<close>

definition eligible :: "string \<Rightarrow> string \<Rightarrow> rat \<Rightarrow> worker_rec \<Rightarrow> bool" where
  "eligible model gguf now w \<longleftrightarrow> w_model w = model \<and> w_gguf_sha256 w = gguf \<and>
     w_status w = waitlisted \<and> w_online w \<and> w_assignable_at w \<le> now"

definition waitlist :: "string \<Rightarrow> string \<Rightarrow> pool \<Rightarrow> worker_rec list" where
  "waitlist model gguf s =
     sort_key w_created_at (filter (eligible model gguf (clock s)) (list_workers s))"

section \<open>Subnets and addresses\<close>

text \<open>The subnet that a worker's assigned address is in, when it is a dotted quad.\<close>

definition subnet_of_ip :: "string option \<Rightarrow> string option" where
  "subnet_of_ip a =
     (case a of None \<Rightarrow> None
      | Some ip \<Rightarrow>
         (case split_on CHR ''.'' ip of
            [p0, p1, p2, p3] \<Rightarrow> if ip = [] then None else Some (p0 @ ''.'' @ p1 @ ''.'' @ p2 @ ''.0/24'')
          | _ \<Rightarrow> None))"

definition used_subnets :: "pool \<Rightarrow> string list" where
  "used_subnets s =
     map c_subnet (filter (\<lambda>c. c_status c \<noteq> terminated) (list_clusters s))
     @ List.map_filter (\<lambda>w. subnet_of_ip (w_assigned_ip w)) (list_workers s)"

definition candidate_subnet :: "env \<Rightarrow> nat \<Rightarrow> string" where
  "candidate_subnet e third = cluster_subnet_prefix (cfg e) @ ''.'' @ str_nat third @ ''.0/24''"

definition next_subnet :: "env \<Rightarrow> pool \<Rightarrow> exn + string" where
  "next_subnet e s =
     (case find (\<lambda>third. candidate_subnet e third \<notin> set (used_subnets s)) [1..<256] of
        Some third \<Rightarrow> Inr (candidate_subnet e third)
      | None \<Rightarrow> Inl (RuntimeError ''no free cluster subnets''))"

definition assign_ips :: "env \<Rightarrow> string \<Rightarrow> nat \<Rightarrow> exn + string list" where
  "assign_ips e subnet n =
     (case split_on CHR ''.'' subnet of
        _ # _ # third # _ \<Rightarrow>
          Inr (map (\<lambda>i. cluster_subnet_prefix (cfg e) @ ''.'' @ third @ ''.'' @ str_nat i) [1..<n + 1])
      | _ \<Rightarrow> Inl IndexError)"

section \<open>The configuration of a cluster\<close>

definition member_peer :: "env \<Rightarrow> cluster_rec \<Rightarrow> worker_rec \<Rightarrow> exn + peer" where
  "member_peer e c m =
     (case w_endpoint m of None \<Rightarrow> Inl AttributeError
      | Some ep \<Rightarrow>
         (case map_of (c_ips c) (w_worker_id m) of None \<Rightarrow> Inl (KeyError (w_worker_id m))
          | Some ip \<Rightarrow> Inr \<lparr>pr_pubkey = w_wg_pubkey m,
              pr_endpoint = (if e_host ep \<noteq> [] then Some (e_host ep @ '':'' @ str_int (e_port ep)) else None),
              pr_allowed_ips = [ip @ ''/32''],
              pr_keepalive = wg_persistent_keepalive (cfg e),
              pr_preferred = (if e_behind_nat ep then ''relay'' else ''direct''),
              pr_role = None\<rparr>))"

fun member_peers :: "env \<Rightarrow> cluster_rec \<Rightarrow> worker_rec list \<Rightarrow> exn + peer list" where
  "member_peers e c [] = Inr []"
| "member_peers e c (m # ms) =
     (case member_peer e c m of Inl x \<Rightarrow> Inl x
      | Inr p \<Rightarrow> (case member_peers e c ms of Inl x \<Rightarrow> Inl x | Inr ps \<Rightarrow> Inr (p # ps)))"

record cluster_config =
  cc_cluster_id :: string
  cc_private_ip :: string
  cc_subnet :: string
  cc_mtu :: int
  cc_relay_pubkey :: string
  cc_relay_endpoint :: string
  cc_relay_enabled :: bool
  cc_peers :: "peer list"

definition build_cluster_config :: "env \<Rightarrow> cluster_rec \<Rightarrow> (pool, cluster_config) act" where
  "build_cluster_config e c =
     bnd (gets (\<lambda>s. List.map_filter (\<lambda>wid. get_worker wid s) (c_members c))) (\<lambda>members.
     bnd (lift_result (member_peers e c members)) (\<lambda>peers.
     bnd (if enabled e then bnd (server_peer e c) (\<lambda>p. ret (peers @ [p])) else ret peers) (\<lambda>all_peers.
     ret \<lparr>cc_cluster_id = c_cluster_id c, cc_private_ip = [], cc_subnet = c_subnet c,
       cc_mtu = wg_mtu (cfg e), cc_relay_pubkey = relay_pubkey (cfg e),
       cc_relay_endpoint = relay_endpoint (cfg e), cc_relay_enabled = relay_enabled (cfg e),
       cc_peers = all_peers\<rparr>)))"

section \<open>Formation\<close>

text \<open>The choosing loop: members are taken until the memory suffices; the sum is returned too.\<close>

fun choose_members :: "int \<Rightarrow> int \<Rightarrow> worker_rec list \<Rightarrow> worker_rec list \<times> int" where
  "choose_members required tot [] = ([], tot)"
| "choose_members required tot (w # ws) =
     (let tot' = tot + w_memory_allocated_mb w in
      if tot' \<ge> required then ([w], tot')
      else (let (chosen, t) = choose_members required tot' ws in (w # chosen, t)))"

definition schedule :: "task \<Rightarrow> (pool, unit) act" where
  "schedule t = puts (\<lambda>s. s\<lparr>tasks := tasks s @ [t]\<rparr>)"

definition dict_of :: "(string \<times> 'v) list \<Rightarrow> 'v dict" where
  "dict_of ps = foldl (\<lambda>d (k, v). dict_set k v d) [] ps"

definition config_url :: "env \<Rightarrow> string \<Rightarrow> string" where
  "config_url e cid = public_base_url (cfg e) @ ''/v1/clusters/'' @ cid @ ''/config''"

definition assigned_worker :: "string \<Rightarrow> string list \<Rightarrow> nat \<times> worker_rec \<Rightarrow> worker_rec" where
  "assigned_worker cid ips = (\<lambda>(i, w). w\<lparr>w_status := assigned, w_cluster_id := Some cid,
     w_assigned_ip := Some (ips ! i), w_ring_position := Some i\<rparr>)"

definition assigned_task :: "env \<Rightarrow> cluster_rec \<Rightarrow> string list \<Rightarrow> nat \<times> worker_rec \<Rightarrow> task" where
  "assigned_task e c ips = (\<lambda>(i, w). NotifyAssigned (w_worker_id w)
     (ClusterAssigned (c_cluster_id c) (w_worker_id w) (c_model c) (ips ! i) (c_subnet c) i
        (config_url e (c_cluster_id c))))"

text \<open>From the fresh id on: allocation, the insert, the members' rows and tasks, the server's own join.\<close>

definition form_chosen :: "env \<Rightarrow> string \<Rightarrow> worker_rec list \<Rightarrow> string \<Rightarrow> (pool, cluster_rec option) act" where
  "form_chosen e model chosen cid =
     bnd (gets (next_subnet e)) (\<lambda>r.
     bnd (lift_result r) (\<lambda>subnet.
     bnd (lift_result (assign_ips e subnet (length chosen))) (\<lambda>ips.
     bnd (gets clock) (\<lambda>now.
     let c = \<lparr>c_cluster_id = cid, c_model = model, c_subnet = subnet,
              c_members = map w_worker_id chosen, c_status = assembling, c_ready = {},
              c_created_at = now,
              c_ips = dict_of (map (\<lambda>(i, w). (w_worker_id w, ips ! i)) (List.enumerate 0 chosen)),
              c_layer_windows = None\<rparr> in
     seqa (create_cluster c)
    (seqa (for_each (\<lambda>p. seqa (update_worker (assigned_worker cid ips p))
                           (schedule (assigned_task e c ips p)))
            (List.enumerate 0 chosen))
    (seqa (if enabled e
           then try_with (wg_up e c (map (assigned_worker cid ips) (List.enumerate 0 chosen))) (\<lambda>_. ret ())
           else ret ())
       (ret (Some c))))))))"

definition form_cluster :: "env \<Rightarrow> string \<Rightarrow> (pool, cluster_rec option) act" where
  "form_cluster e model =
     (case map_of (models (cfg e)) model of None \<Rightarrow> ret None
      | Some md \<Rightarrow>
     bnd (gets (waitlist model (md_gguf_sha256 md))) (\<lambda>wl.
     if wl = [] then ret None
     else
       (let (chosen, tot) = choose_members (md_required_memory_mb md) 0 wl in
        if tot < md_required_memory_mb md then ret None
        else bnd (new_id ''clu'') (form_chosen e model chosen))))"

section \<open>Dissolution\<close>

definition release :: "worker_rec \<Rightarrow> worker_rec" where
  "release w = w\<lparr>w_status := waitlisted, w_cluster_id := None, w_assigned_ip := None, w_ring_position := None\<rparr>"

definition dissolve_cluster :: "env \<Rightarrow> cluster_rec \<Rightarrow> string \<Rightarrow> (pool, unit) act" where
  "dissolve_cluster e c reason =
     seqa (for_each (\<lambda>wid. bnd (gets (get_worker wid)) (\<lambda>r.
             case r of None \<Rightarrow> ret () | Some w \<Rightarrow> update_worker (release w))) (c_members c))
    (seqa (update_cluster (c\<lparr>c_status := terminated\<rparr>))
    (seqa (if enabled e then try_with (wg_down e (c_cluster_id c)) (\<lambda>_. ret ()) else ret ())
       (schedule (NotifyDissolved (c_members c) (ClusterDissolved (c_cluster_id c) reason)))))"

lemma release_simps [simp]:
  "w_worker_id (release w) = w_worker_id w" "w_account_id (release w) = w_account_id w"
  "w_memory_allocated_mb (release w) = w_memory_allocated_mb w" "w_cluster_id (release w) = None"
  "w_status (release w) = waitlisted" "w_wg_pubkey (release w) = w_wg_pubkey w" "release (release w) = release w"
  by (simp_all add: release_def)

section \<open>Entry points\<close>

definition check_and_form :: "env \<Rightarrow> (pool, unit) act" where
  "check_and_form e = for_each (\<lambda>m. bnd (form_cluster e m) (\<lambda>_. ret ())) (map fst (models (cfg e)))"

definition dissolve_of :: "env \<Rightarrow> string \<Rightarrow> worker_rec \<Rightarrow> (pool, unit) act" where
  "dissolve_of e reason w =
     (case w_cluster_id w of None \<Rightarrow> ret ()
      | Some cid \<Rightarrow>
         if cid = [] then ret ()
         else bnd (gets (get_cluster cid)) (\<lambda>r.
           case r of None \<Rightarrow> ret () | Some c \<Rightarrow> dissolve_cluster e c reason))"

definition on_worker_offline :: "env \<Rightarrow> worker_rec \<Rightarrow> (pool, unit) act" where
  "on_worker_offline e w = dissolve_of e ''member_offline'' w"

definition on_worker_leave :: "env \<Rightarrow> worker_rec \<Rightarrow> (pool, unit) act" where
  "on_worker_leave e w = dissolve_of e ''member_left'' w"

definition on_ready :: "string \<Rightarrow> string \<Rightarrow> (pool, cluster_status) act" where
  "on_ready cid wid = bnd (mark_member_ready cid wid) (\<lambda>r.
     case r of None \<Rightarrow> throw (KeyError cid) | Some c \<Rightarrow> ret (c_status c))"

definition on_layer_distribution :: "string \<Rightarrow> int dict option \<Rightarrow> (pool, cluster_status) act" where
  "on_layer_distribution cid lw = bnd (set_cluster_distribution cid lw) (\<lambda>r.
     case r of None \<Rightarrow> throw (KeyError cid) | Some c \<Rightarrow> ret (c_status c))"

section \<open>Choosing\<close>

definition memory :: "worker_rec list \<Rightarrow> int" where
  "memory ws = sum_list (map w_memory_allocated_mb ws)"

lemma choose_prefix:
  "choose_members required tot ws = (chosen, t) \<Longrightarrow>
   (\<exists>rest. ws = chosen @ rest) \<and> t = tot + memory chosen"
proof (induction ws arbitrary: tot chosen t)
  case (Cons w ws)
  obtain ch t' where c: "choose_members required (tot + w_memory_allocated_mb w) ws = (ch, t')" by fastforce
  show ?case using Cons.prems Cons.IH [OF c] c
    by (auto simp: Let_def memory_def split: if_splits)
qed (simp add: memory_def)

text \<open>No shorter prefix would have sufficed, and a shortage means that everybody was counted.\<close>

lemma choose_shortest:
  "choose_members required tot ws = (chosen, t) \<Longrightarrow> xs @ [x] @ ys = chosen \<Longrightarrow> xs \<noteq> [] \<Longrightarrow> tot + memory xs < required"
proof (induction ws arbitrary: tot chosen t xs)
  case (Cons w ws)
  obtain ch t' where c: "choose_members required (tot + w_memory_allocated_mb w) ws = (ch, t')" by fastforce
  show ?case
  proof (cases "tot + w_memory_allocated_mb w \<ge> required")
    case True
    with Cons.prems show ?thesis by (cases xs) (auto simp: Let_def)
  next
    case False
    then have "chosen = w # ch" using Cons.prems(1) c by (simp add: Let_def)
    then obtain xs' where xs: "xs = w # xs'" "xs' @ [x] @ ys = ch"
      using Cons.prems(2,3) by (auto simp: append_eq_Cons_conv)
    show ?thesis
    proof (cases "xs' = []")
      case True
      then show ?thesis using xs False by (simp add: memory_def)
    next
      case nonempty: False
      from Cons.IH [OF c xs(2) nonempty] show ?thesis using xs by (simp add: memory_def)
    qed
  qed
qed simp

lemma choose_short:
  "choose_members required tot ws = (chosen, t) \<Longrightarrow> t < required \<Longrightarrow> chosen = ws"
proof (induction ws arbitrary: tot chosen t)
  case (Cons w ws)
  obtain ch t' where c: "choose_members required (tot + w_memory_allocated_mb w) ws = (ch, t')" by fastforce
  show ?case using Cons.prems Cons.IH [OF c] c by (auto simp: Let_def split: if_splits)
qed simp

lemma choose_nonempty: "choose_members required tot ws = (chosen, t) \<Longrightarrow> ws \<noteq> [] \<Longrightarrow> chosen \<noteq> []"
  by (cases ws) (auto simp: Let_def split: if_splits prod.splits)

section \<open>The invariant of the pool\<close>

text \<open>A worker that points at a cluster is a member of it, with the address and position it has there.\<close>

definition seat_ok :: "'z db_scheme \<Rightarrow> worker_rec \<Rightarrow> bool" where
  "seat_ok s w \<longleftrightarrow>
     (\<forall>cid. w_cluster_id w = Some cid \<longrightarrow> cid \<noteq> [] \<and>
        (\<exists>c i. get_cluster cid s = Some c \<and> c_status c \<noteq> terminated \<and> i < length (c_members c) \<and>
           c_members c ! i = w_worker_id w \<and> w_ring_position w = Some i \<and>
           w_assigned_ip w = map_of (c_ips c) (w_worker_id w))) \<and>
     (w_status w = assigned \<longrightarrow> w_cluster_id w \<noteq> None)"

definition assign_ok :: "'z db_scheme \<Rightarrow> bool" where
  "assign_ok s \<longleftrightarrow> (\<forall>w \<in> set (workers s). seat_ok s w)"

definition pool_ok :: "'z db_scheme \<Rightarrow> bool" where
  "pool_ok s \<longleftrightarrow> store_ok s \<and> subnets_ok s \<and> assign_ok s"

text \<open>The identity of each worker: its id, its account, its device.\<close>

definition idents :: "'z db_scheme \<Rightarrow> (string \<times> string \<times> string) list" where
  "idents s = map (\<lambda>w. (w_worker_id w, w_account_id w, w_wg_pubkey w)) (workers s)"

text \<open>Two states with the same tables.\<close>

definition same_tables :: "'z db_scheme \<Rightarrow> 'z db_scheme \<Rightarrow> bool" where
  "same_tables s t \<longleftrightarrow> accounts t = accounts s \<and> api_keys t = api_keys s \<and> workers t = workers s \<and>
     clusters t = clusters s \<and> cluster_members t = cluster_members s \<and> requests t = requests s"

lemma get_cluster_cong:
  "clusters t = clusters s \<Longrightarrow> cluster_members t = cluster_members s \<Longrightarrow> get_cluster cid t = get_cluster cid s"
  by (simp add: get_cluster_def load_cluster_members_def cluster_row_of_def rows_of_def split: option.split)

lemma same_tables_get_cluster: "same_tables s t \<Longrightarrow> get_cluster cid t = get_cluster cid s"
  by (rule get_cluster_cong) (simp_all add: same_tables_def)

lemma same_tables_store_ok: "same_tables s t \<Longrightarrow> store_ok t = store_ok s"
  using ring_ok_cong [of t s] unfolding store_ok_def
  by (simp add: same_tables_def schema_ok_def table_oks id_sets)

lemma same_tables_pool_ok: "same_tables s t \<Longrightarrow> pool_ok t = pool_ok s"
proof -
  assume st: "same_tables s t"
  have "seat_ok t = seat_ok s" unfolding seat_ok_def by (simp add: same_tables_get_cluster [OF st])
  moreover have "workers t = workers s" using st by (simp add: same_tables_def)
  ultimately show ?thesis
    unfolding pool_ok_def assign_ok_def subnets_ok_def
    by (simp add: same_tables_store_ok [OF st] same_tables_get_cluster [OF st])
qed

lemma same_tables_since: "same_tables s t \<Longrightarrow> since s0 t = since s0 s"
  unfolding since_def by (simp add: same_tables_get_cluster)

section \<open>Writing workers\<close>

definition write_all :: "worker_rec list \<Rightarrow> worker_rec list \<Rightarrow> worker_rec list" where
  "write_all rs ws = map (\<lambda>w. case find (\<lambda>r. w_worker_id r = w_worker_id w) rs of None \<Rightarrow> w | Some r \<Rightarrow> r) ws"

lemma write_all_Cons:
  assumes "w_worker_id r \<notin> w_worker_id ` set rs"
  shows "write_all rs (map (\<lambda>w. if w_worker_id w = w_worker_id r then r else w) ws) = write_all (r # rs) ws"
proof -
  have "find (\<lambda>x. w_worker_id x = w_worker_id r) rs = None" using assms by (simp add: find_None_key)
  then show ?thesis by (simp add: write_all_def split: option.split)
qed

lemma in_write_all:
  "w \<in> set (write_all rs ws) \<Longrightarrow> w \<in> set rs \<or> (w \<in> set ws \<and> w_worker_id w \<notin> w_worker_id ` set rs)"
proof -
  assume "w \<in> set (write_all rs ws)"
  then obtain x where x: "x \<in> set ws"
    and w: "w = (case find (\<lambda>r. w_worker_id r = w_worker_id x) rs of None \<Rightarrow> x | Some r \<Rightarrow> r)"
    by (auto simp: write_all_def)
  show ?thesis
  proof (cases "find (\<lambda>r. w_worker_id r = w_worker_id x) rs")
    case None
    then have "w_worker_id x \<notin> w_worker_id ` set rs" by (simp add: find_None_key)
    moreover have "w = x" using w unfolding None by simp
    ultimately show ?thesis using x by simp
  next
    case (Some r)
    then show ?thesis using w by (auto dest: find_Some_in)
  qed
qed

lemma get_written:
  "find (\<lambda>w. w_worker_id w = wid) (write_all rs ws) =
   map_option (\<lambda>w. case find (\<lambda>r. w_worker_id r = wid) rs of None \<Rightarrow> w | Some r \<Rightarrow> r)
     (find (\<lambda>w. w_worker_id w = wid) ws)"
proof (induction ws)
  case (Cons w ws)
  show ?case
  proof (cases "find (\<lambda>r. w_worker_id r = w_worker_id w) rs")
    case None
    then show ?thesis using Cons by (auto simp: write_all_def)
  next
    case (Some r)
    then have "w_worker_id r = w_worker_id w" using find_Some_in [OF Some] by simp
    then show ?thesis using Cons Some by (auto simp: write_all_def)
  qed
qed (simp add: write_all_def)

lemma keeps_schedule_schema: "keeps schema_ok (schedule x)"
  unfolding schedule_def by (rule keeps_puts) (simp add: schema_ok_def table_oks id_sets)

lemma update_workers_wp:
  assumes "\<And>p. p \<in> set ps \<Longrightarrow> sql_int (w_memory_allocated_mb (f p)) \<and> w_account_id (f p) \<in> account_ids s \<and>
      fk (w_cluster_id (f p)) (cluster_ids s)"
    and "distinct (map (\<lambda>p. w_worker_id (f p)) ps)"
  shows "wp (for_each (\<lambda>p. seqa (update_worker (f p)) (schedule (g p))) ps) Q E s =
    Q () (s\<lparr>workers := write_all (map f ps) (workers s), tasks := tasks s @ map g ps\<rparr>)"
  using assms
proof (induction ps arbitrary: s)
  case Nil
  have "write_all [] (workers s) = workers s" by (simp add: write_all_def)
  then show ?case by (simp add: wp_simps)
next
  case (Cons p ps)
  let ?s1 = "s\<lparr>workers := map (\<lambda>w. if w_worker_id w = w_worker_id (f p) then f p else w) (workers s),
      tasks := tasks s @ [g p]\<rparr>"
  have ids: "account_ids ?s1 = account_ids s" "cluster_ids ?s1 = cluster_ids s"
    by (simp_all add: account_ids_def cluster_ids_def)
  have ih: "wp (for_each (\<lambda>p. seqa (update_worker (f p)) (schedule (g p))) ps) Q E ?s1 =
      Q () (?s1\<lparr>workers := write_all (map f ps) (workers ?s1), tasks := tasks ?s1 @ map g ps\<rparr>)"
    by (rule Cons.IH) (use Cons.prems ids in auto)
  have "w_worker_id (f p) \<notin> w_worker_id ` set (map f ps)" using Cons.prems(2) by auto
  then have "write_all (map f ps) (workers ?s1) = write_all (map f (p # ps)) (workers s)"
    using write_all_Cons [of "f p" "map f ps" "workers s"] by simp
  with ih show ?case
    using Cons.prems(1) [of p] by (simp add: wp_simps schedule_def)
qed

lemma release_loop_wp:
  assumes "workers_ok s"
  shows "wp (for_each (\<lambda>wid. bnd (gets (get_worker wid)) (\<lambda>r.
             case r of None \<Rightarrow> ret () | Some w \<Rightarrow> update_worker (release w))) ms) Q E s =
    Q () (s\<lparr>workers := map (\<lambda>w. if w_worker_id w \<in> set ms then release w else w) (workers s)\<rparr>)"
  using assms
proof (induction ms arbitrary: s)
  case Nil
  then show ?case by (simp add: wp_simps)
next
  case (Cons m ms)
  let ?step = "\<lambda>wid. bnd (gets (get_worker wid)) (\<lambda>r.
             case r of None \<Rightarrow> ret () | Some w \<Rightarrow> update_worker (release w))"
  let ?s1 = "s\<lparr>workers := map (\<lambda>w. if w_worker_id w = m then release w else w) (workers s)\<rparr>"
  have first: "wp (?step m) Q' E' s = Q' () ?s1" for Q' E'
  proof (cases "get_worker m s")
    case None
    then have "m \<notin> w_worker_id ` set (workers s)" by (simp add: get_worker_def find_None_key)
    then have "map (\<lambda>w. if w_worker_id w = m then release w else w) (workers s) = workers s"
      by (intro map_update_same) auto
    then show ?thesis using None by (simp add: wp_simps)
  next
    case (Some w)
    then have w: "w \<in> set (workers s)" "w_worker_id w = m" by (auto simp: get_worker_def dest: find_Some_in)
    have one: "x = w" if "x \<in> set (workers s)" "w_worker_id x = m" for x
      using that w Cons.prems distinct_key_eq [of w_worker_id "workers s" x w] by (simp add: workers_ok_def)
    have eq: "map (\<lambda>x. if w_worker_id x = m then release w else x) (workers s) =
        map (\<lambda>x. if w_worker_id x = m then release x else x) (workers s)"
      by (rule map_cong [OF refl]) (use one in auto)
    have mem: "sql_int (w_memory_allocated_mb w)" "w_account_id w \<in> account_ids s"
      using Cons.prems w(1) by (simp_all add: workers_ok_def)
    show ?thesis
      using Some w(2) mem by (simp only: wp_bnd wp_gets option.case wp_update_worker release_simps eq) (simp add: fk_def)
  qed
  have "workers_ok ?s1"
    using Cons.prems map_key_update [of "\<lambda>w. w_worker_id w = m" w_worker_id release "workers s"]
    by (auto simp: workers_ok_def account_ids_def cluster_ids_def fk_def simp del: map_map split: if_splits)
  from Cons.IH [OF this] show ?case
    using first by (simp add: wp_seqa comp_def)
      (rule arg_cong [of _ _ "Q ()"], auto)
qed

section \<open>What formation produces\<close>

lemma find_upt_Some:
  assumes "find P [a..<b] = Some k"
  shows "a \<le> k \<and> k < b \<and> P k \<and> (\<forall>j. a \<le> j \<and> j < k \<longrightarrow> \<not> P j)"
proof -
  obtain i where i: "i < b - a" "P (a + i)" "k = a + i" "\<And>j. j < i \<Longrightarrow> \<not> P (a + j)"
    using assms by (auto simp: find_Some_iff)
  have "\<not> P j" if "a \<le> j \<and> j < k" for j
  proof -
    have "j - a < i" using that i(3) by arith
    then show ?thesis using i(4) that by fastforce
  qed
  then show ?thesis using i by auto
qed

lemma find_upt_least:
  "find P [a..<b] = None \<longleftrightarrow> (\<forall>k \<in> {a..<b}. \<not> P k)"
  "find P [a..<b] = Some k \<longleftrightarrow> k \<in> {a..<b} \<and> P k \<and> (\<forall>j \<in> {a..<k}. \<not> P j)"
proof -
  show none: "find P [a..<b] = None \<longleftrightarrow> (\<forall>k \<in> {a..<b}. \<not> P k)" by (auto simp: find_None_iff)
  show "find P [a..<b] = Some k \<longleftrightarrow> k \<in> {a..<b} \<and> P k \<and> (\<forall>j \<in> {a..<k}. \<not> P j)"
  proof
    assume "find P [a..<b] = Some k"
    from find_upt_Some [OF this] show "k \<in> {a..<b} \<and> P k \<and> (\<forall>j \<in> {a..<k}. \<not> P j)" by auto
  next
    assume k: "k \<in> {a..<b} \<and> P k \<and> (\<forall>j \<in> {a..<k}. \<not> P j)"
    then obtain i where i: "find P [a..<b] = Some i" using none by (cases "find P [a..<b]") auto
    from find_upt_Some [OF i] k have "\<not> i < k" "\<not> k < i" by auto
    then show "find P [a..<b] = Some k" using i by simp
  qed
qed

lemma get_cluster_listed:
  assumes "get_cluster cid s = Some c"
  shows "c \<in> set (list_clusters s)"
proof -
  obtain r where "r \<in> set (clusters s)" "cr_cluster_id r = cid"
    using assms by (rule get_cluster_row)
  then show ?thesis
    using assms by (force simp: list_clusters_def get_cluster_def List.map_filter_def)
qed

lemma next_subnet_free: "next_subnet e s = Inr n \<Longrightarrow> subnet_free n s"
proof -
  assume "next_subnet e s = Inr n"
  then have "n \<notin> set (used_subnets s)"
    by (auto simp: next_subnet_def dest: find_upt_Some split: option.splits)
  then have "c_subnet c \<noteq> n" if "c \<in> set (list_clusters s)" "c_status c \<noteq> terminated" for c
    using that by (auto simp: used_subnets_def)
  then show ?thesis using get_cluster_listed by (auto simp: subnet_free_def)
qed

lemma assign_ips_shape:
  "assign_ips e subnet n = Inr ips \<Longrightarrow> length ips = n \<and> [] \<notin> set ips"
  by (auto simp: assign_ips_def split: list.splits)

lemma dict_of_distinct:
  assumes "distinct (map fst ps)"
  shows "dict_of ps = ps"
proof -
  have snoc: "dict_set k v d = d @ [(k, v)]" if "k \<notin> fst ` set d" for k v and d :: "(string \<times> 'a) list"
    using that by (induction k v d rule: dict_set.induct) auto
  have "foldl (\<lambda>d (k, v). dict_set k v d) d ps = d @ ps" if "distinct (map fst (d @ ps))" for d
    using that assms
  proof (induction ps arbitrary: d)
    case (Cons p ps)
    then have "fst p \<notin> fst ` set d" by auto
    then have "foldl (\<lambda>d (k, v). dict_set k v d) d (p # ps) = foldl (\<lambda>d (k, v). dict_set k v d) (d @ [p]) ps"
      by (cases p) (simp add: snoc)
    then show ?case using Cons.IH [of "d @ [p]"] Cons.prems by simp
  qed simp
  from this [of "[]"] assms show ?thesis by (simp add: dict_of_def)
qed

lemma enumerate_ips:
  "length ips = length ws \<Longrightarrow>
   map (\<lambda>(i, w). (w_worker_id w, ips ! i)) (List.enumerate 0 ws) = zip (map w_worker_id ws) ips"
  by (rule nth_equalityI) (simp_all add: nth_enumerate_eq)

lemma member_ips_zip:
  assumes "distinct ms" and "length ips = length ms" and "[] \<notin> set ips"
  shows "member_ips (zip ms ips) ms = zip ms ips"
proof -
  have "member_ips d ms = zip ms ips" if "\<And>i. i < length ms \<Longrightarrow> map_of d (ms ! i) = Some (ips ! i)" for d
    using assms(2,3) that
  proof (induction ms arbitrary: ips)
    case (Cons m ms)
    then obtain ip ips' where ips: "ips = ip # ips'" by (cases ips) auto
    have "member_ips d ms = zip ms ips'"
    proof (rule Cons.IH)
      show "map_of d (ms ! i) = Some (ips' ! i)" if "i < length ms" for i
        using Cons.prems(3) [of "Suc i"] that ips by simp
    qed (use Cons.prems ips in auto)
    moreover have "map_of d m = Some ip" using Cons.prems(3) [of 0] ips by simp
    ultimately show ?case using Cons.prems(2) ips by (auto simp: member_ips_def List.map_filter_simps)
  qed (simp add: member_ips_def List.map_filter_simps)
  then show ?thesis using assms(1,2) by (simp add: map_of_zip_nth)
qed

text \<open>The outcome of a formation that succeeds.\<close>

definition formed :: "env \<Rightarrow> string \<Rightarrow> pool \<Rightarrow> cluster_rec \<Rightarrow> pool \<Rightarrow> bool" where
  "formed e model s c t \<longleftrightarrow> (\<exists>md chosen tot ips.
     map_of (models (cfg e)) model = Some md \<and>
     choose_members (md_required_memory_mb md) 0 (waitlist model (md_gguf_sha256 md) s) = (chosen, tot) \<and>
     md_required_memory_mb md \<le> tot \<and> chosen \<noteq> [] \<and>
     next_subnet e s = Inr (c_subnet c) \<and> assign_ips e (c_subnet c) (length chosen) = Inr ips \<and>
     c_model c = model \<and> c_members c = map w_worker_id chosen \<and>
     c_ips c = zip (map w_worker_id chosen) ips \<and> new_cluster_ok c \<and>
     c_cluster_id c \<noteq> [] \<and>
     get_cluster (c_cluster_id c) s = None \<and> get_cluster (c_cluster_id c) t = Some c \<and>
     same_clusters_but (c_cluster_id c) s t \<and> store_ok t \<and>
     workers t = write_all (map (assigned_worker (c_cluster_id c) ips) (List.enumerate 0 chosen)) (workers s) \<and>
     tasks t = tasks s @ map (assigned_task e c ips) (List.enumerate 0 chosen) \<and>
     accounts t = accounts s \<and> api_keys t = api_keys s \<and> requests t = requests s \<and>
     same_sessions s t)"

lemma waitlist_in: "w \<in> set (waitlist model g s) \<Longrightarrow> w \<in> set (workers s) \<and> eligible model g (clock s) w"
  by (simp add: waitlist_def list_workers_def)

lemma waitlist_distinct: "distinct (map w_worker_id (workers s)) \<Longrightarrow> distinct (map w_worker_id (waitlist model g s))"
  by (simp add: waitlist_def list_workers_def distinct_map_filter distinct_map)
    (auto intro: inj_on_subset)

lemma store_ok_write:
  assumes "store_ok s" and "schema_ok (s\<lparr>workers := ws, tasks := ts\<rparr>)"
  shows "store_ok (s\<lparr>workers := ws, tasks := ts\<rparr>)"
  using assms ring_ok_cong [of "s\<lparr>workers := ws, tasks := ts\<rparr>" s] by (simp add: store_ok_def)

lemma same_clusters_but_cong:
  "same_clusters_but cid s t \<Longrightarrow> clusters u = clusters t \<Longrightarrow> cluster_members u = cluster_members t \<Longrightarrow>
   same_clusters_but cid s u"
  unfolding same_clusters_but_def using get_cluster_cong [of u t] by (simp add: get_cluster_def)

lemma same_tables_rnd: "same_tables s (s\<lparr>rnd_used := n\<rparr>)"
  by (simp add: same_tables_def)

lemma formed_record_ok:
  assumes "choose_members req 0 (waitlist model g s) = (chosen, tot)" and "chosen \<noteq> []"
    and "workers_ok s" and "assign_ips e subnet (length chosen) = Inr ips"
  shows "distinct (map w_worker_id chosen)"
    and "dict_of (map (\<lambda>(i, w). (w_worker_id w, ips ! i)) (List.enumerate 0 chosen)) = zip (map w_worker_id chosen) ips"
    and "new_cluster_ok \<lparr>c_cluster_id = cid, c_model = model, c_subnet = subnet,
           c_members = map w_worker_id chosen, c_status = assembling, c_ready = {},
           c_created_at = now, c_ips = zip (map w_worker_id chosen) ips, c_layer_windows = None\<rparr>"
proof -
  have ips: "length ips = length chosen" "[] \<notin> set ips" using assign_ips_shape [OF assms(4)] by simp_all
  obtain rest where "waitlist model g s = chosen @ rest" using choose_prefix [OF assms(1)] by blast
  moreover have "distinct (map w_worker_id (waitlist model g s))"
    using assms(3) by (intro waitlist_distinct) (simp add: workers_ok_def)
  ultimately show d: "distinct (map w_worker_id chosen)" by simp
  have "\<exists>ip. map_of (zip (map w_worker_id chosen) ips) m = Some ip \<and> ip \<noteq> []" if m_in: "m \<in> set (map w_worker_id chosen)" for m
  proof -
    let ?ids = "map w_worker_id chosen"
    have len: "length ?ids = length ips" using ips by simp
    obtain i where i: "i < length ?ids" and m: "?ids ! i = m"
      using m_in unfolding in_set_conv_nth by blast
    have "map_of (zip ?ids ips) (?ids ! i) = Some (ips ! i)"
      by (rule map_of_zip_nth [OF len d]) (use i len in simp)
    then have "map_of (zip ?ids ips) m = Some (ips ! i)" unfolding m .
    moreover have "ips ! i \<noteq> []" using ips i len by (metis nth_mem)
    ultimately show ?thesis by blast
  qed
  then show "new_cluster_ok \<lparr>c_cluster_id = cid, c_model = model, c_subnet = subnet,
           c_members = map w_worker_id chosen, c_status = assembling, c_ready = {},
           c_created_at = now, c_ips = zip (map w_worker_id chosen) ips, c_layer_windows = None\<rparr>"
    using d ips assms(2) by (simp add: new_cluster_ok_def member_ips_zip)
  have "dict_of (zip (map w_worker_id chosen) ips) = zip (map w_worker_id chosen) ips"
    using d ips by (intro dict_of_distinct) simp
  then show "dict_of (map (\<lambda>(i, w). (w_worker_id w, ips ! i)) (List.enumerate 0 chosen)) = zip (map w_worker_id chosen) ips"
    using enumerate_ips [of ips chosen] ips by simp
qed

text \<open>The outcome of a formation that does not happen.\<close>

definition declined :: "env \<Rightarrow> string \<Rightarrow> pool \<Rightarrow> bool" where
  "declined e model s \<longleftrightarrow> (case map_of (models (cfg e)) model of None \<Rightarrow> True
     | Some md \<Rightarrow> let wl = waitlist model (md_gguf_sha256 md) s in
         wl = [] \<or> memory wl < md_required_memory_mb md)"

text \<open>The loop that seats the members, and the rest of the formation, which ends with the tunnel.\<close>

lemma seat_members_wp:
  assumes "workers_ok t" and "distinct (map w_worker_id chosen)" and "set chosen \<subseteq> set (workers t)" and "cid \<in> cluster_ids t"
  shows "wp (for_each (\<lambda>p. seqa (update_worker (assigned_worker cid ips p)) (schedule (assigned_task e c ips p)))
       (List.enumerate 0 chosen)) Q E t =
     Q () (t\<lparr>workers := write_all (map (assigned_worker cid ips) (List.enumerate 0 chosen)) (workers t),
        tasks := tasks t @ map (assigned_task e c ips) (List.enumerate 0 chosen)\<rparr>)"
proof (rule update_workers_wp)
  have "map (\<lambda>p. w_worker_id (assigned_worker cid ips p)) (List.enumerate 0 chosen) = map (w_worker_id \<circ> snd) (List.enumerate 0 chosen)"
    by (simp add: assigned_worker_def split_def)
  also have "\<dots> = map w_worker_id chosen" by (simp only: map_map [symmetric] map_snd_enumerate)
  finally show "distinct (map (\<lambda>p. w_worker_id (assigned_worker cid ips p)) (List.enumerate 0 chosen))" using assms(2) by simp
  fix p
  assume "p \<in> set (List.enumerate 0 chosen)"
  then have "snd p \<in> set chosen" by (metis list.set_map map_snd_enumerate imageI)
  then have "snd p \<in> set (workers t)" using assms(3) by blast
  then show "sql_int (w_memory_allocated_mb (assigned_worker cid ips p)) \<and> w_account_id (assigned_worker cid ips p) \<in> account_ids t \<and>
      fk (w_cluster_id (assigned_worker cid ips p)) (cluster_ids t)"
    using assms(1,4) by (simp add: assigned_worker_def split_def workers_ok_def fk_def)
qed

lemma form_rest_wp:
  assumes "store_ok t" and "distinct (map w_worker_id chosen)" and "set chosen \<subseteq> set (workers t)" and "cid \<in> cluster_ids t"
  shows "wp (seqa (for_each (\<lambda>p. seqa (update_worker (assigned_worker cid ips p)) (schedule (assigned_task e c ips p)))
          (List.enumerate 0 chosen))
       (seqa (if enabled e then try_with (wg_up e c (map (assigned_worker cid ips) (List.enumerate 0 chosen))) (\<lambda>_. ret ()) else ret ())
         (ret (Some c))))
     (\<lambda>r u. r = Some c \<and> store_ok u \<and>
        same_but_wg (t\<lparr>workers := write_all (map (assigned_worker cid ips) (List.enumerate 0 chosen)) (workers t),
          tasks := tasks t @ map (assigned_task e c ips) (List.enumerate 0 chosen)\<rparr>) u) (\<lambda>_ _. False) t"
proof -
  let ?ps = "List.enumerate 0 chosen" and ?f = "assigned_worker cid ips"
  let ?t2 = "t\<lparr>workers := write_all (map ?f ?ps) (workers t), tasks := tasks t @ map (assigned_task e c ips) ?ps\<rparr>"
  have "workers_ok t" using assms(1) by (simp add: store_ok_def schema_ok_def)
  note loop = seat_members_wp [OF this assms(2-4)]
  have "keeps schema_ok (for_each (\<lambda>p. seqa (update_worker (?f p)) (schedule (assigned_task e c ips p))) ?ps)"
    by (intro keeps_intros keeps_schema_update_worker keeps_schedule_schema)
  from keeps_wpD [OF this, of t] have "schema_ok ?t2" using assms(1) unfolding loop by (simp add: store_ok_def)
  then have ok2: "store_ok ?t2" by (rule store_ok_write [OF assms(1)])
  have ok: "store_ok u" if u: "same_but_wg ?t2 u" for u
    using ok2 u same_tables_store_ok [of ?t2 u] by (simp add: same_tables_def same_defs)
  have "wp (if enabled e then try_with (wg_up e c (map ?f ?ps)) (\<lambda>_. ret ()) else ret ())
      (\<lambda>_ u. same_but_wg ?t2 u) (\<lambda>_ _. False) ?t2"
  proof (cases "enabled e")
    case True
    then show ?thesis using wg_guarded [OF keeps_wg_up, of e c "map ?f ?ps" ?t2] by simp
  qed (simp add: wp_ret same_defs)
  then show ?thesis
    unfolding wp_seqa loop by (rule wp_conseq) (use ok in \<open>simp_all add: wp_ret\<close>)
qed

lemma next_subnet_same: "same_tables s t \<Longrightarrow> next_subnet e t = next_subnet e s"
proof -
  assume st: "same_tables s t"
  have "load_cluster_members i t = load_cluster_members i s" for i
    using same_tables_get_cluster [OF st] by (simp add: get_cluster_def)
  then show ?thesis using st by (simp add: next_subnet_def used_subnets_def list_clusters_def list_workers_def same_tables_def)
qed

lemma form_chosen_wp:
  assumes "pool_ok s" and md: "map_of (models (cfg e)) model = Some md"
    and ch: "choose_members (md_required_memory_mb md) 0 (waitlist model (md_gguf_sha256 md) s) = (chosen, tot)"
    and tot: "md_required_memory_mb md \<le> tot" and ne: "chosen \<noteq> []" and cid: "cid \<noteq> []"
  shows "wp (form_chosen e model chosen cid) (\<lambda>r t. \<exists>c. r = Some c \<and> formed e model s c t)
     (\<lambda>_ t. t = s\<lparr>rnd_used := Suc (rnd_used s)\<rparr>) (s\<lparr>rnd_used := Suc (rnd_used s)\<rparr>)"
proof -
  let ?s1 = "s\<lparr>rnd_used := Suc (rnd_used s)\<rparr>"
  have st1: "same_tables s ?s1" by (simp add: same_tables_rnd)
  have ok1: "store_ok ?s1" using assms(1) same_tables_store_ok [OF st1] by (simp add: pool_ok_def)
  have wok: "workers_ok s" using assms(1) by (simp add: pool_ok_def store_ok_def schema_ok_def)
  note sub1 = next_subnet_same [OF st1]
  show ?thesis
  proof (cases "next_subnet e s")
    case (Inl x)
    then show ?thesis by (simp add: form_chosen_def wp_simps sub1)
  next
    case subnet: (Inr subnet)
    show ?thesis
    proof (cases "assign_ips e subnet (length chosen)")
      case (Inl x)
      then show ?thesis by (simp add: form_chosen_def wp_simps sub1 subnet)
    next
      case ips: (Inr ips)
      let ?c = "\<lparr>c_cluster_id = cid, c_model = model, c_subnet = subnet,
         c_members = map w_worker_id chosen, c_status = assembling, c_ready = {},
         c_created_at = clock ?s1, c_ips = zip (map w_worker_id chosen) ips, c_layer_windows = None\<rparr>"
      note rec = formed_record_ok [OF ch ne wok ips]
      have in_s: "set chosen \<subseteq> set (workers s)"
        using choose_prefix [OF ch] waitlist_in by (metis Un_iff set_append subsetI)
      have fin: "formed e model s ?c u"
        if t: "get_cluster cid ?s1 = None" "get_cluster cid t = Some ?c" "same_clusters_but cid ?s1 t"
          "t = ?s1\<lparr>clusters := cs, cluster_members := ms\<rparr>"
          and u: "store_ok u" "same_but_wg (t\<lparr>workers := write_all (map (assigned_worker cid ips) (List.enumerate 0 chosen)) (workers t),
            tasks := tasks t @ map (assigned_task e ?c ips) (List.enumerate 0 chosen)\<rparr>) u" for t u cs ms
      proof -
        have g: "get_cluster x u = get_cluster x t" for x
          using u(2) by (intro get_cluster_cong) (simp_all add: same_defs)
        have s1: "get_cluster x ?s1 = get_cluster x s" for x by (rule same_tables_get_cluster [OF st1])
        have "same_clusters_but cid s u" using t(3) g s1 by (simp add: same_clusters_but_def get_cluster_def)
        moreover have "get_cluster cid s = None" and "get_cluster cid u = Some ?c" using t(1,2) g s1 by simp_all
        ultimately show ?thesis
          using md ch tot ne subnet ips rec(3) u t(4) cid unfolding formed_def by (simp add: same_defs)
      qed
      show ?thesis
        unfolding form_chosen_def wp_bnd wp_gets sub1 subnet wp_lift_result sum.case ips Let_def wp_seqa [of "create_cluster _"] rec(2)
      proof (rule wp_conseq)
        show "wp (create_cluster ?c) (\<lambda>_ t. store_ok t \<and> get_cluster cid ?s1 = None \<and> get_cluster cid t = Some ?c \<and>
             same_clusters_but cid ?s1 t \<and> (\<exists>cs ms. t = ?s1\<lparr>clusters := cs, cluster_members := ms\<rparr>))
          (\<lambda>e t. e = IntegrityError \<and> t = ?s1 \<and> cid \<in> cluster_ids ?s1) ?s1"
          using new_cluster_wp [OF ok1 rec(3)] by simp
      next
        fix t
        assume t: "store_ok t \<and> get_cluster cid ?s1 = None \<and> get_cluster cid t = Some ?c \<and>
             same_clusters_but cid ?s1 t \<and> (\<exists>cs ms. t = ?s1\<lparr>clusters := cs, cluster_members := ms\<rparr>)"
        then obtain cs ms where eq: "t = ?s1\<lparr>clusters := cs, cluster_members := ms\<rparr>" by blast
        have "cid \<in> cluster_ids t" using t by (auto simp: cluster_ids_def elim: get_cluster_row)
        moreover have "set chosen \<subseteq> set (workers t)" using in_s eq by simp
        ultimately show "wp (seqa (for_each (\<lambda>p. seqa (update_worker (assigned_worker cid ips p)) (schedule (assigned_task e ?c ips p))) (List.enumerate 0 chosen))
           (seqa (if enabled e then try_with (wg_up e ?c (map (assigned_worker cid ips) (List.enumerate 0 chosen))) (\<lambda>_. ret ()) else ret ())
             (ret (Some ?c)))) (\<lambda>r t. \<exists>c. r = Some c \<and> formed e model s c t) (\<lambda>_ t. t = ?s1) t"
          by (intro wp_conseq [OF form_rest_wp [OF conjunct1 [OF t] rec(1)]]) (use t eq fin in auto)
      qed simp
    qed
  qed
qed

lemma form_cluster_wp:
  assumes "pool_ok s"
  shows "wp (form_cluster e model)
     (\<lambda>r t. case r of None \<Rightarrow> t = s \<and> declined e model s | Some c \<Rightarrow> formed e model s c t)
     (\<lambda>x t. t = s\<lparr>rnd_used := Suc (rnd_used s)\<rparr>) s"
proof (cases "map_of (models (cfg e)) model")
  case None
  then show ?thesis by (simp add: form_cluster_def wp_simps declined_def)
next
  case md: (Some md)
  let ?wl = "waitlist model (md_gguf_sha256 md) s"
  let ?req = "md_required_memory_mb md"
  obtain chosen tot where ch: "choose_members ?req 0 ?wl = (chosen, tot)" by fastforce
  show ?thesis
  proof (cases "?wl = [] \<or> tot < ?req")
    case True
    have "memory ?wl < ?req" if "tot < ?req"
      using choose_short [OF ch that] choose_prefix [OF ch] that by simp
    then have "declined e model s" using True md by (auto simp: declined_def Let_def)
    then show ?thesis using True md ch by (auto simp: form_cluster_def wp_simps)
  next
    case False
    then have "chosen \<noteq> []" using choose_nonempty [OF ch] by blast
    then have "wp (form_chosen e model chosen (''clu_'' @ rnd s (rnd_used s))) (\<lambda>r t. \<exists>c. r = Some c \<and> formed e model s c t)
       (\<lambda>_ t. t = s\<lparr>rnd_used := Suc (rnd_used s)\<rparr>) (s\<lparr>rnd_used := Suc (rnd_used s)\<rparr>)"
      using False by (intro form_chosen_wp [OF assms md ch]) simp_all
    then have "wp (form_chosen e model chosen (''clu_'' @ rnd s (rnd_used s)))
       (\<lambda>r t. case r of None \<Rightarrow> t = s \<and> declined e model s | Some c \<Rightarrow> formed e model s c t)
       (\<lambda>_ t. t = s\<lparr>rnd_used := Suc (rnd_used s)\<rparr>) (s\<lparr>rnd_used := Suc (rnd_used s)\<rparr>)"
      by (rule wp_conseq) auto
    then show ?thesis
      using md False ch by (simp add: form_cluster_def wp_simps new_id_def)
  qed
qed

section \<open>Formation keeps the invariant\<close>

lemma seat_ok_same:
  assumes "seat_ok s w" and "\<And>cid. w_cluster_id w = Some cid \<Longrightarrow> get_cluster cid t = get_cluster cid s"
  shows "seat_ok t w"
  using assms unfolding seat_ok_def by metis

lemma formed_assign_ok:
  assumes "assign_ok s" and "formed e model s c t"
  shows "assign_ok t"
proof -
  let ?cid = "c_cluster_id c"
  obtain chosen ips where c: "c_members c = map w_worker_id chosen" "c_ips c = zip (map w_worker_id chosen) ips"
    "assign_ips e (c_subnet c) (length chosen) = Inr ips" "new_cluster_ok c"
    "get_cluster ?cid s = None" "get_cluster ?cid t = Some c" "same_clusters_but ?cid s t" "?cid \<noteq> []"
    "workers t = write_all (map (assigned_worker ?cid ips) (List.enumerate 0 chosen)) (workers s)"
    using assms(2) unfolding formed_def by blast
  have len: "length (map w_worker_id chosen) = length ips" using assign_ips_shape [OF c(3)] by simp
  have d: "distinct (map w_worker_id chosen)" using c(1,4) by (simp add: new_cluster_ok_def)
  have "seat_ok t w" if w: "w \<in> set (workers t)" for w
  proof -
    from w c(9) consider
        (new) "w \<in> set (map (assigned_worker ?cid ips) (List.enumerate 0 chosen))"
      | (old) "w \<in> set (workers s)"
      by (auto dest: in_write_all)
    then show ?thesis
    proof cases
      case new
      then obtain p where p: "p \<in> set (List.enumerate 0 chosen)" "w = assigned_worker ?cid ips p" by auto
      obtain i x where ix: "p = (i, x)" by fastforce
      with p have i: "i < length chosen" "chosen ! i = x" by (auto simp: in_set_enumerate_eq)
      have "map_of (zip (map w_worker_id chosen) ips) (map w_worker_id chosen ! i) = Some (ips ! i)"
        by (rule map_of_zip_nth [OF len d]) (use i len in simp)
      moreover have "c_status c \<noteq> terminated" using c(4) by (simp add: new_cluster_ok_def)
      ultimately show ?thesis
        using p(2) ix i c(1,2,6,8) by (auto simp: seat_ok_def assigned_worker_def)
    next
      case old
      then have ok: "seat_ok s w" using assms(1) by (simp add: assign_ok_def)
      show ?thesis
      proof (rule seat_ok_same [OF ok])
        fix x
        assume x: "w_cluster_id w = Some x"
        then have "x \<noteq> ?cid" using ok c(5) by (auto simp: seat_ok_def)
        then show "get_cluster x t = get_cluster x s" using c(7) by (simp add: same_clusters_but_def get_cluster_def)
      qed
    qed
  qed
  then show ?thesis by (simp add: assign_ok_def)
qed

lemma formed_pool_ok:
  assumes "pool_ok s" and "formed e model s c t"
  shows "pool_ok t"
proof -
  have c: "get_cluster (c_cluster_id c) t = Some c" "same_clusters_but (c_cluster_id c) s t"
    "next_subnet e s = Inr (c_subnet c)" "store_ok t"
    using assms(2) unfolding formed_def by blast+
  have "subnets_ok t"
    using assms(1) by (intro subnets_new [OF _ c(1,2) next_subnet_free [OF c(3)]]) (simp add: pool_ok_def)
  then show ?thesis
    using formed_assign_ok [OF _ assms(2)] assms(1) c(4) by (simp add: pool_ok_def)
qed

lemma formed_since: "since s0 s \<Longrightarrow> formed e model s c t \<Longrightarrow> since s0 t"
  unfolding formed_def by (blast intro: since_new)

lemma keeps_pool_form: "keeps pool_ok (form_cluster e model)"
proof (rule keepsI)
  fix s :: pool
  assume ok: "pool_ok s"
  have "pool_ok (s\<lparr>rnd_used := Suc (rnd_used s)\<rparr>)"
    using ok same_tables_pool_ok [OF same_tables_rnd] by blast
  then show "wp (form_cluster e model) (\<lambda>_. pool_ok) (\<lambda>_. pool_ok) s"
    by (intro wp_conseq [OF form_cluster_wp [OF ok]])
      (use ok formed_pool_ok in \<open>auto split: option.splits\<close>)
qed

lemma keeps_since_form: "keeps (\<lambda>s. pool_ok s \<and> since s0 s) (form_cluster e model)"
proof (rule keepsI)
  fix s :: pool
  assume ok: "pool_ok s \<and> since s0 s"
  have "since s0 (s\<lparr>rnd_used := Suc (rnd_used s)\<rparr>)"
    using ok same_tables_since [OF same_tables_rnd] by blast
  moreover have "pool_ok (s\<lparr>rnd_used := Suc (rnd_used s)\<rparr>)"
    using ok same_tables_pool_ok [OF same_tables_rnd] by blast
  ultimately show "wp (form_cluster e model) (\<lambda>_ t. pool_ok t \<and> since s0 t) (\<lambda>_ t. pool_ok t \<and> since s0 t) s"
    using ok formed_pool_ok [of s e model] formed_since [of s0 s e model]
    by (intro wp_conseq [OF form_cluster_wp]) (auto split: option.splits)
qed

section \<open>What dissolution does\<close>

definition dissolved :: "pool \<Rightarrow> cluster_rec \<Rightarrow> string \<Rightarrow> pool \<Rightarrow> bool" where
  "dissolved s c reason t \<longleftrightarrow>
     store_ok t \<and> evolves s t \<and> get_cluster (c_cluster_id c) t = Some (c\<lparr>c_status := terminated\<rparr>) \<and>
     same_clusters_but (c_cluster_id c) s t \<and>
     workers t = map (\<lambda>w. if w_worker_id w \<in> set (c_members c) then release w else w) (workers s) \<and>
     tasks t = tasks s @ [NotifyDissolved (c_members c) (ClusterDissolved (c_cluster_id c) reason)] \<and>
     accounts t = accounts s \<and> api_keys t = api_keys s \<and> requests t = requests s \<and>
     same_sessions s t"

lemma get_cluster_id: "get_cluster cid s = Some c \<Longrightarrow> c_cluster_id c = cid"
  by (elim get_cluster_row) (simp add: hydrate_def)

lemma dissolve_wp:
  assumes "store_ok s" and "get_cluster cid s = Some c"
  shows "wp (dissolve_cluster e c reason) (\<lambda>_ t. dissolved s c reason t) (\<lambda>_ _. False) s"
proof -
  have id: "c_cluster_id c = cid" by (rule get_cluster_id [OF assms(2)])
  let ?ws = "map (\<lambda>w. if w_worker_id w \<in> set (c_members c) then release w else w) (workers s)"
  let ?s1 = "s\<lparr>workers := ?ws\<rparr>"
  have wok: "workers_ok s" using assms(1) by (simp add: store_ok_def schema_ok_def)
  note loop = release_loop_wp [OF wok, of "c_members c"]
  have "keeps schema_ok (for_each (\<lambda>wid. bnd (gets (get_worker wid)) (\<lambda>r.
             case r of None \<Rightarrow> ret () | Some w \<Rightarrow> update_worker (release w))) (c_members c))"
    by (intro keeps_intros keeps_schema_update_worker)
  from keeps_wpD [OF this, of s] have "schema_ok ?s1" using assms(1) unfolding loop by (simp add: store_ok_def)
  then have ok1: "store_ok ?s1"
    using assms(1) ring_ok_cong [of ?s1 s] by (simp add: store_ok_def)
  have g1: "get_cluster x ?s1 = get_cluster x s" for x by (rule get_cluster_cong) simp_all
  have fin: "dissolved s c reason (u\<lparr>tasks := tasks u @ [NotifyDissolved (c_members c) (ClusterDissolved (c_cluster_id c) reason)]\<rparr>)"
    if t: "store_ok t" "evolves ?s1 t" "get_cluster cid t = Some (c\<lparr>c_status := terminated\<rparr>)"
      "same_clusters_but cid ?s1 t" "t = ?s1\<lparr>clusters := cs\<rparr>" and u: "same_but_wg t u" for t u cs
  proof -
    let ?v = "u\<lparr>tasks := tasks u @ [NotifyDissolved (c_members c) (ClusterDissolved (c_cluster_id c) reason)]\<rparr>"
    have g: "get_cluster x ?v = get_cluster x t" for x
      by (rule get_cluster_cong) (use u in \<open>simp_all add: same_defs\<close>)
    have "same_tables t ?v" using u by (simp add: same_tables_def same_defs)
    then have "store_ok ?v" using t(1) same_tables_store_ok by blast
    moreover have "evolves s ?v" using t(2) unfolding evolves_def g g1 .
    moreover have "same_clusters_but cid s ?v"
      using t(4) g g1 by (simp add: same_clusters_but_def get_cluster_def)
    ultimately show ?thesis using g t(3,5) u id by (simp add: dissolved_def same_defs)
  qed
  have wg: "wp (if enabled e then try_with (wg_down e (c_cluster_id c)) (\<lambda>_. ret ()) else ret ())
      (\<lambda>_ u. same_but_wg t u) (\<lambda>_ _. False) t" for t
  proof (cases "enabled e")
    case True
    then show ?thesis using wg_guarded [OF keeps_wg_down] by simp
  qed (simp add: wp_ret same_defs)
  show ?thesis
    unfolding dissolve_cluster_def wp_seqa loop
  proof (rule wp_conseq [OF terminate_cluster_wp [OF ok1]])
    show "get_cluster cid ?s1 = Some c" using g1 assms(2) by simp
    fix x t
    assume t: "store_ok t \<and> evolves ?s1 t \<and> get_cluster cid t = Some (c\<lparr>c_status := terminated\<rparr>) \<and>
      same_clusters_but cid ?s1 t \<and> (\<exists>cs. t = ?s1\<lparr>clusters := cs\<rparr>)"
    show "wp (if enabled e then try_with (wg_down e (c_cluster_id c)) (\<lambda>_. ret ()) else ret ())
      (\<lambda>_. wp (schedule (NotifyDissolved (c_members c) (ClusterDissolved (c_cluster_id c) reason)))
         (\<lambda>_. dissolved s c reason) (\<lambda>_ _. False)) (\<lambda>_ _. False) t"
      by (rule wp_conseq [OF wg]) (use fin t in \<open>auto simp: schedule_def wp_puts\<close>)
  qed simp
qed

lemma dissolved_get_worker:
  assumes "dissolved s c reason t"
  shows "get_worker i t = map_option (\<lambda>w. if i \<in> set (c_members c) then release w else w) (get_worker i s)"
proof -
  let ?f = "\<lambda>w. if w_worker_id w \<in> set (c_members c) then release w else w"
  have "get_worker i t = map_option ?f (get_worker i s)"
    using assms by (simp add: dissolved_def get_worker_def find_map_update)
  then show ?thesis by (cases "get_worker i s") (auto simp: get_worker_def dest: find_Some_in)
qed

text \<open>
  Dissolution repairs the worker side: it is enough that every worker outside the ring is seated.
\<close>

lemma dissolved_pool_ok:
  assumes "subnets_ok s" and "get_cluster cid s = Some c" and "dissolved s c reason t"
    and "\<And>w. w \<in> set (workers s) \<Longrightarrow> w_worker_id w \<notin> set (c_members c) \<Longrightarrow> seat_ok s w"
  shows "pool_ok t"
proof -
  have id: "c_cluster_id c = cid" by (rule get_cluster_id [OF assms(2)])
  have "seat_ok t w" if w: "w \<in> set (workers t)" for w
  proof -
    from w obtain x where x: "x \<in> set (workers s)" "w = (if w_worker_id x \<in> set (c_members c) then release x else x)"
      using assms(3) by (auto simp: dissolved_def)
    show ?thesis
    proof (cases "w_worker_id x \<in> set (c_members c)")
      case True
      then show ?thesis using x by (simp add: seat_ok_def)
    next
      case False
      then have ok: "seat_ok s x" by (rule assms(4) [OF x(1)])
      have "seat_ok t x"
      proof (rule seat_ok_same [OF ok])
        fix i
        assume i: "w_cluster_id x = Some i"
        have "i \<noteq> cid"
        proof
          assume "i = cid"
          then obtain j where "j < length (c_members c)" "c_members c ! j = w_worker_id x"
            using ok i assms(2) by (auto simp: seat_ok_def)
          then show False using False nth_mem by metis
        qed
        then show "get_cluster i t = get_cluster i s"
          using assms(3) id by (simp add: dissolved_def same_clusters_but_def get_cluster_def)
      qed
      then show ?thesis using x(2) False by simp
    qed
  qed
  moreover have "subnets_ok t" using assms(1,3) subnets_evolves by (auto simp: dissolved_def)
  ultimately show ?thesis using assms(3) by (simp add: pool_ok_def assign_ok_def dissolved_def)
qed

section \<open>Members before and after\<close>

lemma assigned_ids: "map w_worker_id (map (assigned_worker cid ips) (List.enumerate n ws)) = map w_worker_id ws"
  by (induction ws arbitrary: n) (simp_all add: assigned_worker_def)

lemma formed_members:
  assumes "pool_ok s" and "formed e model s c t"
  shows "c_model c = model \<and> distinct (c_members c) \<and>
        (\<forall>i < length (c_members c). \<exists>md w. map_of (models (cfg e)) model = Some md \<and>
           get_worker (c_members c ! i) s = Some w \<and> eligible model (md_gguf_sha256 md) (clock s) w \<and>
           get_worker (c_members c ! i) t = Some (w\<lparr>w_status := assigned, w_cluster_id := Some (c_cluster_id c),
             w_assigned_ip := map_of (c_ips c) (w_worker_id w), w_ring_position := Some i\<rparr>)) \<and>
        (\<forall>wid. wid \<notin> set (c_members c) \<longrightarrow> get_worker wid t = get_worker wid s)"
proof -
  let ?cid = "c_cluster_id c"
  obtain md chosen tot ips where f: "map_of (models (cfg e)) model = Some md"
    "choose_members (md_required_memory_mb md) 0 (waitlist model (md_gguf_sha256 md) s) = (chosen, tot)"
    "assign_ips e (c_subnet c) (length chosen) = Inr ips"
    "c_model c = model" "c_members c = map w_worker_id chosen" "c_ips c = zip (map w_worker_id chosen) ips"
    "new_cluster_ok c"
    "workers t = write_all (map (assigned_worker ?cid ips) (List.enumerate 0 chosen)) (workers s)"
    using assms(2) unfolding formed_def by blast
  have len: "length (map w_worker_id chosen) = length ips" using assign_ips_shape [OF f(3)] by simp
  have d: "distinct (map w_worker_id chosen)" using f(5,7) by (simp add: new_cluster_ok_def)
  have wd: "distinct (map w_worker_id (workers s))"
    using assms by (simp add: pool_ok_def store_ok_def schema_ok_def workers_ok_def)
  let ?rs = "map (assigned_worker ?cid ips) (List.enumerate 0 chosen)"
  have at: "get_worker wid t = map_option (\<lambda>w. case find (\<lambda>r. w_worker_id r = wid) ?rs of None \<Rightarrow> w | Some r \<Rightarrow> r)
      (get_worker wid s)" for wid
    using f(8) by (simp add: get_worker_def get_written)
  have member: "\<exists>md w. map_of (models (cfg e)) model = Some md \<and>
      get_worker (c_members c ! i) s = Some w \<and> eligible model (md_gguf_sha256 md) (clock s) w \<and>
      get_worker (c_members c ! i) t = Some (w\<lparr>w_status := assigned, w_cluster_id := Some ?cid,
        w_assigned_ip := map_of (c_ips c) (w_worker_id w), w_ring_position := Some i\<rparr>)"
    if i: "i < length (c_members c)" for i
  proof -
    let ?w = "chosen ! i"
    have i': "i < length chosen" and id: "c_members c ! i = w_worker_id ?w" using i f(5) by simp_all
    then have "?w \<in> set (waitlist model (md_gguf_sha256 md) s)"
      using choose_prefix [OF f(2)] by auto
    then have w: "?w \<in> set (workers s)" "eligible model (md_gguf_sha256 md) (clock s) ?w"
      using waitlist_in by blast+
    have gs: "get_worker (w_worker_id ?w) s = Some ?w"
      unfolding get_worker_def by (rule find_eq_key [OF wd w(1)]) simp
    have "assigned_worker ?cid ips (i, ?w) \<in> set ?rs"
      using i' by (force simp: in_set_enumerate_eq)
    moreover have "distinct (map w_worker_id ?rs)" unfolding assigned_ids by (rule d)
    ultimately have "find (\<lambda>r. w_worker_id r = w_worker_id ?w) ?rs = Some (assigned_worker ?cid ips (i, ?w))"
      by (intro find_eq_key) (simp_all add: assigned_worker_def)
    moreover have "map_of (c_ips c) (w_worker_id ?w) = Some (ips ! i)"
      using map_of_zip_nth [OF len d, of i] i' len f(6) by simp
    ultimately have "get_worker (w_worker_id ?w) t = Some (?w\<lparr>w_status := assigned, w_cluster_id := Some ?cid,
        w_assigned_ip := map_of (c_ips c) (w_worker_id ?w), w_ring_position := Some i\<rparr>)"
      using at gs by (simp add: assigned_worker_def)
    then show ?thesis using f(1) gs w(2) id by auto
  qed
  have other: "get_worker wid t = get_worker wid s" if "wid \<notin> set (c_members c)" for wid
  proof -
    have "wid \<notin> w_worker_id ` set ?rs"
      using that f(5) assigned_ids [of ?cid ips 0 chosen] by (metis list.set_map)
    then have "find (\<lambda>r. w_worker_id r = wid) ?rs = None" by (simp add: find_None_key)
    then show ?thesis using at by (simp add: option.map_ident)
  qed
  show ?thesis using f(4,5) d member other by simp
qed

section \<open>Addresses\<close>

lemma split_prefix:
  assumes "split_on CHR ''.'' pre = [a, b]"
  shows "pre = a @ ''.'' @ b"
  using join_split [of "CHR ''.''" pre] assms by simp

lemma no_dot_suffix: "split_on CHR ''.'' ''0/24'' = [''0/24'']"
  by simp

lemma split_candidate:
  assumes "split_on CHR ''.'' (cluster_subnet_prefix (cfg e)) = [a, b]"
  shows "split_on CHR ''.'' (candidate_subnet e k) = [a, b, str_nat k, ''0/24'']"
proof -
  have "candidate_subnet e k = cluster_subnet_prefix (cfg e) @ CHR ''.'' # (str_nat k @ CHR ''.'' # ''0/24'')"
    by (simp add: candidate_subnet_def)
  then show ?thesis
    by (simp only: split_on_append_sep assms split_on_plain [OF str_nat_no_dot] no_dot_suffix) simp
qed

lemma subnet_of_member_ip:
  assumes "split_on CHR ''.'' (cluster_subnet_prefix (cfg e)) = [a, b]"
  shows "subnet_of_ip (Some (cluster_subnet_prefix (cfg e) @ ''.'' @ str_nat k @ ''.'' @ str_nat i)) =
    Some (candidate_subnet e k)"
proof -
  let ?ip = "cluster_subnet_prefix (cfg e) @ ''.'' @ str_nat k @ ''.'' @ str_nat i"
  have "?ip = cluster_subnet_prefix (cfg e) @ CHR ''.'' # (str_nat k @ CHR ''.'' # str_nat i)" by simp
  then have "split_on CHR ''.'' ?ip = [a, b, str_nat k, str_nat i]"
    by (simp only: split_on_append_sep assms split_on_plain [OF str_nat_no_dot]) simp
  then show ?thesis using split_prefix [OF assms] by (simp add: subnet_of_ip_def candidate_subnet_def)
qed

lemma assign_ips_candidate:
  assumes "split_on CHR ''.'' (cluster_subnet_prefix (cfg e)) = [a, b]"
  shows "assign_ips e (candidate_subnet e k) n =
    Inr (map (\<lambda>i. cluster_subnet_prefix (cfg e) @ ''.'' @ str_nat k @ ''.'' @ str_nat i) [1..<n + 1])"
  by (simp add: assign_ips_def split_candidate [OF assms])

lemma next_subnet_candidate:
  assumes "next_subnet e s = Inr n"
  obtains k where "1 \<le> k" and "k < 256" and "n = candidate_subnet e k" and "n \<notin> set (used_subnets s)"
    and "\<And>j. 1 \<le> j \<and> j < k \<Longrightarrow> candidate_subnet e j \<in> set (used_subnets s)"
  using assms by (auto simp: next_subnet_def dest!: find_upt_Some split: option.splits)

lemma used_by_worker:
  "n \<notin> set (used_subnets s) \<Longrightarrow> w \<in> set (workers s) \<Longrightarrow> subnet_of_ip (w_assigned_ip w) \<noteq> Some n"
  by (force simp: used_subnets_def list_workers_def List.map_filter_def)

lemma formed_addresses:
  assumes "formed e model s c t" and "split_on CHR ''.'' (cluster_subnet_prefix (cfg e)) = [a, b]"
  shows "\<exists>k. 1 \<le> k \<and> k \<le> 255 \<and> c_subnet c = candidate_subnet e k \<and>
        (\<forall>j. 1 \<le> j \<and> j < k \<longrightarrow> candidate_subnet e j \<in> set (used_subnets s)) \<and>
        subnet_free (c_subnet c) s \<and> (\<forall>w \<in> set (workers s). subnet_of_ip (w_assigned_ip w) \<noteq> Some (c_subnet c)) \<and>
        (\<forall>i < length (c_members c). \<exists>ip. map_of (c_ips c) (c_members c ! i) = Some ip \<and>
           ip = cluster_subnet_prefix (cfg e) @ ''.'' @ str_nat k @ ''.'' @ str_nat (i + 1) \<and>
           subnet_of_ip (Some ip) = Some (c_subnet c)) \<and>
        distinct (map snd (c_ips c))"
proof -
  obtain chosen :: "worker_rec list" and ips where f: "next_subnet e s = Inr (c_subnet c)" "assign_ips e (c_subnet c) (length chosen) = Inr ips" "c_members c = map w_worker_id chosen"
    "c_ips c = zip (map w_worker_id chosen) ips" "new_cluster_ok c"
    using assms(1) unfolding formed_def by blast
  obtain k where k: "1 \<le> k" "k < 256" "c_subnet c = candidate_subnet e k" "c_subnet c \<notin> set (used_subnets s)"
    "\<And>j. 1 \<le> j \<and> j < k \<Longrightarrow> candidate_subnet e j \<in> set (used_subnets s)"
    using next_subnet_candidate [OF f(1)] by metis
  let ?ip = "\<lambda>i. cluster_subnet_prefix (cfg e) @ ''.'' @ str_nat k @ ''.'' @ str_nat i"
  have ips: "ips = map ?ip [1..<length chosen + 1]"
    using f(2) unfolding k(3) assign_ips_candidate [OF assms(2)] by simp
  have d: "distinct (map w_worker_id chosen)" using f(3,5) by (simp add: new_cluster_ok_def)
  have len: "length (map w_worker_id chosen) = length ips" using assign_ips_shape [OF f(2)] by simp
  have "\<exists>ip. map_of (c_ips c) (c_members c ! i) = Some ip \<and> ip = ?ip (i + 1) \<and> subnet_of_ip (Some ip) = Some (c_subnet c)"
    if "i < length (c_members c)" for i
  proof -
    have i: "i < length chosen" using that f(3) by simp
    have "map_of (c_ips c) (c_members c ! i) = Some (ips ! i)"
      unfolding f(3,4) by (rule map_of_zip_nth [OF len d]) (use i len in simp)
    moreover have "ips ! i = ?ip (i + 1)" using i by (simp add: ips del: upt_Suc)
    ultimately show ?thesis using subnet_of_member_ip [OF assms(2)] k(3) by simp
  qed
  moreover have "distinct (map snd (c_ips c))"
    using len by (simp add: f(4) ips distinct_map inj_on_def del: upt_Suc)
  moreover have "subnet_free (c_subnet c) s" by (rule next_subnet_free [OF f(1)])
  ultimately show ?thesis
    using k used_by_worker [OF k(4)] by (intro exI [of _ k]) auto
qed

section \<open>Properties\<close>

definition demo_settings :: settings where
  "demo_settings = \<lparr>host = ''0.0.0.0'', port = 8000, public_base_url = ''http://p'', session_ttl_s = 3600, session_secret = ''s'',
     heartbeat_timeout_s = 30, heartbeat_interval_s = 10, assignable_grace_s = 5,
     max_workers_per_account = 5, work_permissionless = True, use_permissionless = True,
     first_account = [], models = [(''m'', \<lparr>md_slug = ''m'', md_gguf_sha256 = ''h'', md_required_memory_mb = 16\<rparr>)],
     api_port = 8080, cluster_subnet_prefix = ''10.23'', wg_mtu = 1280, wg_persistent_keepalive = 25,
     server_wg_private_key = [], server_wg_listen_port = 51821, server_wg_interface = ''prima-pool-srv'',
     server_wg_conf_dir = ''/etc/wireguard'', server_wg_endpoint_host = [],
     server_wg_ip_offset = 254, server_join_wg = False, relay_enabled = False, relay_pubkey = [],
     relay_endpoint = [], ws_reconnect_backoff_s = [1, 30]\<rparr>"

definition demo_env :: env where
  "demo_env = \<lparr>cfg = demo_settings, prim = demo_crypto, has_wg_quick = True, has_wg = True,
     x25519_public = (\<lambda>k. rev k), x25519_generate = (\<lambda>r. take 32 (r @ replicate 32 CHR ''-'')),
     wg_outcome = (\<lambda>_. None), json_loads = demo_loads, json_text = (\<lambda>_. []), ipv6 = (\<lambda>_. None)\<rparr>"

definition demo_worker :: "string \<Rightarrow> rat \<Rightarrow> worker_rec" where
  "demo_worker wid t = \<lparr>w_worker_id = wid, w_account_id = ''acc_1'', w_model = ''m'', w_gguf_sha256 = ''h'',
     w_memory_allocated_mb = 8, w_wg_pubkey = wid, w_endpoint = Some \<lparr>e_host = ''203.0.113.7'', e_port = 51820,
       e_behind_nat = False, e_nat_type = nat_none\<rparr>, w_hardware = None, w_status = waitlisted, w_online = True,
     w_last_heartbeat = 90, w_assignable_at = 95, w_cluster_id = None, w_assigned_ip = None,
     w_ring_position = None, w_created_at = t\<rparr>"

definition demo_account :: account_rec where
  "demo_account = \<lparr>a_account_id = ''acc_1'', a_username = ''ann'', a_password_hash = ''x'', a_created_at = 1,
     a_is_admin = True, a_can_work = True, a_can_use = True, a_banned = False\<rparr>"

text \<open>Three waiting workers, of which the first two suffice.\<close>

definition demo_pool :: pool where
  "demo_pool = \<lparr>clock = 100, rnd = str_nat, rnd_used = 0, accounts = [demo_account], api_keys = [],
     workers = [demo_worker ''a'' 2, demo_worker ''b'' 1, demo_worker ''c'' 3], clusters = [],
     cluster_members = [], requests = [], wg_private = ''k'', wg_public = ''K'', wg_log = [], tasks = [],
     conns = [], sent = [], accepting = [], socks = [], flights = [], admitted = [], calls = []\<rparr>"

lemma no_clusters:
  "clusters s = [] \<Longrightarrow> get_cluster cid s = None"
  by (simp add: get_cluster_def load_cluster_members_def cluster_row_of_def)

lemma demo_pool_ok: "pool_ok demo_pool"
proof -
  have g: "get_cluster cid demo_pool = None" for cid by (rule no_clusters) (simp add: demo_pool_def)
  have "schema_ok demo_pool"
    by (simp add: schema_ok_def table_oks id_sets demo_pool_def demo_worker_def demo_account_def fk_def sql_int_def)
  moreover have "ring_ok demo_pool" by (simp add: ring_ok_def demo_pool_def)
  moreover have "assign_ok demo_pool" by (simp add: assign_ok_def seat_ok_def demo_pool_def demo_worker_def)
  moreover have "subnets_ok demo_pool" by (simp add: subnets_ok_def g)
  ultimately show ?thesis by (simp add: pool_ok_def store_ok_def)
qed

lemma demo_waitlist: "waitlist ''m'' ''h'' demo_pool = [demo_worker ''b'' 1, demo_worker ''a'' 2, demo_worker ''c'' 3]"
  by (simp add: waitlist_def list_workers_def eligible_def demo_pool_def demo_worker_def)

text \<open>C1: Formation is first come, first served and takes no more than it needs: a formed cluster consists
  of the first \<open>n\<close> workers of the waitlist, in waitlist order (the oldest is the head); together
  they have the memory that the model requires, and no shorter non-empty prefix has it. It is declined, with
  the pool unchanged, exactly when the model is unknown, nobody waits, or the whole waitlist is too
  small. An exception (no free subnet, id clash) leaves the pool as it was.\<close>

theorem form_cluster_fifo:
  assumes "pool_ok s"
  shows "wp (form_cluster e model)
     (\<lambda>r t. case r of None \<Rightarrow> t = s \<and> declined e model s
        | Some c \<Rightarrow> \<exists>md n. map_of (models (cfg e)) model = Some md \<and>
            (let wl = waitlist model (md_gguf_sha256 md) s in
               0 < n \<and> n \<le> length wl \<and> c_members c = map w_worker_id (take n wl) \<and>
               md_required_memory_mb md \<le> memory (take n wl) \<and>
               (\<forall>k. 0 < k \<and> k < n \<longrightarrow> memory (take k wl) < md_required_memory_mb md)))
     (\<lambda>x t. t = s\<lparr>rnd_used := Suc (rnd_used s)\<rparr>) s"
proof (rule wp_conseq [OF form_cluster_wp [OF assms]])
  fix r t
  assume *: "case r of None \<Rightarrow> t = s \<and> declined e model s | Some c \<Rightarrow> formed e model s c t"
  show "case r of None \<Rightarrow> t = s \<and> declined e model s
        | Some c \<Rightarrow> \<exists>md n. map_of (models (cfg e)) model = Some md \<and>
            (let wl = waitlist model (md_gguf_sha256 md) s in
               0 < n \<and> n \<le> length wl \<and> c_members c = map w_worker_id (take n wl) \<and>
               md_required_memory_mb md \<le> memory (take n wl) \<and>
               (\<forall>k. 0 < k \<and> k < n \<longrightarrow> memory (take k wl) < md_required_memory_mb md))"
  proof (cases r)
    case None
    then show ?thesis using * by simp
  next
    case (Some c)
    then obtain md chosen tot where md: "map_of (models (cfg e)) model = Some md"
      and ch: "choose_members (md_required_memory_mb md) 0 (waitlist model (md_gguf_sha256 md) s) = (chosen, tot)"
      and enough: "md_required_memory_mb md \<le> tot" "chosen \<noteq> []" and members: "c_members c = map w_worker_id chosen"
      using * unfolding formed_def same_sessions_def by auto
    let ?wl = "waitlist model (md_gguf_sha256 md) s"
    obtain rest where rest: "?wl = chosen @ rest" and tot: "tot = memory chosen" using choose_prefix [OF ch] by auto
    have "memory (take k ?wl) < md_required_memory_mb md" if "0 < k \<and> k < length chosen" for k
      using choose_shortest [OF ch, of "take k chosen" "chosen ! k" "drop (Suc k) chosen"] that rest enough(2)
      by (simp add: id_take_nth_drop [symmetric])
    then have "\<exists>n. 0 < n \<and> n \<le> length ?wl \<and> c_members c = map w_worker_id (take n ?wl) \<and>
        md_required_memory_mb md \<le> memory (take n ?wl) \<and>
        (\<forall>k. 0 < k \<and> k < n \<longrightarrow> memory (take k ?wl) < md_required_memory_mb md)"
      using rest tot enough members by (intro exI [of _ "length chosen"]) simp
    then show ?thesis using Some md by (simp add: Let_def)
  qed
qed

theorem form_cluster_fifo_witness:
  "wp (form_cluster demo_env ''m'')
     (\<lambda>r t. case r of None \<Rightarrow> False | Some c \<Rightarrow> c_members c = [''b'', ''a''])
     (\<lambda>x t. t = demo_pool\<lparr>rnd_used := 1\<rparr>) demo_pool"
proof (rule wp_conseq [OF form_cluster_fifo [OF demo_pool_ok, of demo_env "''m''"]])
  let ?md = "\<lparr>md_slug = ''m'', md_gguf_sha256 = ''h'', md_required_memory_mb = 16\<rparr>"
  have md: "map_of (models (cfg demo_env)) ''m'' = Some ?md" by (simp add: demo_env_def demo_settings_def)
  have mem: "w_memory_allocated_mb (demo_worker i t) = 8" "w_worker_id (demo_worker i t) = i" for i t
    by (simp_all add: demo_worker_def)
  show "case r of None \<Rightarrow> False | Some c \<Rightarrow> c_members c = [''b'', ''a'']"
    if *: "case r of None \<Rightarrow> t = demo_pool \<and> declined demo_env ''m'' demo_pool
        | Some c \<Rightarrow> \<exists>md n. map_of (models (cfg demo_env)) ''m'' = Some md \<and>
            (let wl = waitlist ''m'' (md_gguf_sha256 md) demo_pool in
               0 < n \<and> n \<le> length wl \<and> c_members c = map w_worker_id (take n wl) \<and>
               md_required_memory_mb md \<le> memory (take n wl) \<and>
               (\<forall>k. 0 < k \<and> k < n \<longrightarrow> memory (take k wl) < md_required_memory_mb md))" for r t
  proof (cases r)
    case None
    then show ?thesis using * md by (simp add: declined_def demo_waitlist Let_def memory_def mem)
  next
    case (Some c)
    then obtain n where n: "0 < n" "n \<le> 3"
      "c_members c = map w_worker_id (take n [demo_worker ''b'' 1, demo_worker ''a'' 2, demo_worker ''c'' 3])"
      "16 \<le> memory (take n [demo_worker ''b'' 1, demo_worker ''a'' 2, demo_worker ''c'' 3])"
      "\<And>k. 0 < k \<and> k < n \<Longrightarrow> memory (take k [demo_worker ''b'' 1, demo_worker ''a'' 2, demo_worker ''c'' 3]) < 16"
      using * md by (auto simp: Let_def demo_waitlist)
    have "n = 1 \<or> n = 2 \<or> n = 3" using n(1,2) by arith
    then show ?thesis
      using n(3,4) n(5) [of 2] Some by (auto simp: memory_def mem numeral_2_eq_2 numeral_3_eq_3)
  qed
qed (simp add: demo_pool_def)

text \<open>C11: A cluster never mixes models or quantizations and never takes a worker that may not be taken:
  when a cluster is formed, every member was a worker of the pool that serves the cluster's model with
  the registered GGUF hash, waitlisted, online and past its grace period; afterwards its row says
  that it is assigned to this cluster, with its ring position and its address in the cluster, and the
  rows of all other workers are unchanged.\<close>

theorem form_cluster_members:
  assumes "pool_ok s"
  shows "wp (form_cluster e model)
     (\<lambda>r t. \<forall>c. r = Some c \<longrightarrow> c_model c = model \<and> distinct (c_members c) \<and>
        (\<forall>i < length (c_members c). \<exists>md w. map_of (models (cfg e)) model = Some md \<and>
           get_worker (c_members c ! i) s = Some w \<and> eligible model (md_gguf_sha256 md) (clock s) w \<and>
           get_worker (c_members c ! i) t = Some (w\<lparr>w_status := assigned, w_cluster_id := Some (c_cluster_id c),
             w_assigned_ip := map_of (c_ips c) (w_worker_id w), w_ring_position := Some i\<rparr>)) \<and>
        (\<forall>wid. wid \<notin> set (c_members c) \<longrightarrow> get_worker wid t = get_worker wid s))
     (\<lambda>_ _. True) s"
  by (rule wp_conseq [OF form_cluster_wp [OF assms]])
    (intro allI impI, rule formed_members [OF assms], simp, simp)

theorem form_cluster_members_witness:
  "wp (form_cluster demo_env ''m'')
     (\<lambda>r t. \<forall>c. r = Some c \<longrightarrow> (\<forall>wid. wid \<notin> set (c_members c) \<longrightarrow> get_worker wid t = get_worker wid demo_pool))
     (\<lambda>_ _. True) demo_pool"
  by (rule wp_conseq [OF form_cluster_members [OF demo_pool_ok]]) simp_all

text \<open>C12: Addresses: a formed cluster gets the subnet \<open>prefix.k.0/24\<close> for the least \<open>k\<close> in 1..255
  that neither an active cluster nor the address of any worker still uses, and the member at ring position
  \<open>i\<close> gets \<open>prefix.k.(i+1)\<close>, which lies in that subnet; so no two members share an address, and none
  has an address of another active cluster.\<close>

theorem form_cluster_addresses:
  assumes "pool_ok s" and "split_on CHR ''.'' (cluster_subnet_prefix (cfg e)) = [a, b]"
  shows "wp (form_cluster e model)
     (\<lambda>r t. \<forall>c. r = Some c \<longrightarrow> (\<exists>k. 1 \<le> k \<and> k \<le> 255 \<and> c_subnet c = candidate_subnet e k \<and>
        (\<forall>j. 1 \<le> j \<and> j < k \<longrightarrow> candidate_subnet e j \<in> set (used_subnets s)) \<and>
        subnet_free (c_subnet c) s \<and> (\<forall>w \<in> set (workers s). subnet_of_ip (w_assigned_ip w) \<noteq> Some (c_subnet c)) \<and>
        (\<forall>i < length (c_members c). \<exists>ip. map_of (c_ips c) (c_members c ! i) = Some ip \<and>
           ip = cluster_subnet_prefix (cfg e) @ ''.'' @ str_nat k @ ''.'' @ str_nat (i + 1) \<and>
           subnet_of_ip (Some ip) = Some (c_subnet c)) \<and>
        distinct (map snd (c_ips c))))
     (\<lambda>_ _. True) s"
  by (rule wp_conseq [OF form_cluster_wp [OF assms(1)]])
    (intro allI impI, rule formed_addresses [OF _ assms(2)], simp, simp)

lemma demo_prefix: "split_on CHR ''.'' (cluster_subnet_prefix (cfg demo_env)) = [''10'', ''23'']"
  by (simp add: demo_env_def demo_settings_def)

theorem form_cluster_addresses_witness:
  "wp (form_cluster demo_env ''m'')
     (\<lambda>r t. \<forall>c. r = Some c \<longrightarrow> distinct (map snd (c_ips c)))
     (\<lambda>_ _. True) demo_pool"
  by (rule wp_conseq [OF form_cluster_addresses [OF demo_pool_ok demo_prefix]]) auto

text \<open>A subnet is taken while an active cluster has it or a worker still holds an address in it.\<close>

definition subnet_taken :: "string \<Rightarrow> pool \<Rightarrow> bool" where
  "subnet_taken n s \<longleftrightarrow>
     (\<exists>c \<in> set (list_clusters s). c_status c \<noteq> terminated \<and> c_subnet c = n) \<or>
     (\<exists>w \<in> set (workers s). subnet_of_ip (w_assigned_ip w) = Some n)"

lemma used_iff_taken: "n \<in> set (used_subnets s) \<longleftrightarrow> subnet_taken n s"
  by (force simp: used_subnets_def subnet_taken_def list_workers_def List.map_filter_def)

text \<open>C20: Subnet allocation answers with the least candidate subnet that is not taken by an active cluster
  or by an address that a worker still holds (terminated clusters do not hold theirs), and it fails,
  with a \<open>RuntimeError\<close>, exactly when all 255 candidates are taken.\<close>

theorem next_subnet_exhausted:
  "(next_subnet e s = Inl (RuntimeError ''no free cluster subnets'') \<longleftrightarrow>
      (\<forall>k \<in> {1..<256}. subnet_taken (candidate_subnet e k) s)) \<and>
   (\<forall>n. next_subnet e s = Inr n \<longleftrightarrow>
      (\<exists>k \<in> {1..<256}. n = candidate_subnet e k \<and> \<not> subnet_taken n s \<and>
         (\<forall>j \<in> {1..<k}. subnet_taken (candidate_subnet e j) s)))"
proof -
  define r where "r = find (\<lambda>k. candidate_subnet e k \<notin> set (used_subnets s)) [1..<256]"
  note least = find_upt_least [of "\<lambda>k. candidate_subnet e k \<notin> set (used_subnets s)" 1 256, folded r_def,
      unfolded used_iff_taken not_not]
  have nx: "next_subnet e s = (case r of Some k \<Rightarrow> Inr (candidate_subnet e k)
      | None \<Rightarrow> Inl (RuntimeError ''no free cluster subnets''))"
    unfolding next_subnet_def r_def by (rule refl)
  have none: "next_subnet e s = Inl (RuntimeError ''no free cluster subnets'') \<longleftrightarrow> r = None"
    unfolding nx by (cases r) simp_all
  have some: "next_subnet e s = Inr n \<longleftrightarrow> (\<exists>k. r = Some k \<and> n = candidate_subnet e k)" for n
    unfolding nx by (cases r) auto
  have "(\<exists>k. (k \<in> A \<and> \<not> T (c k) \<and> R k) \<and> n = c k) \<longleftrightarrow> (\<exists>k \<in> A. n = c k \<and> \<not> T n \<and> R k)"
    for A :: "nat set" and T R and c :: "nat \<Rightarrow> string" and n by auto
  note move = this [of "{1..<256}" "\<lambda>n. subnet_taken n s" "candidate_subnet e"
      "\<lambda>k. \<forall>j \<in> {1..<k}. subnet_taken (candidate_subnet e j) s"]
  show ?thesis unfolding none some least by (intro conjI allI refl move)
qed

theorem next_subnet_exhausted_witness: "next_subnet demo_env demo_pool = Inr ''10.23.1.0/24''"
proof -
  have "\<not> subnet_taken (candidate_subnet demo_env 1) demo_pool"
    by (simp add: subnet_taken_def demo_pool_def list_clusters_def demo_worker_def subnet_of_ip_def map_filter_simps)
  then have "next_subnet demo_env demo_pool = Inr (candidate_subnet demo_env 1)"
    unfolding conjunct2 [OF next_subnet_exhausted, rule_format] by (intro bexI [of _ 1]) auto
  then show ?thesis by (simp add: candidate_subnet_def demo_env_def demo_settings_def str_nat.simps digit_def)
qed

text \<open>C6: Dissolution: of a cluster read from a consistent pool, it never raises; the cluster is then
  terminated and otherwise as it was, its members that still exist are back on the waitlist with no
  cluster, address or position, all other workers and clusters are untouched, and one notification
  for exactly the members is scheduled. Nothing else changes: no worker is lost, the accounts, the keys,
  the request log, the connections, what was sent, the chat calls and the clock are as they were; only
  the WireGuard side may be called on. The pool is consistent again, even when workers of the ring (and only
  those) were not.\<close>

theorem dissolve_cluster_releases:
  assumes "store_ok s" and "subnets_ok s" and "get_cluster cid s = Some c"
    and "\<forall>w \<in> set (workers s). w_worker_id w \<notin> set (c_members c) \<longrightarrow> seat_ok s w"
  shows "wp (dissolve_cluster e c reason)
     (\<lambda>_ t. pool_ok t \<and> get_cluster cid t = Some (c\<lparr>c_status := terminated\<rparr>) \<and> same_clusters_but cid s t \<and>
        (\<forall>wid. get_worker wid t = map_option (\<lambda>w. if wid \<in> set (c_members c)
           then w\<lparr>w_status := waitlisted, w_cluster_id := None, w_assigned_ip := None, w_ring_position := None\<rparr>
           else w) (get_worker wid s)) \<and>
        tasks t = tasks s @ [NotifyDissolved (c_members c) (ClusterDissolved cid reason)] \<and>
        map w_worker_id (workers t) = map w_worker_id (workers s) \<and>
        accounts t = accounts s \<and> api_keys t = api_keys s \<and> requests t = requests s \<and> same_sessions s t)
     (\<lambda>_ _. False) s"
proof (rule wp_conseq [OF dissolve_wp [OF assms(1,3)]])
  fix x t
  assume t: "dissolved s c reason t"
  have id: "c_cluster_id c = cid" by (rule get_cluster_id [OF assms(3)])
  have "pool_ok t" using assms(4) by (intro dissolved_pool_ok [OF assms(2,3) t]) blast
  moreover note dissolved_get_worker [OF t]
  ultimately show "pool_ok t \<and> get_cluster cid t = Some (c\<lparr>c_status := terminated\<rparr>) \<and> same_clusters_but cid s t \<and>
        (\<forall>wid. get_worker wid t = map_option (\<lambda>w. if wid \<in> set (c_members c)
           then w\<lparr>w_status := waitlisted, w_cluster_id := None, w_assigned_ip := None, w_ring_position := None\<rparr>
           else w) (get_worker wid s)) \<and>
        tasks t = tasks s @ [NotifyDissolved (c_members c) (ClusterDissolved cid reason)] \<and>
        map w_worker_id (workers t) = map w_worker_id (workers s) \<and>
        accounts t = accounts s \<and> api_keys t = api_keys s \<and> requests t = requests s \<and> same_sessions s t"
    using t id unfolding dissolved_def release_def by simp
qed simp

text \<open>A pool with one assembling cluster of the workers a and b, and c waiting.\<close>

definition seated_pool :: pool where
  "seated_pool = demo_pool\<lparr>workers := [
       assigned_worker ''clu_1'' [''10.23.1.1'', ''10.23.1.2''] (0, demo_worker ''a'' 2),
       assigned_worker ''clu_1'' [''10.23.1.1'', ''10.23.1.2''] (1, demo_worker ''b'' 1),
       demo_worker ''c'' 3],
     clusters := [cluster_to_row demo_cluster],
     cluster_members := map (member_row_of demo_cluster) (List.enumerate 0 (c_members demo_cluster))\<rparr>"

lemma get_seated: "get_cluster i seated_pool = (if i = ''clu_1'' then Some demo_cluster else None)"
proof -
  have new: "c_cluster_id demo_cluster \<notin> cluster_ids demo_pool"
    and none: "cluster_members demo_pool = []" by (simp_all add: demo_pool_def cluster_ids_def)
  have "get_cluster i (demo_pool\<lparr>clusters := clusters demo_pool @ [cluster_to_row demo_cluster],
      cluster_members := cluster_members demo_pool @ map (member_row_of demo_cluster)
        (List.enumerate 0 (c_members demo_cluster))\<rparr>) =
      (if i = c_cluster_id demo_cluster then Some demo_cluster else get_cluster i demo_pool)"
    unfolding get_cluster_def by (rule load_new_cluster [OF _ new demo_cluster_wf]) (simp add: none)
  moreover have "get_cluster i demo_pool = None" by (rule no_clusters) (simp add: demo_pool_def)
  moreover have "c_cluster_id demo_cluster = ''clu_1''" by (simp add: demo_cluster_def)
  moreover have "get_cluster i seated_pool = get_cluster i (demo_pool\<lparr>clusters := clusters demo_pool @ [cluster_to_row demo_cluster],
      cluster_members := cluster_members demo_pool @ map (member_row_of demo_cluster)
        (List.enumerate 0 (c_members demo_cluster))\<rparr>)"
    by (rule get_cluster_cong) (simp_all add: seated_pool_def demo_pool_def)
  ultimately show ?thesis by simp
qed

lemma seated_pool_ok: "pool_ok seated_pool"
proof -
  have rows: "cluster_members seated_pool = [member_row_of demo_cluster (0, ''a''), member_row_of demo_cluster (1, ''b'')]"
    by (simp add: seated_pool_def demo_cluster_def)
  have cl: "clusters seated_pool = [cluster_to_row demo_cluster]" by (simp add: seated_pool_def)
  have "schema_ok seated_pool"
    using rows cl by (simp add: schema_ok_def table_oks id_sets demo_cluster_def cluster_to_row_def)
      (simp add: seated_pool_def demo_pool_def demo_worker_def demo_account_def fk_def sql_int_def
        assigned_worker_def cluster_to_row_def demo_cluster_def)
  moreover have "ring_ok seated_pool"
    using rows cl by (simp add: ring_ok_def ring_def rows_of_def rows_ok_def cluster_to_row_def demo_cluster_def upt_rec)
  moreover have "assign_ok seated_pool"
    unfolding assign_ok_def seat_ok_def get_seated
    by (simp add: seated_pool_def assigned_worker_def demo_worker_def demo_cluster_def)
  moreover have "subnets_ok seated_pool" by (simp add: subnets_ok_def get_seated)
  ultimately show ?thesis by (simp add: pool_ok_def store_ok_def)
qed

theorem dissolve_cluster_releases_witness:
  "wp (dissolve_cluster demo_env demo_cluster ''member_left'')
     (\<lambda>_ t. pool_ok t \<and> get_cluster ''clu_1'' t = Some (demo_cluster\<lparr>c_status := terminated\<rparr>))
     (\<lambda>_ _. False) seated_pool"
proof -
  have "store_ok seated_pool" "subnets_ok seated_pool" "get_cluster ''clu_1'' seated_pool = Some demo_cluster"
    "\<forall>w \<in> set (workers seated_pool). w_worker_id w \<notin> set (c_members demo_cluster) \<longrightarrow> seat_ok seated_pool w"
    using seated_pool_ok by (auto simp: pool_ok_def assign_ok_def get_seated)
  from dissolve_cluster_releases [OF this] show ?thesis by (rule wp_conseq) simp_all
qed

lemma member_peers_all:
  assumes "\<forall>m \<in> set ms. \<exists>p. member_peer e c m = Inr p"
  shows "\<exists>ps. member_peers e c ms = Inr ps \<and> length ps = length ms \<and>
    (\<forall>i < length ms. member_peer e c (ms ! i) = Inr (ps ! i))"
  using assms
proof (induction ms)
  case (Cons m ms)
  then obtain p ps where "member_peer e c m = Inr p" "member_peers e c ms = Inr ps" "length ps = length ms"
    "\<forall>i < length ms. member_peer e c (ms ! i) = Inr (ps ! i)" by auto
  then show ?case by (auto simp: nth_Cons split: nat.split)
qed simp

lemma map_filter_total:
  "(\<forall>x \<in> set xs. \<exists>y. f x = Some y) \<Longrightarrow> length (List.map_filter f xs) = length xs \<and>
   (\<forall>i < length xs. f (xs ! i) = Some (List.map_filter f xs ! i))"
  by (induction xs) (auto simp: List.map_filter_simps nth_Cons split: nat.split)

lemma cluster_ip_of_member:
  assumes "store_ok s" and "get_cluster cid s = Some c" and "wid \<in> set (c_members c)"
  shows "\<exists>ip. map_of (c_ips c) wid = Some ip \<and> ip \<noteq> []"
proof -
  obtain r where r: "r \<in> set (clusters s)" "cr_cluster_id r = cid" and c: "c = hydrate r (ring cid s)"
    using assms(2) by (rule get_cluster_row)
  have ok: "rows_ok r (ring cid s)" using assms(1) r by (auto simp: store_ok_def ring_ok_def)
  obtain m where m: "m \<in> set (ring cid s)" "cm_worker_id m = wid"
    using assms(3) c by (auto simp: hydrate_def)
  then obtain ip where ip: "cm_assigned_ip m = Some ip" "ip \<noteq> []" using ok by (auto simp: rows_ok_def)
  have "map_of (ips_of_rows (ring cid s)) (cm_worker_id m) = Some ip"
    by (rule map_of_ips_of_rows [OF ring_rows_distinct [OF ok] m(1) ip])
  then show ?thesis using m(2) ip(2) c by (simp add: hydrate_def)
qed

text \<open>C19: The configuration that a member fetches lists the ring: for a cluster whose members are all still
  registered with an endpoint, building it never raises, peer number \<open>i\<close> is the ring member number
  \<open>i\<close> with its public key and exactly its own cluster address, and the control plane comes last, marked
  as server, if and only if it joins the network. The tables are not touched.\<close>

theorem config_follows_ring:
  assumes "store_ok s" and "get_cluster cid s = Some c" and "server_ip e (c_subnet c) = Inr sip"
    and "\<forall>wid \<in> set (c_members c). \<exists>w ep. get_worker wid s = Some w \<and> w_endpoint w = Some ep"
  shows "wp (build_cluster_config e c)
     (\<lambda>cf t. same_but_wg s t \<and> cc_subnet cf = c_subnet c \<and>
        length (cc_peers cf) = length (c_members c) + (if enabled e then 1 else 0) \<and>
        (\<forall>i < length (c_members c). \<exists>w ip. get_worker (c_members c ! i) s = Some w \<and>
           map_of (c_ips c) (c_members c ! i) = Some ip \<and> pr_pubkey (cc_peers cf ! i) = w_wg_pubkey w \<and>
           pr_allowed_ips (cc_peers cf ! i) = [ip @ ''/32''] \<and> pr_role (cc_peers cf ! i) = None) \<and>
        (enabled e \<longrightarrow> pr_role (last (cc_peers cf)) = Some ''server'' \<and>
           pr_allowed_ips (last (cc_peers cf)) = [sip @ ''/32'']))
     (\<lambda>_ _. False) s"
proof -
  let ?ws = "List.map_filter (\<lambda>wid. get_worker wid s) (c_members c)"
  have ws: "length ?ws = length (c_members c)"
    "\<And>i. i < length (c_members c) \<Longrightarrow> get_worker (c_members c ! i) s = Some (?ws ! i)"
    using map_filter_total [of "c_members c" "\<lambda>wid. get_worker wid s"] assms(4) by blast+
  have one: "\<exists>ip. map_of (c_ips c) (c_members c ! i) = Some ip \<and> w_worker_id (?ws ! i) = c_members c ! i \<and>
      (\<exists>ep. w_endpoint (?ws ! i) = Some ep)" if "i < length (c_members c)" for i
  proof -
    have "c_members c ! i \<in> set (c_members c)" using that by simp
    moreover have "w_worker_id (?ws ! i) = c_members c ! i"
      using ws(2) [OF that] by (auto simp: get_worker_def dest: find_Some_in)
    ultimately show ?thesis
      using cluster_ip_of_member [OF assms(1,2)] assms(4) ws(2) [OF that] by fastforce
  qed
  have "\<forall>m \<in> set ?ws. \<exists>p. member_peer e c m = Inr p"
    using one ws(1) by (fastforce simp: in_set_conv_nth member_peer_def)
  then obtain ps where ps: "member_peers e c ?ws = Inr ps" "length ps = length (c_members c)"
    "\<And>i. i < length (c_members c) \<Longrightarrow> member_peer e c (?ws ! i) = Inr (ps ! i)"
    using member_peers_all [of ?ws e c] ws(1) by auto
  have rows: "\<exists>w ip. get_worker (c_members c ! i) s = Some w \<and> map_of (c_ips c) (c_members c ! i) = Some ip \<and>
      pr_pubkey (ps ! i) = w_wg_pubkey w \<and> pr_allowed_ips (ps ! i) = [ip @ ''/32''] \<and> pr_role (ps ! i) = None"
    if "i < length (c_members c)" for i
    using one [OF that] ws(2) [OF that] ps(3) [OF that] by (cases "ps ! i") (auto simp: member_peer_def)
  have server: "wp (server_peer e c) (\<lambda>p t. same_but_wg s t \<and> pr_role p = Some ''server'' \<and>
      pr_allowed_ips p = [sip @ ''/32'']) (\<lambda>_ _. False) s"
    by (simp add: server_peer_def public_key_def new_keys_def generate_keypair_def wp_simps assms(3) same_defs Let_def)
  show ?thesis
  proof (cases "enabled e")
    case False
    then show ?thesis using ps(1,2) rows
      by (simp add: build_cluster_config_def wp_simps same_defs)
  next
    case True
    have "wp (server_peer e c) (\<lambda>p t. same_but_wg s t \<and>
        length (ps @ [p]) = length (c_members c) + 1 \<and>
        (\<forall>i < length (c_members c). \<exists>w ip. get_worker (c_members c ! i) s = Some w \<and>
           map_of (c_ips c) (c_members c ! i) = Some ip \<and> pr_pubkey ((ps @ [p]) ! i) = w_wg_pubkey w \<and>
           pr_allowed_ips ((ps @ [p]) ! i) = [ip @ ''/32''] \<and> pr_role ((ps @ [p]) ! i) = None) \<and>
        pr_role (last (ps @ [p])) = Some ''server'' \<and> pr_allowed_ips (last (ps @ [p])) = [sip @ ''/32''])
      (\<lambda>_ _. False) s"
      by (rule wp_conseq [OF server]) (use ps(2) rows in \<open>simp_all add: nth_append\<close>)
    then show ?thesis using True ps(1)
      by (simp add: build_cluster_config_def wp_simps wp_funs)
  qed
qed

theorem config_follows_ring_witness:
  "wp (build_cluster_config demo_env demo_cluster)
     (\<lambda>cf t. length (cc_peers cf) = 2 \<and> pr_allowed_ips (cc_peers cf ! 0) = [''10.23.1.1/32''])
     (\<lambda>_ _. False) seated_pool"
proof -
  have "store_ok seated_pool" "get_cluster ''clu_1'' seated_pool = Some demo_cluster"
    using seated_pool_ok by (simp_all add: pool_ok_def get_seated)
  moreover have "server_ip demo_env (c_subnet demo_cluster) = Inr ''10.23.1.254''"
    by (simp add: server_ip_def demo_cluster_def demo_env_def demo_settings_def str_int_def str_nat.simps digit_def)
  moreover have "\<forall>wid \<in> set (c_members demo_cluster). \<exists>w ep. get_worker wid seated_pool = Some w \<and> w_endpoint w = Some ep"
    by (simp add: demo_cluster_def get_worker_def seated_pool_def assigned_worker_def demo_worker_def)
  ultimately show ?thesis
    by (rule wp_conseq [OF config_follows_ring])
      (auto simp: demo_cluster_def demo_env_def demo_settings_def enabled_def dest: spec [of _ "0::nat"])
qed

text \<open>C21: The address plan has no upper bound on the members: in a cluster of at least 254 members, the
  member at ring position 253 gets the very address that the server takes for itself with the
  default offset.\<close>

theorem member_254_takes_server_address:
  assumes "split_on CHR ''.'' (cluster_subnet_prefix (cfg e)) = [a, b]" and "server_wg_ip_offset (cfg e) = 254"
    and "254 \<le> n"
  shows "\<exists>ips. assign_ips e (candidate_subnet e k) n = Inr ips \<and> server_ip e (candidate_subnet e k) = Inr (ips ! 253)"
proof -
  have "server_ip e (candidate_subnet e k) = Inr (a @ ''.'' @ b @ ''.'' @ str_nat k @ ''.'' @ str_nat 254)"
    using assms(2) by (simp add: server_ip_def split_candidate [OF assms(1)] str_int_def)
  moreover have "map (\<lambda>i. cluster_subnet_prefix (cfg e) @ ''.'' @ str_nat k @ ''.'' @ str_nat i) [1..<n + 1] ! 253 =
      cluster_subnet_prefix (cfg e) @ ''.'' @ str_nat k @ ''.'' @ str_nat 254"
    using assms(3) by (simp del: upt_Suc)
  ultimately show ?thesis
    unfolding assign_ips_candidate [OF assms(1)] using split_prefix [OF assms(1)] by simp
qed

theorem member_254_takes_server_address_witness:
  "\<exists>ips. assign_ips demo_env (candidate_subnet demo_env 1) 254 = Inr ips \<and>
     server_ip demo_env (candidate_subnet demo_env 1) = Inr (ips ! 253)"
  by (rule member_254_takes_server_address [OF demo_prefix]) (simp_all add: demo_env_def demo_settings_def)

end
