(* ===== verification/Pool_Router.thy ===== *)
theory Pool_Router
  imports Pool_Scheduler
begin

text \<open>
  router.py: which cluster serves a model, and where its head listens; and the two public views of
  app.py that read the clusters, \<open>list_models\<close> and \<open>cluster_info\<close>.
\<close>

definition find_live_cluster :: "string \<Rightarrow> 'z db_scheme \<Rightarrow> cluster_rec option" where
  "find_live_cluster model s =
     find (\<lambda>c. c_model c = model \<and> c_status c = live) (list_clusters s)"

definition head_ip :: "cluster_rec \<Rightarrow> string option" where
  "head_ip c = (case c_members c of [] \<Rightarrow> None | head_id # _ \<Rightarrow> map_of (c_ips c) head_id)"

definition head_url :: "env \<Rightarrow> cluster_rec \<Rightarrow> string option" where
  "head_url e c =
     (case head_ip c of None \<Rightarrow> None
      | Some ip \<Rightarrow> if ip = [] then None
          else Some (''http://'' @ ip @ '':'' @ str_int (api_port (cfg e))))"

text \<open>\<open>GET /v1/models\<close>: slug, hash, memory, and whether a live cluster serves the slug.\<close>

definition list_models :: "env \<Rightarrow> 'z db_scheme \<Rightarrow> (string \<times> string \<times> int \<times> bool) list" where
  "list_models e s =
     (let live_models = map c_model (filter (\<lambda>c. c_status c = live) (list_clusters s)) in
      map (\<lambda>md. (md_slug md, md_gguf_sha256 md, md_required_memory_mb md, md_slug md \<in> set live_models))
        (map snd (models (cfg e))))"

text \<open>\<open>GET /v1/clusters/{id}/info\<close>: members in ring order with their windows.\<close>

definition cluster_info :: "string \<Rightarrow> 'z db_scheme \<Rightarrow>
    exn + (string \<times> string \<times> cluster_status \<times> (string \<times> int option) list)" where
  "cluster_info cid s =
     (case get_cluster cid s of None \<Rightarrow> Inl (not_found_error ''Cluster does not exist.'')
      | Some c \<Rightarrow>
         (let lw = (case c_layer_windows c of None \<Rightarrow> [] | Some d \<Rightarrow> d) in
          Inr (c_cluster_id c, c_model c, c_status c, map (\<lambda>wid. (wid, map_of lw wid)) (c_members c))))"

section \<open>Lemmas\<close>

lemma listed_get_cluster:
  "c \<in> set (list_clusters s) \<Longrightarrow> get_cluster (c_cluster_id c) s = Some c"
proof -
  assume "c \<in> set (list_clusters s)"
  then obtain r :: cluster_row where r: "load_cluster_members (cr_cluster_id r) s = Some c"
    by (auto simp: list_clusters_def List.map_filter_def)
  then have "get_cluster (cr_cluster_id r) s = Some c" by (simp add: get_cluster_def)
  moreover from get_cluster_id [OF this] have "c_cluster_id c = cr_cluster_id r" .
  ultimately show ?thesis by simp
qed

lemma live_cluster_complete:
  assumes "store_ok s" and "get_cluster cid s = Some c" and "c_status c = live"
  shows "c_ready c = set (c_members c) \<and> c_layer_windows c \<noteq> None"
    and "c_members c \<noteq> []"
proof -
  obtain r where r: "r \<in> set (clusters s)" "cr_cluster_id r = cid" and c: "c = hydrate r (ring cid s)"
    using assms(2) by (rule get_cluster_row)
  have ok: "rows_ok r (ring cid s)" using assms(1) r by (auto simp: store_ok_def ring_ok_def)
  have lv: "cr_status r = live" using assms(3) c by (simp add: hydrate_def)
  show ne: "c_members c \<noteq> []" using ok c by (simp add: rows_ok_def hydrate_def)
  have "filter cm_ready (ring cid s) = ring cid s" using ok lv by (simp add: rows_ok_def filter_id_conv)
  moreover obtain m where "m \<in> set (ring cid s)" using ok by (cases "ring cid s") (auto simp: rows_ok_def)
  then have "cr_distribution_reported r" using ok lv by (auto simp: rows_ok_def)
  ultimately show "c_ready c = set (c_members c) \<and> c_layer_windows c \<noteq> None"
    using c by (simp add: hydrate_def)
qed

lemma live_route:
  assumes "store_ok s" and "find_live_cluster model s = Some c"
  shows "get_cluster (c_cluster_id c) s = Some c \<and> c_model c = model \<and> c_status c = live \<and>
        c_ready c = set (c_members c) \<and> c_layer_windows c \<noteq> None \<and>
        (\<exists>ip. map_of (c_ips c) (hd (c_members c)) = Some ip \<and>
           head_url e c = Some (''http://'' @ ip @ '':'' @ str_int (api_port (cfg e))))"
proof -
  have c: "c \<in> set (list_clusters s)" "c_model c = model" "c_status c = live"
    using assms(2) by (auto simp: find_live_cluster_def dest: find_Some_in)
  note get = listed_get_cluster [OF c(1)]
  note full = live_cluster_complete [OF assms(1) get c(3)]
  obtain h ms where h: "c_members c = h # ms" using full(2) by (cases "c_members c") auto
  obtain ip where "map_of (c_ips c) h = Some ip" "ip \<noteq> []"
    using cluster_ip_of_member [OF assms(1) get, of h] h by auto
  then show ?thesis using c get full(1) h by (auto simp: head_url_def head_ip_def)
qed

section \<open>Properties\<close>

text \<open>C10: Requests are only routed to a working cluster: a cluster that the router finds serves the model, is
  live, has every member ready and a reported layer distribution, and has a head with an address, so
  the proxy target exists (the "no head to route to" answer is unreachable). The router finds one
  whenever some live cluster serves the model.\<close>

theorem router_finds_complete_cluster:
  assumes "store_ok s"
  shows "case find_live_cluster model s of
      None \<Rightarrow> \<forall>cid c. get_cluster cid s = Some c \<longrightarrow> \<not> (c_model c = model \<and> c_status c = live)
    | Some c \<Rightarrow> get_cluster (c_cluster_id c) s = Some c \<and> c_model c = model \<and> c_status c = live \<and>
        c_ready c = set (c_members c) \<and> c_layer_windows c \<noteq> None \<and>
        (\<exists>ip. map_of (c_ips c) (hd (c_members c)) = Some ip \<and>
           head_url e c = Some (''http://'' @ ip @ '':'' @ str_int (api_port (cfg e))))"
proof (cases "find_live_cluster model s")
  case None
  then have "\<not> (c_model c = model \<and> c_status c = live)" if "c \<in> set (list_clusters s)" for c
    using that by (auto simp: find_live_cluster_def find_None_iff)
  then show ?thesis using get_cluster_listed [of _ s] unfolding None option.case by blast
next
  case (Some c)
  then show ?thesis using live_route [OF assms Some, of e] by simp
qed

definition live_pool :: pool where
  "live_pool = seated_pool\<lparr>
     clusters := [(cluster_to_row demo_cluster)\<lparr>cr_status := live, cr_distribution_reported := True\<rparr>],
     cluster_members := map (\<lambda>m. m\<lparr>cm_ready := True\<rparr>) (cluster_members seated_pool)\<rparr>"

lemma live_pool_ok: "store_ok live_pool"
proof -
  have rows: "cluster_members live_pool = [(member_row_of demo_cluster (0, ''a''))\<lparr>cm_ready := True\<rparr>,
      (member_row_of demo_cluster (1, ''b''))\<lparr>cm_ready := True\<rparr>]"
    by (simp add: live_pool_def seated_pool_def demo_cluster_def)
  have cl: "clusters live_pool = [(cluster_to_row demo_cluster)\<lparr>cr_status := live, cr_distribution_reported := True\<rparr>]"
    by (simp add: live_pool_def)
  have "schema_ok live_pool"
    using rows cl by (simp add: schema_ok_def table_oks id_sets demo_cluster_def cluster_to_row_def)
      (simp add: live_pool_def seated_pool_def demo_pool_def demo_worker_def demo_account_def fk_def sql_int_def
        assigned_worker_def cluster_to_row_def demo_cluster_def)
  moreover have "ring_ok live_pool"
    using rows cl by (simp add: ring_ok_def ring_def rows_of_def rows_ok_def cluster_to_row_def demo_cluster_def upt_rec)
  ultimately show ?thesis by (simp add: store_ok_def)
qed

lemma live_pool_route: "find_live_cluster ''m'' live_pool =
    Some (demo_cluster\<lparr>c_status := live, c_ready := {''a'', ''b''}, c_layer_windows := Some []\<rparr>)"
  by (simp add: find_live_cluster_def list_clusters_def live_pool_def seated_pool_def load_cluster_members_def
      cluster_row_of_def rows_of_def cluster_to_row_def hydrate_def ips_of_rows_def windows_of_rows_def
      demo_cluster_def List.map_filter_simps member_row_of_def insert_commute)

theorem router_finds_complete_cluster_witness:
  "\<exists>c. find_live_cluster ''m'' live_pool = Some c \<and> head_url demo_env c = Some ''http://10.23.1.1:8080''"
  using router_finds_complete_cluster [OF live_pool_ok, of "''m''" demo_env]
  by (auto simp: live_pool_route demo_cluster_def demo_env_def demo_settings_def str_int_def str_nat.simps digit_def)

text \<open>The public model list tells the truth: a model is shown as live exactly when the router would
  find a cluster for it.\<close>

theorem list_models_live:
  "list_models e s = map (\<lambda>md. (md_slug md, md_gguf_sha256 md, md_required_memory_mb md,
     find_live_cluster (md_slug md) s \<noteq> None)) (map snd (models (cfg e)))"
  by (auto simp: list_models_def find_live_cluster_def find_None_iff image_iff)

end
