(* ===== verification/Pool_Config.thy ===== *)
theory Pool_Config
  imports Pool_Router
begin

text \<open>
  config.py: the parsing of the environment, in particular the model registry
  \<open>PRIMA_POOL_MODELS\<close>. The value of an environment variable is an optional string.
\<close>

definition lower_char :: "char \<Rightarrow> char" where
  "lower_char c = (let n = of_char c :: nat in if 65 \<le> n \<and> n \<le> 90 then char_of (n + 32) else c)"

definition env_bool :: "string option \<Rightarrow> bool \<Rightarrow> bool" where
  "env_bool raw dflt =
     (case raw of None \<Rightarrow> dflt
      | Some r \<Rightarrow> map lower_char (strip r) \<in> {''1'', ''true'', ''yes'', ''on''})"

definition env_int :: "string option \<Rightarrow> int \<Rightarrow> exn + int" where
  "env_int raw dflt = (case raw of None \<Rightarrow> Inr dflt | Some r \<Rightarrow> py_int r)"

text \<open>One chunk of the registry: a skipped chunk is \<open>None\<close>.\<close>

definition parse_chunk :: "string \<Rightarrow> model_def option" where
  "parse_chunk raw =
     (let chunk = strip raw in
      if chunk = [] then None
      else
        (let parts = split_on CHR '':'' chunk; name = strip (hd parts) in
         if name = [] then None
         else Some \<lparr>md_slug = name,
           md_gguf_sha256 = (if length parts > 1 then strip (parts ! 1) else []),
           md_required_memory_mb =
             (if length parts > 2
              then (case py_int (parts ! 2) of Inr n \<Rightarrow> n | Inl _ \<Rightarrow> 4096) else 4096)\<rparr>))"

definition parse_models :: "string option \<Rightarrow> model_def dict" where
  "parse_models env =
     (let raw = (case env of None \<Rightarrow> ''demo-model:<no-hash>:4096'' | Some r \<Rightarrow> r) in
      foldl (\<lambda>d chunk. case parse_chunk chunk of None \<Rightarrow> d | Some md \<Rightarrow> dict_set (md_slug md) md d)
        [] (split_on CHR '','' raw))"

text \<open>How an operator writes a registry.\<close>

definition print_model :: "model_def \<Rightarrow> string" where
  "print_model md = md_slug md @ '':'' @ md_gguf_sha256 md @ '':'' @ str_int (md_required_memory_mb md)"

definition print_models :: "model_def list \<Rightarrow> string" where
  "print_models mds = join_with CHR '','' (map print_model mds)"

definition plain :: "string \<Rightarrow> bool" where
  "plain s \<longleftrightarrow> strip s = s \<and> CHR '','' \<notin> set s \<and> CHR '':'' \<notin> set s"

definition printable :: "model_def \<Rightarrow> bool" where
  "printable md \<longleftrightarrow> plain (md_slug md) \<and> md_slug md \<noteq> [] \<and> plain (md_gguf_sha256 md) \<and>
     length (str_int (md_required_memory_mb md)) \<le> 4300"

lemma int_chars_no_sep: "CHR '','' \<notin> set int_chars" "CHR '':'' \<notin> set int_chars"
  by (simp_all add: int_chars_def)

lemma str_int_no_sep: "CHR '','' \<notin> set (str_int i)" "CHR '':'' \<notin> set (str_int i)"
  using str_int_chars int_chars_no_sep by blast+

lemma strip_outer:
  assumes "\<not> is_space (hd s)" and "\<not> is_space (last s)"
  shows "strip s = s"
proof -
  have d: "dropWhile is_space t = t" if "t = [] \<or> \<not> is_space (hd t)" for t
    using that by (cases t) auto
  have "dropWhile is_space s = s" using assms by (intro d) simp
  moreover have "dropWhile is_space (rev s) = rev s"
    using assms by (intro d) (cases "s = []", simp_all add: hd_rev)
  ultimately show ?thesis by (simp add: strip_def)
qed

lemma strip_hd:
  assumes "strip s = s" and "s \<noteq> []"
  shows "\<not> is_space (hd s)"
proof -
  have "length (dropWhile is_space (rev (dropWhile is_space s))) \<le> length (dropWhile is_space s)"
    using length_dropWhile_le [of is_space "rev (dropWhile is_space s)"] by simp
  moreover have "length (strip s) = length (dropWhile is_space (rev (dropWhile is_space s)))"
    by (simp add: strip_def)
  ultimately have "length s \<le> length (dropWhile is_space s)" using assms(1) by simp
  then show ?thesis using assms(2) length_dropWhile_le [of is_space "tl s"] by (cases s) (auto split: if_splits)
qed

lemma parse_print_chunk:
  assumes "printable md"
  shows "parse_chunk (print_model md) = Some md"
proof -
  have p: "strip (md_slug md) = md_slug md" "strip (md_gguf_sha256 md) = md_gguf_sha256 md" "md_slug md \<noteq> []"
    "CHR '':'' \<notin> set (md_slug md)" "CHR '':'' \<notin> set (md_gguf_sha256 md)"
    "length (str_int (md_required_memory_mb md)) \<le> 4300"
    using assms by (simp_all add: printable_def plain_def)
  have "\<not> is_space (last (str_int (md_required_memory_mb md)))"
    using str_int_chars not_space_digit by (metis last_in_set str_int_not_Nil)
  then have st: "strip (print_model md) = print_model md"
    using strip_hd [OF p(1,3)] p(3) by (intro strip_outer) (simp_all add: print_model_def)
  have sp: "split_on CHR '':'' (print_model md) =
      [md_slug md, md_gguf_sha256 md, str_int (md_required_memory_mb md)]"
    using split_on_sep [OF p(4)] split_on_sep [OF p(5)] split_on_plain [OF str_int_no_sep(2)]
    by (simp add: print_model_def)
  have "print_model md \<noteq> []" using p(3) by (simp add: print_model_def)
  then show ?thesis using st sp p py_int_str_int [OF p(6)] by (simp add: parse_chunk_def Let_def)
qed

lemma split_join:
  "ps \<noteq> [] \<Longrightarrow> \<forall>p \<in> set ps. d \<notin> set p \<Longrightarrow> split_on d (join_with d ps) = ps"
  by (induction d ps rule: join_with.induct) (simp_all add: split_on_plain split_on_sep)

lemma print_no_comma: "printable md \<Longrightarrow> CHR '','' \<notin> set (print_model md)"
  using str_int_no_sep(1) by (auto simp: print_model_def printable_def plain_def)

lemma parse_printed:
  assumes "\<forall>md \<in> set mds. printable md"
  shows "foldl (\<lambda>d chunk. case parse_chunk chunk of None \<Rightarrow> d | Some md \<Rightarrow> dict_set (md_slug md) md d) d
     (map print_model mds) = foldl (\<lambda>d (k, v). dict_set k v d) d (map (\<lambda>md. (md_slug md, md)) mds)"
  using assms by (induction mds arbitrary: d) (simp_all add: parse_print_chunk)

text \<open>The registry reads back as it was written: a list of models with distinct plain slugs, printed
  as \<open>slug:hash:memory\<close> joined by commas, is parsed into exactly these models, in order.\<close>

theorem parse_models_roundtrip:
  assumes "\<forall>md \<in> set mds. printable md" and "distinct (map md_slug mds)"
  shows "parse_models (Some (print_models mds)) = map (\<lambda>md. (md_slug md, md)) mds"
proof (cases "mds = []")
  case True
  then show ?thesis by (simp add: parse_models_def print_models_def parse_chunk_def strip_def)
next
  case False
  have "split_on CHR '','' (print_models mds) = map print_model mds"
    unfolding print_models_def using False assms(1) print_no_comma by (intro split_join) auto
  moreover have "dict_of (map (\<lambda>md. (md_slug md, md)) mds) = map (\<lambda>md. (md_slug md, md)) mds"
    using assms(2) by (intro dict_of_distinct) (simp add: comp_def)
  ultimately show ?thesis
    using parse_printed [OF assms(1), of "[]"] by (simp add: parse_models_def dict_of_def)
qed

theorem parse_models_roundtrip_witness:
  "parse_models (Some (print_models [\<lparr>md_slug = ''a'', md_gguf_sha256 = ''h'', md_required_memory_mb = 6\<rparr>])) =
     [(''a'', \<lparr>md_slug = ''a'', md_gguf_sha256 = ''h'', md_required_memory_mb = 6\<rparr>)]"
  using parse_models_roundtrip [of "[\<lparr>md_slug = ''a'', md_gguf_sha256 = ''h'', md_required_memory_mb = 6\<rparr>]"]
  by (simp add: printable_def plain_def strip_def is_space_def str_int_def str_nat.simps digit_def)

text \<open>Whatever the operator writes, the registry is well formed: parsing never fails, every slug is
  listed once, is not empty and is the slug of its definition.\<close>

theorem parse_models_wf:
  "distinct (map fst (parse_models env)) \<and>
   list_all (\<lambda>(k, md). k \<noteq> [] \<and> md_slug md = k) (parse_models env)"
proof -
  let ?step = "\<lambda>d chunk. case parse_chunk chunk of None \<Rightarrow> d | Some md \<Rightarrow> dict_set (md_slug md) md d"
  let ?ok = "\<lambda>d. distinct (map fst d) \<and> (\<forall>(k, md) \<in> set d. k \<noteq> [] \<and> md_slug md = k)"
  have entry: "md_slug md \<noteq> []" if "parse_chunk c = Some md" for c md
    using that by (auto simp: parse_chunk_def Let_def split: if_splits)
  have upd: "set (dict_set k v d) \<subseteq> insert (k, v) (set d)" for k v and d :: "model_def dict"
    by (induction k v d rule: dict_set.induct) auto
  have step: "?ok (?step d c)" if "?ok d" for d c
  proof (cases "parse_chunk c")
    case (Some md)
    have "distinct (map fst (dict_set (md_slug md) md d))" using that by (intro distinct_dict_set) simp
    moreover have "k \<noteq> [] \<and> md_slug m = k" if "(k, m) \<in> set (dict_set (md_slug md) md d)" for k m
    proof -
      from that upd have "(k, m) = (md_slug md, md) \<or> (k, m) \<in> set d" by blast
      then show ?thesis using \<open>?ok d\<close> entry [OF Some] by auto
    qed
    ultimately show ?thesis using Some by auto
  qed (use that in simp)
  have "?ok (foldl ?step d cs)" if "?ok d" for d cs
    using that
  proof (induction cs arbitrary: d)
    case (Cons c cs)
    from Cons.IH [OF step [OF Cons.prems]] show ?case by simp
  qed simp
  from this [of "[]"] show ?thesis by (simp add: parse_models_def Let_def list_all_iff)
qed

text \<open>A model that is registered without a hash is never served: registration only admits hashes of 64
  characters, so while that is what the workers carry, formation for such a model always declines. (The
  comment in \<open>register_worker\<close> promises that the scheduler still groups workers per advertised hash.)\<close>

theorem unset_hash_never_forms:
  assumes "map_of (models (cfg e)) model = Some md" and "md_gguf_sha256 md = []"
    and "\<forall>w \<in> set (workers s). length (w_gguf_sha256 w) = 64"
  shows "form_cluster e model s = (Inr None, s)"
proof -
  have "filter (eligible model [] (clock s)) (workers s) = []"
    using assms(3) by (auto simp: eligible_def filter_empty_conv)
  then have "waitlist model [] s = []" by (simp add: waitlist_def list_workers_def)
  then show ?thesis using assms(1,2) by (simp add: form_cluster_def act_defs)
qed

theorem unset_hash_never_forms_witness:
  "form_cluster (demo_env\<lparr>cfg := demo_settings\<lparr>models := parse_models (Some ''x'')\<rparr>\<rparr>) ''x''
     (demo_pool\<lparr>workers := [(demo_worker ''a'' 1)\<lparr>w_gguf_sha256 := replicate 64 CHR ''0''\<rparr>]\<rparr>) =
   (Inr None, demo_pool\<lparr>workers := [(demo_worker ''a'' 1)\<lparr>w_gguf_sha256 := replicate 64 CHR ''0''\<rparr>]\<rparr>)"
  by (rule unset_hash_never_forms [where md = "\<lparr>md_slug = ''x'', md_gguf_sha256 = [], md_required_memory_mb = 4096\<rparr>"])
    (simp_all add: demo_env_def parse_models_def parse_chunk_def strip_def is_space_def)

end
