(* ===== verification/Pool_Liveness.thy ===== *)
theory Pool_Liveness
  imports Pool_Config
begin

text \<open>
  liveness.py: the sweep that marks silent workers offline and dissolves their clusters. The sweep
  reads all workers once and then works on these copies, which dissolution makes stale: the row of a
  later worker may already have been released when its old copy is written back. The theorems show
  that the sweep nevertheless ends in a consistent pool.
\<close>

definition expired :: "env \<Rightarrow> rat \<Rightarrow> worker_rec \<Rightarrow> bool" where
  "expired e now w \<longleftrightarrow> w_online w \<and> now - w_last_heartbeat w > heartbeat_timeout_s (cfg e)"

definition mark_offline :: "env \<Rightarrow> worker_rec \<Rightarrow> (pool, unit) act" where
  "mark_offline e w = try_with
     (seqa (update_worker (w\<lparr>w_online := False\<rparr>)) (on_worker_offline e (w\<lparr>w_online := False\<rparr>)))
     (\<lambda>_. ret ())"

definition check :: "env \<Rightarrow> (pool, unit) act" where
  "check e =
     bnd (gets clock) (\<lambda>now.
     bnd (gets list_workers) (\<lambda>ws.
     for_each (\<lambda>w. if \<not> w_online w then ret ()
       else if now - w_last_heartbeat w > heartbeat_timeout_s (cfg e) then mark_offline e w
       else ret ()) ws))"

text \<open>One pass of \<open>_run\<close> after the sleep: an exception of the sweep is logged, not raised.\<close>

definition monitor_pass :: "env \<Rightarrow> (pool, unit) act" where
  "monitor_pass e = try_with (check e) (\<lambda>_. ret ())"

section \<open>One worker\<close>

lemma get_worker_update:
  assumes "workers t = map (\<lambda>x. if w_worker_id x = w_worker_id r then r else x) (workers s)"
  shows "get_worker i t = (if i = w_worker_id r then map_option (\<lambda>_. r) (get_worker i s) else get_worker i s)"
proof -
  have "find (\<lambda>w. w_worker_id w = i) (map (\<lambda>x. if w_worker_id x = w_worker_id r then r else x) ws) =
      (if i = w_worker_id r then map_option (\<lambda>_. r) (find (\<lambda>w. w_worker_id w = i) ws)
       else find (\<lambda>w. w_worker_id w = i) ws)" for ws
    by (induction ws) auto
  then show ?thesis using assms by (simp add: get_worker_def)
qed

lemma get_worker_in: "get_worker i s = Some w \<Longrightarrow> w \<in> set (workers s) \<and> w_worker_id w = i"
  by (auto simp: get_worker_def dest: find_Some_in)

lemma get_worker_eq: "workers_ok s \<Longrightarrow> w \<in> set (workers s) \<Longrightarrow> get_worker (w_worker_id w) s = Some w"
  by (simp add: get_worker_def workers_ok_def find_eq_key)

text \<open>
  What one expired copy does to the pool: \<open>u\<close> is the state before, \<open>t\<close> after. The copy's cluster,
  if it had one, is terminated, and its members are released.
\<close>

definition retired :: "worker_rec \<Rightarrow> pool \<Rightarrow> pool \<Rightarrow> bool" where
  "retired w u t \<longleftrightarrow> pool_ok t \<and>
     (\<forall>cid. get_cluster cid t = map_option (\<lambda>c. if w_cluster_id w = Some cid then c\<lparr>c_status := terminated\<rparr> else c)
        (get_cluster cid u)) \<and>
     (\<forall>i. i \<noteq> w_worker_id w \<longrightarrow> (\<exists>b. get_worker i t = map_option (\<lambda>x. if b then release x else x) (get_worker i u))) \<and>
     (\<exists>b. get_worker (w_worker_id w) t = Some (if b then release (w\<lparr>w_online := False\<rparr>) else w\<lparr>w_online := False\<rparr>) \<and>
        (w_cluster_id w \<noteq> None \<longrightarrow> b)) \<and>
     clock t = clock u \<and> accounts t = accounts u \<and> api_keys t = api_keys u \<and> requests t = requests u \<and>
     idents t = idents u \<and> conns t = conns u"

lemma mark_offline_wp:
  assumes "pool_ok u" and "get_worker (w_worker_id w) u = Some w'"
    and "w_account_id w = w_account_id w'" and "w_memory_allocated_mb w = w_memory_allocated_mb w'"
    and "w_wg_pubkey w = w_wg_pubkey w'"
    and "w_status w = assigned \<longrightarrow> w_cluster_id w \<noteq> None"
    and "\<forall>cid. w_cluster_id w = Some cid \<longrightarrow>
        cid \<noteq> [] \<and> (\<exists>c. get_cluster cid u = Some c \<and> w_worker_id w \<in> set (c_members c))"
  shows "wp (mark_offline e w) (\<lambda>_ t. retired w u t) (\<lambda>_ _. False) u"
proof -
  let ?r = "w\<lparr>w_online := False\<rparr>"
  let ?u1 = "u\<lparr>workers := map (\<lambda>x. if w_worker_id x = w_worker_id ?r then ?r else x) (workers u)\<rparr>"
  have w': "w' \<in> set (workers u)" "w_worker_id w' = w_worker_id w" using get_worker_in [OF assms(2)] by simp_all
  have sok: "schema_ok u" and rok: "store_ok u" using assms(1) by (simp_all add: pool_ok_def store_ok_def)
  have mem: "sql_int (w_memory_allocated_mb ?r)" and acc: "w_account_id ?r \<in> account_ids u"
    using sok w' assms(3,4) by (auto simp: schema_ok_def workers_ok_def)
  have "cid \<in> cluster_ids u" if "w_cluster_id w = Some cid" for cid
    using assms(7) that by (auto simp: cluster_ids_def elim: get_cluster_row)
  then have fk: "fk (w_cluster_id ?r) (cluster_ids u)" by (simp add: fk_def split: option.split)
  have upd: "wp (update_worker ?r) Q E u = Q () ?u1" for Q E
    using mem acc fk by (simp add: wp_simps)
  have "x = w'" if "x \<in> set (workers u)" "w_worker_id x = w_worker_id w" for x
    using that w' sok distinct_key_eq [of w_worker_id "workers u" x w'] by (simp add: schema_ok_def workers_ok_def)
  then have idents1: "idents ?u1 = idents u" using assms(3,5) w'(2) by (auto simp: idents_def)
  have "schema_ok ?u1" using keeps_wpD [OF keeps_schema_update_worker, of u ?r] sok unfolding upd .
  then have ok1: "store_ok ?u1" using rok ring_ok_cong [of ?u1 u] by (simp add: store_ok_def)
  have g1: "get_cluster x ?u1 = get_cluster x u" for x by (rule get_cluster_cong) simp_all
  have sub1: "subnets_ok ?u1" using assms(1) unfolding pool_ok_def subnets_ok_def g1 by blast
  have gw: "get_worker i ?u1 = (if i = w_worker_id w then Some ?r else get_worker i u)" for i
    using get_worker_update [of ?u1 ?r u i] assms(2) by simp
  have seats: "seat_ok ?u1 x" if "x \<in> set (workers ?u1)" "w_worker_id x \<noteq> w_worker_id w" for x
  proof -
    have "x \<in> set (workers u)" using that by auto
    then have "seat_ok u x" using assms(1) by (simp add: pool_ok_def assign_ok_def)
    then show ?thesis by (rule seat_ok_same) (rule g1)
  qed
  show ?thesis
  proof (cases "w_cluster_id w")
    case None
    have "seat_ok ?u1 x" if "x \<in> set (workers ?u1)" for x
    proof (cases "w_worker_id x = w_worker_id w")
      case True
      with that have "x = ?r" by auto
      then show ?thesis using None assms(6) by (simp add: seat_ok_def)
    qed (rule seats [OF that])
    then have "pool_ok ?u1" using ok1 sub1 by (simp add: pool_ok_def assign_ok_def)
    then have "retired w u ?u1"
      using None g1 gw idents1 by (auto simp: retired_def option.map_ident intro!: exI [of _ False])
    then show ?thesis
      unfolding mark_offline_def wp_try_with wp_seqa upd
      using None by (simp add: on_worker_offline_def dissolve_of_def wp_ret)
  next
    case (Some cid)
    then obtain c where cid: "cid \<noteq> []" and c: "get_cluster cid u = Some c" "w_worker_id w \<in> set (c_members c)"
      using assms(7) by blast
    have c1: "get_cluster cid ?u1 = Some c" using c g1 by simp
    have fin: "retired w u t" if t: "dissolved ?u1 c ''member_offline'' t" for t
    proof -
      have id: "c_cluster_id c = cid" by (rule get_cluster_id [OF c(1)])
      have "pool_ok t" by (rule dissolved_pool_ok [OF sub1 c1 t]) (use seats c(2) in auto)
      moreover have "get_cluster x t = map_option (\<lambda>c. if w_cluster_id w = Some x then c\<lparr>c_status := terminated\<rparr> else c)
          (get_cluster x u)" for x
        using t id g1 c(1) Some by (cases "x = cid")
          (auto simp: dissolved_def same_clusters_but_def get_cluster_def option.map_ident)
      moreover note row = dissolved_get_worker [OF t]
      moreover have "get_worker (w_worker_id w) t = Some (release ?r)" using row gw c(2) by simp
      moreover have "idents t = idents ?u1" using t by (simp add: dissolved_def same_sessions_def idents_def)
      then have "idents t = idents u" using idents1 by simp
      ultimately show ?thesis using t gw Some unfolding retired_def
        by (auto simp: dissolved_def same_sessions_def)
    qed
    have "wp (dissolve_cluster e c ''member_offline'') (\<lambda>_ t. retired w u t) (\<lambda>_ _. False) ?u1"
      by (rule wp_conseq [OF dissolve_wp [OF ok1 c1]]) (use fin in auto)
    then have "wp (dissolve_cluster e c ''member_offline'') (\<lambda>_. retired w u) (\<lambda>_. wp (ret ()) (\<lambda>_. retired w u) (\<lambda>_ _. False)) ?u1"
      by (rule wp_conseq) auto
    then show ?thesis
      unfolding mark_offline_def wp_try_with wp_seqa upd
      using Some cid c1 by (simp add: on_worker_offline_def dissolve_of_def wp_bnd wp_gets wp_funs)
  qed
qed

section \<open>The whole sweep\<close>

text \<open>
  After the expired copies \<open>ds\<close> have been handled, of those that the sweep read in \<open>s\<close>.
\<close>

definition swept :: "pool \<Rightarrow> worker_rec list \<Rightarrow> pool \<Rightarrow> bool" where
  "swept s ds t \<longleftrightarrow> pool_ok t \<and> clock t = clock s \<and>
     accounts t = accounts s \<and> api_keys t = api_keys s \<and> requests t = requests s \<and>
     idents t = idents s \<and> conns t = conns s \<and>
     (\<forall>cid. get_cluster cid t = map_option
        (\<lambda>c. if \<exists>w \<in> set ds. w_cluster_id w = Some cid
             then c\<lparr>c_status := terminated\<rparr> else c) (get_cluster cid s)) \<and>
     (\<forall>w \<in> set (workers s). \<exists>b.
        (let w' = (if w \<in> set ds then w\<lparr>w_online := False\<rparr> else w) in
         get_worker (w_worker_id w) t = Some (if b then release w' else w') \<and>
         (w \<in> set ds \<and> w_cluster_id w \<noteq> None \<longrightarrow> b)))"

lemma swept_start: "pool_ok s \<Longrightarrow> swept s [] s"
  by (auto simp: swept_def pool_ok_def store_ok_def schema_ok_def get_worker_eq option.map_ident
      intro: exI [of _ False])

lemma release_offline [simp]:
  "(release w)\<lparr>w_online := b\<rparr> = release (w\<lparr>w_online := b\<rparr>)"
  by (simp add: release_def)

lemma swept_retire:
  assumes "swept s ds u" and "retired w u t" and "w \<in> set (workers s)" and "workers_ok s"
  shows "swept s (ds @ [w]) t"
proof -
  have cl: "get_cluster cid t = map_option
        (\<lambda>c. if \<exists>x \<in> set (ds @ [w]). w_cluster_id x = Some cid
             then c\<lparr>c_status := terminated\<rparr> else c) (get_cluster cid s)" for cid
    using assms(1,2) by (cases "get_cluster cid s") (auto simp: swept_def retired_def)
  have row: "\<exists>b. (let w' = (if x \<in> set (ds @ [w]) then x\<lparr>w_online := False\<rparr> else x) in
         get_worker (w_worker_id x) t = Some (if b then release w' else w') \<and>
         (x \<in> set (ds @ [w]) \<and> w_cluster_id x \<noteq> None \<longrightarrow> b))"
    if x: "x \<in> set (workers s)" for x
  proof (cases "x = w")
    case True
    then show ?thesis using assms(2) by (auto simp: retired_def Let_def)
  next
    case False
    then have ne: "w_worker_id x \<noteq> w_worker_id w"
      using x assms(3,4) distinct_key_eq [of w_worker_id "workers s" x w] by (auto simp: workers_ok_def)
    obtain b where b: "let w' = (if x \<in> set ds then x\<lparr>w_online := False\<rparr> else x) in
         get_worker (w_worker_id x) u = Some (if b then release w' else w') \<and>
         (x \<in> set ds \<and> w_cluster_id x \<noteq> None \<longrightarrow> b)"
      using assms(1) x unfolding swept_def by blast
    obtain b' where "get_worker (w_worker_id x) t = map_option (\<lambda>x. if b' then release x else x) (get_worker (w_worker_id x) u)"
      using assms(2) ne unfolding retired_def by blast
    then show ?thesis using b False
      by (intro exI [of _ "b \<or> b'"]) (auto simp: Let_def split: if_splits)
  qed
  have "pool_ok t \<and> clock t = clock s \<and> accounts t = accounts s \<and> api_keys t = api_keys s \<and> requests t = requests s \<and>
      idents t = idents s \<and> conns t = conns s"
    using assms(1,2) by (simp add: swept_def retired_def)
  then show ?thesis using cl row by (simp only: swept_def) blast
qed

lemma swept_step:
  assumes "swept s ds u" and "pool_ok s" and "w \<in> set (workers s)"
  shows "wp (if \<not> w_online w then ret ()
       else if clock s - w_last_heartbeat w > heartbeat_timeout_s (cfg e) then mark_offline e w
       else ret ()) (\<lambda>_. swept s (if expired e (clock s) w then ds @ [w] else ds)) (\<lambda>_ _. False) u"
proof (cases "expired e (clock s) w")
  case False
  then show ?thesis using assms(1) by (auto simp: expired_def wp_ret)
next
  case True
  have wok: "workers_ok s" using assms(2) by (simp add: pool_ok_def store_ok_def schema_ok_def)
  obtain w' where w': "get_worker (w_worker_id w) u = Some w'" "w_account_id w = w_account_id w'"
    "w_memory_allocated_mb w = w_memory_allocated_mb w'" "w_wg_pubkey w = w_wg_pubkey w'"
  proof -
    obtain b where b: "let v = (if w \<in> set ds then w\<lparr>w_online := False\<rparr> else w) in
         get_worker (w_worker_id w) u = Some (if b then release v else v)"
      using assms(1,3) unfolding swept_def Let_def by blast
    let ?v = "if w \<in> set ds then w\<lparr>w_online := False\<rparr> else w"
    from b have "get_worker (w_worker_id w) u = Some (if b then release ?v else ?v)" by (simp only: Let_def)
    then show ?thesis by (rule that) simp_all
  qed
  have seat: "seat_ok s w" using assms(2,3) by (simp add: pool_ok_def assign_ok_def)
  have members: "cid \<noteq> [] \<and> (\<exists>c. get_cluster cid u = Some c \<and> w_worker_id w \<in> set (c_members c))"
    if cid: "w_cluster_id w = Some cid" for cid
  proof -
    obtain c i where c: "cid \<noteq> []" "get_cluster cid s = Some c" "i < length (c_members c)" "c_members c ! i = w_worker_id w"
      using seat cid unfolding seat_ok_def by blast
    then have "w_worker_id w \<in> set (c_members c)" by (metis nth_mem)
    then show ?thesis using c assms(1) by (auto simp: swept_def)
  qed
  have "wp (mark_offline e w) (\<lambda>_ t. retired w u t) (\<lambda>_ _. False) u"
    using assms(1) w' seat members by (intro mark_offline_wp) (auto simp: swept_def seat_ok_def)
  then have "wp (mark_offline e w) (\<lambda>_. swept s (ds @ [w])) (\<lambda>_ _. False) u"
    by (rule wp_conseq) (use swept_retire [OF assms(1) _ assms(3) wok] in auto)
  then show ?thesis using True by (auto simp: expired_def)
qed

lemma check_wp:
  assumes "pool_ok s"
  shows "wp (check e) (\<lambda>_. swept s (filter (expired e (clock s)) (workers s))) (\<lambda>_ _. False) s"
proof -
  let ?exp = "expired e (clock s)"
  have "wp (for_each (\<lambda>w. if \<not> w_online w then ret ()
       else if clock s - w_last_heartbeat w > heartbeat_timeout_s (cfg e) then mark_offline e w
       else ret ()) (workers s)) (\<lambda>_. swept s (filter ?exp (workers s))) (\<lambda>_ _. False) s"
  proof (rule wp_for_each_inv [where J = "\<lambda>xs t. \<exists>ds. ds @ xs = workers s \<and> swept s (filter ?exp ds) t"])
    show "\<exists>ds. ds @ workers s = workers s \<and> swept s (filter ?exp ds) s" using swept_start [OF assms] by auto
    fix w ws t
    assume "\<exists>ds. ds @ w # ws = workers s \<and> swept s (filter ?exp ds) t"
    then obtain ds where ds: "ds @ w # ws = workers s" "swept s (filter ?exp ds) t" by blast
    then have w: "w \<in> set (workers s)" by (metis in_set_conv_decomp)
    have "\<exists>ds. ds @ ws = workers s \<and> swept s (filter ?exp ds) u"
      if "swept s (if ?exp w then filter ?exp ds @ [w] else filter ?exp ds) u" for u
      using that ds(1) by (intro exI [of _ "ds @ [w]"]) (simp split: if_splits)
    then show "wp (if \<not> w_online w then ret ()
       else if clock s - w_last_heartbeat w > heartbeat_timeout_s (cfg e) then mark_offline e w
       else ret ()) (\<lambda>_ t. \<exists>ds. ds @ ws = workers s \<and> swept s (filter ?exp ds) t) (\<lambda>_ _. False) t"
      by (intro wp_conseq [OF swept_step [OF ds(2) assms w]])
  qed auto
  then show ?thesis by (simp add: check_def wp_simps list_workers_def)
qed

section \<open>Properties\<close>

text \<open>C2: The sweep does exactly what it should, in spite of its stale copies: from a consistent pool it raises
  nothing and ends in a consistent pool; a worker is offline afterwards if it was offline or its last
  heartbeat is older than the timeout, otherwise it stays online; an expired worker belongs to no
  cluster any more; and the clusters of expired workers are terminated while every other cluster reads
  exactly as before.\<close>

theorem sweep_retires_silent_workers:
  assumes "pool_ok s"
  shows "wp (check e)
     (\<lambda>_ t. pool_ok t \<and>
        (\<forall>w \<in> set (workers s). \<exists>w'. get_worker (w_worker_id w) t = Some w' \<and>
           w_online w' = (w_online w \<and> \<not> clock s - w_last_heartbeat w > heartbeat_timeout_s (cfg e)) \<and>
           (expired e (clock s) w \<longrightarrow> w_cluster_id w' = None)) \<and>
        (\<forall>cid. get_cluster cid t = map_option
           (\<lambda>c. if \<exists>w \<in> set (workers s). expired e (clock s) w \<and> w_cluster_id w = Some cid
                then c\<lparr>c_status := terminated\<rparr> else c) (get_cluster cid s)))
     (\<lambda>_ _. False) s"
proof (rule wp_conseq [OF check_wp [OF assms]])
  fix x t
  let ?ds = "filter (expired e (clock s)) (workers s)"
  assume t: "swept s ?ds t"
  have "\<exists>w'. get_worker (w_worker_id w) t = Some w' \<and>
      w_online w' = (w_online w \<and> \<not> clock s - w_last_heartbeat w > heartbeat_timeout_s (cfg e)) \<and>
      (expired e (clock s) w \<longrightarrow> w_cluster_id w' = None)" if w: "w \<in> set (workers s)" for w
  proof -
    obtain b where b: "let w' = (if w \<in> set ?ds then w\<lparr>w_online := False\<rparr> else w) in
         get_worker (w_worker_id w) t = Some (if b then release w' else w') \<and>
         (w \<in> set ?ds \<and> w_cluster_id w \<noteq> None \<longrightarrow> b)"
      using t w unfolding swept_def by blast
    have on: "w_online (release x) = w_online x" for x by (simp add: release_def)
    show ?thesis using b w on by (cases "expired e (clock s) w") (auto simp: Let_def expired_def)
  qed
  then show "pool_ok t \<and>
        (\<forall>w \<in> set (workers s). \<exists>w'. get_worker (w_worker_id w) t = Some w' \<and>
           w_online w' = (w_online w \<and> \<not> clock s - w_last_heartbeat w > heartbeat_timeout_s (cfg e)) \<and>
           (expired e (clock s) w \<longrightarrow> w_cluster_id w' = None)) \<and>
        (\<forall>cid. get_cluster cid t = map_option
           (\<lambda>c. if \<exists>w \<in> set (workers s). expired e (clock s) w \<and> w_cluster_id w = Some cid
                then c\<lparr>c_status := terminated\<rparr> else c) (get_cluster cid s))"
    using t by (auto simp: swept_def Bex_def)
qed simp

theorem sweep_retires_silent_workers_witness:
  "wp (check demo_env)
     (\<lambda>_ t. pool_ok t \<and> get_cluster ''clu_1'' t = Some (demo_cluster\<lparr>c_status := terminated\<rparr>))
     (\<lambda>_ _. False) (seated_pool\<lparr>clock := 500\<rparr>)"
proof -
  let ?s = "seated_pool\<lparr>clock := 500\<rparr>"
  have st: "same_tables seated_pool ?s" by (simp add: same_tables_def)
  have ok: "pool_ok ?s" using same_tables_pool_ok [OF st] seated_pool_ok by simp
  have g: "get_cluster ''clu_1'' ?s = Some demo_cluster"
    using same_tables_get_cluster [OF st] get_seated by simp
  have "\<exists>w \<in> set (workers ?s). expired demo_env (clock ?s) w \<and> w_cluster_id w = Some ''clu_1''"
    by (simp add: seated_pool_def assigned_worker_def demo_worker_def expired_def demo_env_def demo_settings_def)
  with sweep_retires_silent_workers [OF ok, of demo_env] show ?thesis
    by (elim wp_conseq) (simp_all add: g)
qed

end
