(* ===== verification/Pool_Float.thy ===== *)
theory Pool_Float
  imports Pool_Prelude "HOL-Library.Log_Nat"
begin

text \<open>
  Python's float arithmetic as far as the accounting needs it: \<open>double\<close> rounds an exact rational to
  the nearest number with a significand of 53 bits, ties to even, which is what a binary64 operation
  does to its exact result. The values here stem from 64-bit integers, whose quotients and products
  are far from the ends of the exponent range, so the range is left open; zero has one sign.
\<close>

section \<open>Rounding\<close>

text \<open>The exponent of the leading bit of a positive number.\<close>

definition binade :: "rat \<Rightarrow> int" where
  "binade x = (case quotient_of x of (n, d) \<Rightarrow>
     let k = bitlen n - bitlen d in if 2 powi k \<le> x then k else k - 1)"

definition half_even :: "rat \<Rightarrow> int" where
  "half_even x = (let f = \<lfloor>x\<rfloor>; r = x - of_int f in
     if r < 1 / 2 \<or> (r = 1 / 2 \<and> even f) then f else f + 1)"

definition double :: "rat \<Rightarrow> rat" where
  "double x = (if x = 0 then 0
     else let ulp = 2 powi (binade \<bar>x\<bar> - 52) in of_int (half_even (x / ulp)) * ulp)"

text \<open>\<open>a + b\<close>, \<open>a * b\<close> of floats, and \<open>m / n\<close> of integers, which Python rounds once.\<close>

definition float_add :: "rat \<Rightarrow> rat \<Rightarrow> rat" where
  "float_add a b = double (a + b)"

definition float_mult :: "rat \<Rightarrow> rat \<Rightarrow> rat" where
  "float_mult a b = double (a * b)"

definition int_divide :: "int \<Rightarrow> int \<Rightarrow> rat" where
  "int_divide m n = double (of_int m / of_int n)"

definition float_of_int :: "int \<Rightarrow> rat" where
  "float_of_int n = double (of_int n)"

section \<open>The error of a rounding\<close>

lemma half_even_error: "\<bar>of_int (half_even x) - x\<bar> \<le> 1 / 2"
proof -
  have "of_int \<lfloor>x\<rfloor> \<le> x" "x < of_int \<lfloor>x\<rfloor> + 1" by linarith+
  then show ?thesis by (auto simp: half_even_def Let_def abs_if) linarith
qed

lemma half_even_int [simp]: "half_even (of_int i) = i"
  by (simp add: half_even_def)

lemma powi_pos: "0 < (2 :: rat) powi k"
  by simp

lemma bitlen_powi: "0 < n \<Longrightarrow> (2 :: rat) powi (bitlen n - 1) \<le> of_int n \<and> of_int n < (2 :: rat) powi (bitlen n)"
proof -
  assume n: "0 < n"
  then have b: "2 ^ nat (bitlen n - 1) \<le> n" "n < 2 ^ nat (bitlen n)" "1 \<le> bitlen n"
    using bitlen_bounds [of n] bitlen_ge_iff_power [of 1 n] by auto
  have "(of_int (2 ^ nat (bitlen n - 1)) :: rat) \<le> of_int n" "of_int n < (of_int (2 ^ nat (bitlen n)) :: rat)"
    using b by (simp_all only: of_int_le_iff of_int_less_iff)
  then show ?thesis using b(3) by (simp add: power_int_def)
qed

lemma binade_bounds:
  assumes "0 < x"
  shows "2 powi (binade x) \<le> x \<and> x < 2 powi (binade x + 1)"
proof -
  obtain n d where q: "quotient_of x = (n, d)" by fastforce
  have d: "0 < d" using quotient_of_denom_pos [OF q] .
  have x: "x = of_int n / of_int d" using quotient_of_div [OF q] .
  have n: "0 < n" using assms d by (simp add: x zero_less_divide_iff)
  let ?k = "bitlen n - bitlen d"
  note bn = bitlen_powi [OF n] and bd = bitlen_powi [OF d]
  have d': "(0::rat) < of_int d" using d by simp
  have split: "(2 :: rat) powi (a + b) = 2 powi a * 2 powi b" for a b by (simp add: power_int_add)
  have "x < 2 powi (?k + 1)"
  proof -
    have "of_int n < (2::rat) powi (bitlen n)" using bn by blast
    also have "\<dots> = 2 powi (?k + 1) * 2 powi (bitlen d - 1)" by (simp flip: split)
    also have "\<dots> \<le> 2 powi (?k + 1) * of_int d" using bd by (intro mult_left_mono) auto
    finally show ?thesis using d' by (simp add: x divide_less_eq)
  qed
  moreover have "2 powi (?k - 1) \<le> x"
  proof -
    have "2 powi (?k - 1) * of_int d \<le> (2::rat) powi (?k - 1) * 2 powi (bitlen d)" using bd by (intro mult_left_mono) auto
    also have "\<dots> = 2 powi (bitlen n - 1)" by (simp flip: split)
    also have "\<dots> \<le> of_int n" using bn by blast
    finally show ?thesis using d' by (simp add: x le_divide_eq)
  qed
  ultimately show ?thesis by (auto simp: binade_def q Let_def not_le)
qed

lemma double_error: "\<bar>double x - x\<bar> \<le> \<bar>x\<bar> / 2 ^ 53"
proof (cases "x = 0")
  case False
  let ?u = "2 powi (binade \<bar>x\<bar> - 52) :: rat"
  have u: "0 < ?u" by simp
  have "\<bar>of_int (half_even (x / ?u)) - x / ?u\<bar> * ?u \<le> 1 / 2 * ?u"
    using half_even_error [of "x / ?u"] u by (intro mult_right_mono) auto
  moreover have "\<bar>of_int (half_even (x / ?u)) - x / ?u\<bar> * ?u = \<bar>(of_int (half_even (x / ?u)) - x / ?u) * ?u\<bar>"
    using u by (simp add: abs_mult)
  moreover have "(of_int (half_even (x / ?u)) - x / ?u) * ?u = double x - x"
    using False u by (simp add: double_def Let_def left_diff_distrib)
  ultimately have "\<bar>double x - x\<bar> \<le> ?u / 2" by simp
  also have "?u = 2 powi (binade \<bar>x\<bar>) / 2 ^ 52" by (simp add: power_int_diff)
  also have "\<dots> / 2 \<le> \<bar>x\<bar> / 2 ^ 53" using binade_bounds [of "\<bar>x\<bar>"] False by (simp add: field_simps)
  finally show ?thesis .
qed (simp add: double_def)

text \<open>Integers of up to 53 bits are floats.\<close>

lemma double_int:
  assumes "\<bar>i\<bar> \<le> 2 ^ 53"
  shows "double (of_int i) = of_int i"
proof (cases "i = 0")
  case False
  let ?b = "binade \<bar>of_int i\<bar>" and ?u = "2 powi (binade \<bar>of_int i\<bar> - 52) :: rat"
  have b: "2 powi ?b \<le> (\<bar>of_int i\<bar> :: rat)" "(\<bar>of_int i\<bar> :: rat) < 2 powi (?b + 1)"
    using binade_bounds [of "\<bar>of_int i\<bar>"] False by simp_all
  have le: "(\<bar>of_int i\<bar> :: rat) \<le> 2 ^ 53"
    using assms by (metis of_int_abs of_int_le_iff of_int_numeral of_int_power)
  have "\<exists>j. (of_int i :: rat) / ?u = of_int j"
  proof (cases "?b \<le> 52")
    case True
    have "(of_int i :: rat) / ?u = of_int i * 2 powi (52 - ?b)" by (simp add: power_int_diff)
    also have "\<dots> = of_int (i * 2 ^ nat (52 - ?b))" using True by (simp add: power_int_def)
    finally show ?thesis by blast
  next
    case big: False
    have "(2::rat) powi 53 \<le> 2 powi ?b" using big by (intro power_int_increasing) auto
    then have eq: "(\<bar>of_int i\<bar> :: rat) = 2 ^ 53" "2 powi ?b \<le> (2::rat) powi 53" using b le by simp_all
    have "?b \<le> 53"
    proof (rule ccontr)
      assume "\<not> ?b \<le> 53"
      then have "(2::rat) powi 53 < 2 powi ?b" by (intro power_int_strict_increasing) auto
      then show False using eq(2) by simp
    qed
    then have "?b = 53" using big by simp
    then have u: "?u = 2" by simp
    have "\<bar>i\<bar> = 2 ^ 53" using eq(1) by (metis of_int_abs of_int_eq_iff of_int_numeral of_int_power)
    then have "i = 2 ^ 53 \<or> i = - (2 ^ 53)" by (auto simp: abs_if split: if_splits)
    then have "i = 2 * (i div 2)" by auto
    then have "(of_int i :: rat) = 2 * of_int (i div 2)" by (metis of_int_mult of_int_numeral)
    then have "(of_int i :: rat) / ?u = of_int (i div 2)" using u by simp
    then show ?thesis by blast
  qed
  then obtain j where j: "(of_int i :: rat) / ?u = of_int j" by blast
  have u: "0 < ?u" by simp
  have "double (of_int i) = of_int (half_even (of_int i / ?u)) * ?u" using False by (simp add: double_def Let_def)
  also have "\<dots> = of_int i / ?u * ?u" by (simp add: j)
  also have "\<dots> = of_int i" using u by simp
  finally show ?thesis .
qed (simp add: double_def)

section \<open>Products and sums\<close>

text \<open>Two rounded factors and a rounded product: three roundings.\<close>

lemma rounded_close:
  assumes "\<bar>y - x\<bar> \<le> (c :: rat) * \<bar>x\<bar>" and "0 \<le> c"
  shows "\<bar>double y - x\<bar> \<le> (c + (1 + c) / 2 ^ 53) * \<bar>x\<bar>"
proof -
  have "\<bar>y\<bar> \<le> (1 + c) * \<bar>x\<bar>" using assms(1) by (simp add: algebra_simps)
  then have "\<bar>double y - y\<bar> \<le> (1 + c) * \<bar>x\<bar> / 2 ^ 53" using double_error [of y] by simp
  then have "\<bar>double y - x\<bar> \<le> (1 + c) * \<bar>x\<bar> / 2 ^ 53 + c * \<bar>x\<bar>" using assms(1) by linarith
  then show ?thesis by (simp add: algebra_simps)
qed

lemma product_close:
  assumes "\<bar>x' - x\<bar> \<le> (c :: rat) * \<bar>x\<bar>" and "\<bar>y' - y\<bar> \<le> c * \<bar>y\<bar>" and "0 \<le> c"
  shows "\<bar>x' * y' - x * y\<bar> \<le> (2 * c + c * c) * \<bar>x * y\<bar>"
proof -
  have "x' * y' - x * y = (x' - x) * (y' - y) + (x' - x) * y + x * (y' - y)" by (simp add: algebra_simps)
  then have "\<bar>x' * y' - x * y\<bar> \<le> \<bar>x' - x\<bar> * \<bar>y' - y\<bar> + \<bar>x' - x\<bar> * \<bar>y\<bar> + \<bar>x\<bar> * \<bar>y' - y\<bar>"
    by (simp only: flip: abs_mult)
  moreover have "\<bar>x' - x\<bar> * \<bar>y' - y\<bar> \<le> (c * \<bar>x\<bar>) * (c * \<bar>y\<bar>)" using assms by (intro mult_mono) auto
  moreover have "\<bar>x' - x\<bar> * \<bar>y\<bar> \<le> (c * \<bar>x\<bar>) * \<bar>y\<bar>" using assms(1) by (intro mult_right_mono) auto
  moreover have "\<bar>x\<bar> * \<bar>y' - y\<bar> \<le> \<bar>x\<bar> * (c * \<bar>y\<bar>)" using assms(2) by (intro mult_left_mono) auto
  ultimately have "\<bar>x' * y' - x * y\<bar> \<le> (c * \<bar>x\<bar>) * (c * \<bar>y\<bar>) + (c * \<bar>x\<bar>) * \<bar>y\<bar> + \<bar>x\<bar> * (c * \<bar>y\<bar>)" by linarith
  then show ?thesis by (simp add: abs_mult algebra_simps)
qed

lemma scaled_close:
  "\<bar>float_mult (float_of_int n) (int_divide a b) - of_int n * (of_int a / of_int b)\<bar> \<le> \<bar>of_int n * (of_int a / of_int b)\<bar> / 2 ^ 51"
proof -
  let ?c = "1 / 2 ^ 53 :: rat" and ?x = "of_int n :: rat" and ?y = "of_int a / of_int b :: rat"
  let ?d = "2 * ?c + ?c * ?c"
  have "\<bar>float_of_int n * int_divide a b - ?x * ?y\<bar> \<le> ?d * \<bar>?x * ?y\<bar>"
    unfolding float_of_int_def int_divide_def
    using double_error [of ?x] double_error [of ?y] by (intro product_close) simp_all
  from rounded_close [OF this]
  have "\<bar>float_mult (float_of_int n) (int_divide a b) - ?x * ?y\<bar> \<le> (?d + (1 + ?d) / 2 ^ 53) * \<bar>?x * ?y\<bar>"
    by (simp add: float_mult_def)
  also have "\<dots> \<le> (1 / 2 ^ 51) * \<bar>?x * ?y\<bar>" by (intro mult_right_mono) simp_all
  finally show ?thesis by simp
qed

definition float_sum :: "rat list \<Rightarrow> rat" where
  "float_sum xs = foldl float_add 0 xs"

text \<open>A sum of integers is exact as long as no partial sum can leave 53 bits.\<close>

lemma float_sum_ints:
  assumes "sum_list (map abs xs) \<le> 2 ^ 53"
  shows "float_sum (map float_of_int xs) = of_int (sum_list xs)"
proof -
  have "foldl float_add (of_int a) (map float_of_int xs) = of_int (a + sum_list xs)"
    if "\<bar>a\<bar> + sum_list (map abs xs) \<le> 2 ^ 53" for a xs
    using that
  proof (induction xs arbitrary: a)
    case (Cons x xs)
    have nonneg: "0 \<le> sum_list (map abs xs)" by (rule sum_list_nonneg) auto
    then have "\<bar>x\<bar> \<le> 2 ^ 53" "\<bar>a + x\<bar> \<le> 2 ^ 53" using Cons.prems by simp_all
    then have "float_add (of_int a) (float_of_int x) = of_int (a + x)"
      unfolding float_add_def float_of_int_def using double_int [of x] double_int [of "a + x"] by simp
    moreover have "\<bar>a + x\<bar> + sum_list (map abs xs) \<le> 2 ^ 53" using Cons.prems by simp
    ultimately show ?case using Cons.IH [of "a + x"] by (simp add: add.assoc)
  qed simp
  from this [of 0 xs] show ?thesis using assms by (simp add: float_sum_def)
qed

text \<open>The error of a sum of any floats, one rounding per term.\<close>

lemma float_sum_error:
  "\<bar>float_sum xs - sum_list xs\<bar> \<le> ((1 + 1 / 2 ^ 53) ^ length xs - 1) * sum_list (map abs xs)"
proof (induction xs rule: rev_induct)
  case (snoc x xs)
  define u where "u = (1 / 2 ^ 53 :: rat)"
  have u: "0 \<le> u" by (simp add: u_def)
  let ?k = "(1 + u) ^ length xs" and ?e = "\<bar>float_sum xs - sum_list xs\<bar>"
    and ?a = "sum_list (map abs xs)" and ?y = "float_sum xs + x"
  have bound: "\<bar>sum_list xs\<bar> \<le> ?a" by (rule sum_list_abs)
  have "\<bar>double ?y - ?y\<bar> \<le> u * \<bar>?y\<bar>" using double_error [of ?y] by (simp add: u_def)
  moreover have "u * \<bar>?y\<bar> \<le> u * (?e + ?a + \<bar>x\<bar>)" using bound by (intro mult_left_mono u) linarith
  moreover have "double ?y - (sum_list xs + x) = (double ?y - ?y) + (float_sum xs - sum_list xs)" by simp
  ultimately have "\<bar>double ?y - (sum_list xs + x)\<bar> \<le> u * (?e + ?a + \<bar>x\<bar>) + ?e" by linarith
  also have "\<dots> = (1 + u) * ?e + u * (?a + \<bar>x\<bar>)" by (simp add: algebra_simps)
  also have "\<dots> \<le> (1 + u) * ((?k - 1) * ?a) + u * (?a + \<bar>x\<bar>)"
    using snoc.IH u by (intro add_right_mono mult_left_mono) (simp_all add: u_def)
  also have "\<dots> \<le> ((1 + u) * ?k - 1) * (?a + \<bar>x\<bar>)"
  proof -
    have "1 \<le> ?k" using u by (intro one_le_power) simp
    with u have "0 \<le> (1 + u) * (?k - 1) * \<bar>x\<bar>" by (intro mult_nonneg_nonneg) simp_all
    then show ?thesis by (simp add: algebra_simps)
  qed
  finally show ?case by (simp add: float_sum_def float_add_def u_def)
qed (simp add: float_sum_def)

lemma sum_close:
  assumes "\<And>x. x \<in> set xs \<Longrightarrow> \<bar>f x - g x\<bar> \<le> (h x :: rat)"
  shows "\<bar>sum_list (map f xs) - sum_list (map g xs)\<bar> \<le> sum_list (map h xs)"
  using assms
proof (induction xs)
  case (Cons x xs)
  have "\<bar>f x - g x\<bar> \<le> h x" using Cons.prems by simp
  moreover have "\<bar>sum_list (map f xs) - sum_list (map g xs)\<bar> \<le> sum_list (map h xs)" using Cons by simp
  ultimately show ?case by simp
qed simp

end
