(* ===== verification/Pool_Usage.thy ===== *)
theory Pool_Usage
  imports Pool_Router Pool_Float "HOL-Library.Multiset" "HOL-Library.List_Lexorder" "HOL-Library.Char_ord"
begin

text \<open>
  Usage accounting: the request log of store.py, its aggregation per model, the attribution of
  requests to the workers that served them, and the two functions of app.py that turn attribution
  rows into shares. Shares, effective token counts and their sums are rounded as Python's floats are.
  A query whose order leaves ties open returns them in the order of SQLite's plan: the index on
  \<open>(account_id, created_at)\<close> read backwards for the request log, a stable sort of the join for the
  attribution.
\<close>

section \<open>Writing\<close>

definition record_request :: "request_rec \<Rightarrow> ('z db_scheme, unit) act" where
  "record_request q = (\<lambda>s.
     if \<not> sql_int (q_prompt_tokens q) \<or> \<not> sql_int (q_completion_tokens q) then (Inl OverflowError, s)
     else if q_request_id q \<in> q_request_id ` set (requests s) \<or> q_account_id q \<notin> account_ids s
        \<or> q_key_id q \<notin> key_ids s \<or> q_cluster_id q \<notin> cluster_ids s
     then (Inl IntegrityError, s)
     else (Inr (), s\<lparr>requests := requests s @ [q]\<rparr>))"

section \<open>The request log\<close>

definition sql_limit :: "int \<Rightarrow> 'a list \<Rightarrow> 'a list" where
  "sql_limit n xs = (if n < 0 then xs else take (nat n) xs)"

definition newest_first :: "request_rec list \<Rightarrow> request_rec list" where
  "newest_first qs = rev (sort_key q_created_at qs)"

definition list_requests_for_account :: "string \<Rightarrow> int \<Rightarrow> 'z db_scheme \<Rightarrow> exn + request_rec list" where
  "list_requests_for_account account_id limit s =
     (if \<not> sql_int limit then Inl OverflowError
      else Inr (sql_limit limit (newest_first (filter (\<lambda>q. q_account_id q = account_id) (requests s)))))"

definition in_window :: "rat \<Rightarrow> rat \<Rightarrow> request_rec \<Rightarrow> bool" where
  "in_window b e q \<longleftrightarrow> b \<le> q_created_at q \<and> q_created_at q < e"

definition list_requests_in_range :: "string \<Rightarrow> rat \<Rightarrow> rat \<Rightarrow> int \<Rightarrow> 'z db_scheme \<Rightarrow> exn + request_rec list" where
  "list_requests_in_range account_id b e limit s =
     (if \<not> sql_int limit then Inl OverflowError
      else Inr (sql_limit limit (newest_first
        (filter (\<lambda>q. q_account_id q = account_id \<and> in_window b e q) (requests s)))))"

section \<open>Aggregation per model\<close>

text \<open>SQLite's \<open>SUM\<close> of integers: an intermediate sum outside 64 bits is an error.\<close>

fun sql_sum :: "int \<Rightarrow> int list \<Rightarrow> exn + int" where
  "sql_sum a [] = Inr a"
| "sql_sum a (x # xs) = (if sql_int (a + x) then sql_sum (a + x) xs else Inl OperationalError)"

type_synonym usage = "nat \<times> int \<times> int"

definition model_usage :: "request_rec list \<Rightarrow> exn + usage" where
  "model_usage qs =
     (case sql_sum 0 (map q_prompt_tokens qs) of Inl x \<Rightarrow> Inl x
      | Inr p \<Rightarrow> (case sql_sum 0 (map q_completion_tokens qs) of Inl x \<Rightarrow> Inl x
        | Inr c \<Rightarrow> Inr (length qs, p, c)))"

fun group_usage :: "request_rec list \<Rightarrow> string list \<Rightarrow> exn + usage dict" where
  "group_usage qs [] = Inr []"
| "group_usage qs (m # ms) =
     (case model_usage (filter (\<lambda>q. q_model q = m) qs) of Inl x \<Rightarrow> Inl x
      | Inr u \<Rightarrow> (case group_usage qs ms of Inl x \<Rightarrow> Inl x | Inr d \<Rightarrow> Inr ((m, u) # d)))"

definition usage_stats_in_range :: "string \<Rightarrow> rat \<Rightarrow> rat \<Rightarrow> 'z db_scheme \<Rightarrow> exn + usage dict" where
  "usage_stats_in_range account_id b e s =
     (let qs = filter (\<lambda>q. q_account_id q = account_id \<and> in_window b e q) (requests s)
      in group_usage qs (sort (remdups (map q_model qs))))"

section \<open>Attribution\<close>

record attr_row =
  at_request_id :: string
  at_model :: string
  at_cluster_id :: string
  at_prompt_tokens :: int
  at_completion_tokens :: int
  at_created_at :: rat
  at_worker_id :: string
  at_layer_window :: "int option"
  at_cluster_total :: "int option"

text \<open>\<open>SELECT SUM(layer_window)\<close> over the members of the cluster: NULLs are skipped, no value is NULL.\<close>

definition cluster_total :: "string \<Rightarrow> 'z db_scheme \<Rightarrow> exn + int option" where
  "cluster_total cid s =
     (let ws = List.map_filter cm_layer_window (filter (\<lambda>m. cm_cluster_id m = cid) (cluster_members s)) in
      if ws = [] then Inr None else map_sum id Some (sql_sum 0 ws))"

definition attr_row_of :: "'z db_scheme \<Rightarrow> member_row \<Rightarrow> request_rec \<Rightarrow> exn + attr_row" where
  "attr_row_of s m q =
     (case cluster_total (q_cluster_id q) s of Inl x \<Rightarrow> Inl x
      | Inr t \<Rightarrow> Inr \<lparr>at_request_id = q_request_id q, at_model = q_model q, at_cluster_id = q_cluster_id q,
          at_prompt_tokens = q_prompt_tokens q, at_completion_tokens = q_completion_tokens q,
          at_created_at = q_created_at q, at_worker_id = cm_worker_id m, at_layer_window = cm_layer_window m,
          at_cluster_total = t\<rparr>)"

fun all_results :: "(exn + 'a) list \<Rightarrow> exn + 'a list" where
  "all_results [] = Inr []"
| "all_results (r # rs) =
     (case r of Inl x \<Rightarrow> Inl x
      | Inr v \<Rightarrow> (case all_results rs of Inl x \<Rightarrow> Inl x | Inr vs \<Rightarrow> Inr (v # vs)))"

text \<open>
  The join of requests, cluster_members and workers. An empty \<open>worker_ids\<close> is no filter.
\<close>

definition joined ::
  "string \<Rightarrow> (request_rec \<Rightarrow> bool) \<Rightarrow> string list option \<Rightarrow> 'z db_scheme \<Rightarrow> (member_row \<times> request_rec) list" where
  "joined account_id P only s =
     [(m, q). w \<leftarrow> filter (\<lambda>w. w_account_id w = account_id) (workers s),
              m \<leftarrow> filter (\<lambda>m. cm_worker_id m = w_worker_id w \<and>
                    (case only of None \<Rightarrow> True | Some ids \<Rightarrow> ids = [] \<or> cm_worker_id m \<in> set ids))
                  (cluster_members s),
              q \<leftarrow> filter (\<lambda>q. q_cluster_id q = cm_cluster_id m \<and> P q) (requests s)]"

definition attribution ::
  "string \<Rightarrow> (request_rec \<Rightarrow> bool) \<Rightarrow> string list option \<Rightarrow> 'z db_scheme \<Rightarrow> exn + attr_row list" where
  "attribution account_id P only s =
     map_sum id (sort_key (\<lambda>r. - at_created_at r))
       (all_results (map (\<lambda>(m, q). attr_row_of s m q) (joined account_id P only s)))"

definition worker_attribution ::
  "string \<Rightarrow> rat \<Rightarrow> rat \<Rightarrow> string list option \<Rightarrow> int option \<Rightarrow> 'z db_scheme \<Rightarrow> exn + attr_row list" where
  "worker_attribution account_id b e only limit s =
     (case limit of
        None \<Rightarrow> attribution account_id (in_window b e) only s
      | Some n \<Rightarrow> if \<not> sql_int n then Inl OverflowError
          else map_sum id (sql_limit n) (attribution account_id (in_window b e) only s))"

definition worker_logs_latest :: "string \<Rightarrow> int \<Rightarrow> 'z db_scheme \<Rightarrow> exn + attr_row list" where
  "worker_logs_latest account_id limit s =
     (if \<not> sql_int limit then Inl OverflowError
      else map_sum id (sql_limit limit) (attribution account_id (\<lambda>_. True) None s))"

section \<open>Shares (app.py)\<close>

record worker_log_entry =
  wl_request_id :: string
  wl_worker_id :: string
  wl_model :: string
  wl_cluster_id :: string
  wl_prompt_tokens :: int
  wl_completion_tokens :: int
  wl_share :: "rat option"
  wl_effective_prompt :: "rat option"
  wl_effective_completion :: "rat option"
  wl_created_at :: rat

definition share_of :: "attr_row \<Rightarrow> rat option" where
  "share_of r = (case (at_layer_window r, at_cluster_total r) of
     (Some lw, Some tot) \<Rightarrow> if tot \<noteq> 0 then Some (int_divide lw tot) else None
   | _ \<Rightarrow> None)"

definition attribution_entry :: "attr_row \<Rightarrow> worker_log_entry" where
  "attribution_entry r =
     \<lparr>wl_request_id = at_request_id r, wl_worker_id = at_worker_id r, wl_model = at_model r,
      wl_cluster_id = at_cluster_id r, wl_prompt_tokens = at_prompt_tokens r,
      wl_completion_tokens = at_completion_tokens r, wl_share = share_of r,
      wl_effective_prompt = map_option (float_mult (float_of_int (at_prompt_tokens r))) (share_of r),
      wl_effective_completion = map_option (float_mult (float_of_int (at_completion_tokens r))) (share_of r),
      wl_created_at = at_created_at r\<rparr>"

text \<open>The loop of \<open>account_worker_stats\<close> over the rows of one window.\<close>

record model_tally =
  ta_total_prompt :: rat
  ta_total_completion :: rat
  ta_effective_prompt :: rat
  ta_effective_completion :: rat

definition no_tally :: model_tally where
  "no_tally = \<lparr>ta_total_prompt = 0, ta_total_completion = 0, ta_effective_prompt = 0, ta_effective_completion = 0\<rparr>"

definition tally_row :: "model_tally dict \<Rightarrow> attr_row \<Rightarrow> model_tally dict" where
  "tally_row d r =
     (let e = (case map_of d (at_model r) of None \<Rightarrow> no_tally | Some e \<Rightarrow> e);
          p = float_of_int (at_prompt_tokens r); c = float_of_int (at_completion_tokens r);
          e1 = e\<lparr>ta_total_prompt := float_add (ta_total_prompt e) p,
                 ta_total_completion := float_add (ta_total_completion e) c\<rparr>;
          e2 = (case share_of r of None \<Rightarrow> e1
                | Some sh \<Rightarrow> e1\<lparr>ta_effective_prompt := float_add (ta_effective_prompt e1) (float_mult p sh),
                    ta_effective_completion := float_add (ta_effective_completion e1) (float_mult c sh)\<rparr>)
      in dict_set (at_model r) e2 d)"

definition tally_rows :: "attr_row list \<Rightarrow> model_tally dict" where
  "tally_rows rows = foldl tally_row [] rows"

section \<open>Sums\<close>

lemma sql_sum_fits:
  "\<bar>a\<bar> + sum_list (map abs xs) < 2 ^ 63 \<Longrightarrow> sql_sum a xs = Inr (a + sum_list xs)"
proof (induction xs arbitrary: a)
  case (Cons x xs)
  have nonneg: "0 \<le> sum_list (map abs xs)" by (rule sum_list_nonneg) auto
  then have "\<bar>a + x\<bar> + sum_list (map abs xs) < 2 ^ 63" using Cons.prems by simp
  moreover have "sql_int (a + x)" using Cons.prems nonneg by (auto simp: sql_int_def)
  ultimately show ?case using Cons.IH [of "a + x"] by (simp add: add.assoc)
qed simp

lemma sum_list_abs_filter: "sum_list (map (\<lambda>x. \<bar>f x\<bar>) (filter P xs)) \<le> sum_list (map (\<lambda>x. \<bar>f x :: int\<bar>) xs)"
  by (induction xs) auto

lemma sum_list_of_concat: "sum_list (concat xss) = sum_list (map sum_list (xss :: 'b :: monoid_add list list))"
  by (induction xss) simp_all

lemma sum_list_filter_disj:
  fixes f :: "'a \<Rightarrow> 'b :: comm_monoid_add"
  assumes "\<And>x. \<not> (P x \<and> Q x)"
  shows "sum_list (map f (filter P xs)) + sum_list (map f (filter Q xs)) = sum_list (map f (filter (\<lambda>x. P x \<or> Q x) xs))"
  using assms by (induction xs) (auto simp: ac_simps)

text \<open>A join on a unique key, summed: every row that has a partner counts once.\<close>

lemma sum_list_join:
  fixes f :: "'m \<Rightarrow> 'b :: comm_monoid_add"
  assumes "distinct (map i ws)"
  shows "sum_list (map (\<lambda>w. sum_list (map f (filter (\<lambda>m. k m = i w) ms))) ws) =
    sum_list (map f (filter (\<lambda>m. k m \<in> i ` set ws) ms))"
  using assms
proof (induction ws)
  case (Cons w ws)
  then have "\<not> (k m = i w \<and> k m \<in> i ` set ws)" for m by auto
  from sum_list_filter_disj [of "\<lambda>m. k m = i w" "\<lambda>m. k m \<in> i ` set ws" f ms, OF this] Cons
  show ?case by simp
qed simp

lemma filter_unique_key:
  assumes "distinct (map key xs)" and "x \<in> set xs"
  shows "filter (\<lambda>y. key y = key x \<and> R y) xs = (if R x then [x] else [])"
  using assms
proof (induction xs)
  case (Cons y ys)
  show ?case
  proof (cases "y = x")
    case True
    then have "key z \<noteq> key x" if "z \<in> set ys" for z using that Cons.prems(1) by (auto simp: image_iff)
    then have "filter (\<lambda>y. key y = key x \<and> R y) ys = []" by (auto simp: filter_empty_conv)
    then show ?thesis using True by simp
  next
    case False
    then have "x \<in> set ys" using Cons.prems by simp
    then have "key y \<noteq> key x" using Cons.prems(1) by (auto simp: image_iff)
    then show ?thesis using Cons.IH \<open>x \<in> set ys\<close> Cons.prems(1) by simp
  qed
qed simp

lemma all_results_Inr: "all_results rs = Inr vs \<Longrightarrow> vs = map projr rs \<and> (\<forall>r \<in> set rs. \<exists>v. r = Inr v)"
  by (induction rs arbitrary: vs) (auto split: sum.splits)

lemma sum_list_sort_key:
  fixes f :: "'a \<Rightarrow> 'b :: comm_monoid_add"
  shows "sum_list (map f (filter P (sort_key k xs))) = sum_list (map f (filter P xs))"
proof -
  have "mset (map f (filter P (sort_key k xs))) = mset (map f (filter P xs))" by simp
  then show ?thesis by (metis sum_mset_sum_list)
qed

section \<open>Aggregates\<close>

lemma group_usage_all:
  assumes "\<And>m. m \<in> set ms \<Longrightarrow> model_usage (filter (\<lambda>q. q_model q = m) qs) = Inr (f m)"
  shows "group_usage qs ms = Inr (map (\<lambda>m. (m, f m)) ms)"
  using assms by (induction ms) auto

definition tally_at :: "string \<Rightarrow> model_tally dict \<Rightarrow> model_tally" where
  "tally_at m d = (case map_of d m of None \<Rightarrow> no_tally | Some e \<Rightarrow> e)"

lemma tally_row_at:
  "tally_at m (tally_row d r) = (if at_model r = m then
     (let e = attribution_entry r; t = tally_at m d; add = (\<lambda>x. case x of None \<Rightarrow> id | Some y \<Rightarrow> (\<lambda>a. float_add a y)) in
     \<lparr>ta_total_prompt = float_add (ta_total_prompt t) (float_of_int (wl_prompt_tokens e)),
      ta_total_completion = float_add (ta_total_completion t) (float_of_int (wl_completion_tokens e)),
      ta_effective_prompt = add (wl_effective_prompt e) (ta_effective_prompt t),
      ta_effective_completion = add (wl_effective_completion e) (ta_effective_completion t)\<rparr>)
     else tally_at m d)"
  by (simp add: tally_row_def tally_at_def attribution_entry_def Let_def split: option.split)

lemma tally_dom: "map_of (foldl tally_row d rows) m = None \<longleftrightarrow> map_of d m = None \<and> m \<notin> at_model ` set rows"
  by (induction rows arbitrary: d) (auto simp: tally_row_def Let_def)

text \<open>The lists of numbers that the loop adds up, in order.\<close>

definition entry_prompts :: "attr_row list \<Rightarrow> rat list" where
  "entry_prompts rows = map (\<lambda>r. float_of_int (wl_prompt_tokens (attribution_entry r))) rows"

definition entry_completions :: "attr_row list \<Rightarrow> rat list" where
  "entry_completions rows = map (\<lambda>r. float_of_int (wl_completion_tokens (attribution_entry r))) rows"

definition entry_effective_prompts :: "attr_row list \<Rightarrow> rat list" where
  "entry_effective_prompts rows = List.map_filter (\<lambda>r. wl_effective_prompt (attribution_entry r)) rows"

definition entry_effective_completions :: "attr_row list \<Rightarrow> rat list" where
  "entry_effective_completions rows = List.map_filter (\<lambda>r. wl_effective_completion (attribution_entry r)) rows"

lemmas entry_defs = entry_prompts_def entry_completions_def entry_effective_prompts_def entry_effective_completions_def

lemma tally_sums:
  fixes d :: "model_tally dict"
  defines "mine \<equiv> \<lambda>m rows. filter (\<lambda>r. at_model r = m) rows"
  shows "tally_at m (foldl tally_row d rows) = (let t = tally_at m d in
     \<lparr>ta_total_prompt = foldl float_add (ta_total_prompt t) (entry_prompts (mine m rows)),
      ta_total_completion = foldl float_add (ta_total_completion t) (entry_completions (mine m rows)),
      ta_effective_prompt = foldl float_add (ta_effective_prompt t) (entry_effective_prompts (mine m rows)),
      ta_effective_completion = foldl float_add (ta_effective_completion t) (entry_effective_completions (mine m rows))\<rparr>)"
  unfolding mine_def
proof (induction rows arbitrary: d)
  case (Cons r rows)
  show ?case unfolding foldl_Cons Cons.IH
    by (simp add: tally_row_at entry_defs map_filter_simps Let_def split: option.split)
qed (simp add: entry_defs map_filter_simps Let_def)

section \<open>Conservation\<close>

text \<open>
  What one request contributes to the rows of an account: one row per member of its cluster that is
  a worker of the account.
\<close>

lemma attribution_of_request:
  fixes f :: "attr_row \<Rightarrow> 'b :: comm_monoid_add"
  assumes ok: "schema_ok s" and rows: "attribution acc P None s = Inr rows"
    and q: "q \<in> set (requests s)" "P q"
  shows "sum_list (map f (filter (\<lambda>r. at_request_id r = q_request_id q) rows)) =
    sum_list (map (\<lambda>m. f (projr (attr_row_of s m q)))
      (filter (\<lambda>m. cm_worker_id m \<in> w_worker_id ` {w \<in> set (workers s). w_account_id w = acc} \<and>
         cm_cluster_id m = q_cluster_id q) (cluster_members s)))"
proof -
  let ?h = "\<lambda>(m, q). attr_row_of s m q"
  let ?own = "filter (\<lambda>w. w_account_id w = acc) (workers s)"
  let ?g = "\<lambda>m. if cm_cluster_id m = q_cluster_id q then f (projr (attr_row_of s m q)) else 0"
  obtain ys where ys: "all_results (map ?h (joined acc P None s)) = Inr ys"
    and sorted: "rows = sort_key (\<lambda>r. - at_created_at r) ys"
    using rows by (cases "all_results (map ?h (joined acc P None s))") (auto simp: attribution_def)
  have y: "ys = map (\<lambda>p. projr (?h p)) (joined acc P None s)"
    and good: "\<And>p. p \<in> set (joined acc P None s) \<Longrightarrow> \<exists>v. ?h p = Inr v"
    using all_results_Inr [OF ys] by (auto simp: comp_def)
  have "at_request_id v = q_request_id q'" if "attr_row_of s m q' = Inr v" for m q' v
    using that by (auto simp: attr_row_of_def split: sum.splits)
  then have rid: "at_request_id (projr (?h p)) = q_request_id (snd p)" if "p \<in> set (joined acc P None s)" for p
    using good [OF that] by (cases p) auto
  have one: "filter (\<lambda>q'. q_cluster_id q' = cm_cluster_id m \<and> P q' \<and> q_request_id q' = q_request_id q) (requests s) =
      (if cm_cluster_id m = q_cluster_id q then [q] else [])" for m
  proof -
    have "distinct (map q_request_id (requests s))" using ok by (simp add: schema_ok_def requests_ok_def)
    from filter_unique_key [OF this q(1), of "\<lambda>q'. q_cluster_id q' = cm_cluster_id m \<and> P q'"] q(2)
    have "filter (\<lambda>q'. q_request_id q' = q_request_id q \<and> q_cluster_id q' = cm_cluster_id m \<and> P q') (requests s) =
        (if cm_cluster_id m = q_cluster_id q then [q] else [])" by auto
    moreover have "(\<lambda>q'. q_cluster_id q' = cm_cluster_id m \<and> P q' \<and> q_request_id q' = q_request_id q) =
        (\<lambda>q'. q_request_id q' = q_request_id q \<and> q_cluster_id q' = cm_cluster_id m \<and> P q')" by auto
    ultimately show ?thesis by simp
  qed
  have map_if: "map g (if b then xs else ys) = (if b then map g xs else map g ys)"
    for g :: "request_rec \<Rightarrow> member_row \<times> request_rec" and b xs ys by simp
  have pairs: "filter (\<lambda>p. q_request_id (snd p) = q_request_id q) (joined acc P None s) =
      concat (map (\<lambda>w. concat (map (\<lambda>m. if cm_cluster_id m = q_cluster_id q then [(m, q)] else [])
        (filter (\<lambda>m. cm_worker_id m = w_worker_id w) (cluster_members s)))) ?own)"
    by (simp add: joined_def filter_concat comp_def filter_map one map_if cong: if_cong)
  have "sum_list (map f (filter (\<lambda>r. at_request_id r = q_request_id q) rows)) =
      sum_list (map f (filter (\<lambda>r. at_request_id r = q_request_id q) ys))"
    unfolding sorted by (rule sum_list_sort_key)
  also have "filter (\<lambda>r. at_request_id r = q_request_id q) ys =
      map (\<lambda>p. projr (?h p)) (filter (\<lambda>p. q_request_id (snd p) = q_request_id q) (joined acc P None s))"
    unfolding y filter_map by (intro arg_cong [where f = "map _"] filter_cong) (simp_all add: rid comp_def)
  also have "sum_list (map f \<dots>) = sum_list (map (\<lambda>w. sum_list (map ?g
      (filter (\<lambda>m. cm_worker_id m = w_worker_id w) (cluster_members s)))) ?own)"
    unfolding pairs
    by (simp add: map_concat sum_list_of_concat comp_def if_distrib [of sum_list] if_distrib [of "map _"] cong: if_cong)
  also have "\<dots> = sum_list (map ?g (filter (\<lambda>m. cm_worker_id m \<in> w_worker_id ` set ?own) (cluster_members s)))"
    using ok by (intro sum_list_join) (simp add: schema_ok_def workers_ok_def distinct_map_filter)
  also have "\<dots> = sum_list (map (\<lambda>m. f (projr (attr_row_of s m q)))
      (filter (\<lambda>m. cm_cluster_id m = q_cluster_id q)
        (filter (\<lambda>m. cm_worker_id m \<in> w_worker_id ` set ?own) (cluster_members s))))"
    by (simp only: sum_list_map_filter')
  finally show ?thesis by (simp add: conj_commute)
qed

lemma sql_sum_Inr: "sql_sum a xs = Inr t \<Longrightarrow> t = a + sum_list xs"
proof (induction xs arbitrary: a)
  case (Cons x xs)
  then have "sql_sum (a + x) xs = Inr t" by (simp split: if_splits)
  then show ?case using Cons.IH by fastforce
qed simp

definition window0 :: "member_row \<Rightarrow> int" where
  "window0 m = (case cm_layer_window m of None \<Rightarrow> 0 | Some n \<Rightarrow> n)"

lemma sum_map_filter0:
  "sum_list (List.map_filter cm_layer_window ms) = sum_list (map window0 ms)"
  by (induction ms) (auto simp: map_filter_simps window0_def split: option.split)

lemma cluster_total_sum:
  "cluster_total cid s = Inr (Some t) \<Longrightarrow>
   t = sum_list (map window0 (filter (\<lambda>m. cm_cluster_id m = cid) (cluster_members s)))"
proof -
  let ?ws = "List.map_filter cm_layer_window (filter (\<lambda>m. cm_cluster_id m = cid) (cluster_members s))"
  assume "cluster_total cid s = Inr (Some t)"
  then have "sql_sum 0 ?ws = Inr t"
    by (cases "sql_sum 0 ?ws") (auto simp: cluster_total_def Let_def split: if_splits)
  then show ?thesis using sql_sum_Inr [of 0 ?ws t] by (simp add: sum_map_filter0)
qed

definition effective_prompt0 :: "attr_row \<Rightarrow> rat" where
  "effective_prompt0 r = (case wl_effective_prompt (attribution_entry r) of None \<Rightarrow> 0 | Some x \<Rightarrow> x)"

definition effective_completion0 :: "attr_row \<Rightarrow> rat" where
  "effective_completion0 r = (case wl_effective_completion (attribution_entry r) of None \<Rightarrow> 0 | Some x \<Rightarrow> x)"

lemma sum_filter_le: "(\<And>m. m \<in> set ms \<Longrightarrow> 0 \<le> f m) \<Longrightarrow> sum_list (map f (filter P ms)) \<le> sum_list (map f ms :: int list)"
  by (induction ms) (auto intro: add_mono simp: add_increasing)

text \<open>Three roundings away from the exact part of a member.\<close>

lemma effective_member:
  assumes "cluster_total (q_cluster_id q) s = Inr (Some t)" and "t \<noteq> 0"
  shows "\<bar>effective_prompt0 (projr (attr_row_of s m q)) - of_int (q_prompt_tokens q) * (of_int (window0 m) / of_int t)\<bar>
      \<le> \<bar>of_int (q_prompt_tokens q) * (of_int (window0 m) / of_int t)\<bar> / 2 ^ 51"
    and "\<bar>effective_completion0 (projr (attr_row_of s m q)) - of_int (q_completion_tokens q) * (of_int (window0 m) / of_int t)\<bar>
      \<le> \<bar>of_int (q_completion_tokens q) * (of_int (window0 m) / of_int t)\<bar> / 2 ^ 51"
proof -
  have "effective_prompt0 (projr (attr_row_of s m q)) = (case cm_layer_window m of None \<Rightarrow> 0
      | Some n \<Rightarrow> float_mult (float_of_int (q_prompt_tokens q)) (int_divide n t))"
    "effective_completion0 (projr (attr_row_of s m q)) = (case cm_layer_window m of None \<Rightarrow> 0
      | Some n \<Rightarrow> float_mult (float_of_int (q_completion_tokens q)) (int_divide n t))"
    using assms by (simp_all add: attr_row_of_def effective_prompt0_def effective_completion0_def attribution_entry_def
        share_of_def split: option.split)
  then show "\<bar>effective_prompt0 (projr (attr_row_of s m q)) - of_int (q_prompt_tokens q) * (of_int (window0 m) / of_int t)\<bar>
      \<le> \<bar>of_int (q_prompt_tokens q) * (of_int (window0 m) / of_int t)\<bar> / 2 ^ 51"
    "\<bar>effective_completion0 (projr (attr_row_of s m q)) - of_int (q_completion_tokens q) * (of_int (window0 m) / of_int t)\<bar>
      \<le> \<bar>of_int (q_completion_tokens q) * (of_int (window0 m) / of_int t)\<bar> / 2 ^ 51"
    using scaled_close [of "q_prompt_tokens q" _ t] scaled_close [of "q_completion_tokens q" _ t]
    by (simp_all only: window0_def split: option.split) simp_all
qed

text \<open>A sum of such parts over some members.\<close>

lemma parts_close:
  fixes x t :: int
  assumes "\<And>m. m \<in> set ms \<Longrightarrow> \<bar>f m - of_int x * (of_int (window0 m) / of_int t)\<bar> \<le> \<bar>of_int x * (of_int (window0 m) / of_int t)\<bar> / 2 ^ 51"
    and "\<And>m. m \<in> set ms \<Longrightarrow> 0 \<le> window0 m" and "0 < t"
  shows "\<bar>sum_list (map f ms) - of_int x * (of_int (sum_list (map window0 ms)) / of_int t)\<bar> \<le>
    \<bar>of_int x\<bar> * (of_int (sum_list (map window0 ms)) / of_int t) / (2 ^ 51 :: rat)"
proof -
  have scale: "sum_list (map (\<lambda>m. c * (of_int (window0 m) / of_int t)) ms) = c * (of_int (sum_list (map window0 ms)) / (of_int t :: rat))"
    for c by (induction ms) (simp_all add: distrib_left add_divide_distrib)
  have "\<bar>sum_list (map f ms) - sum_list (map (\<lambda>m. of_int x * (of_int (window0 m) / of_int t)) ms)\<bar> \<le>
      sum_list (map (\<lambda>m. \<bar>of_int x\<bar> / 2 ^ 51 * (of_int (window0 m) / of_int t)) ms)"
  proof (rule sum_close)
    fix m
    assume m: "m \<in> set ms"
    have "\<bar>of_int x * (of_int (window0 m) / of_int t)\<bar> = \<bar>of_int x\<bar> * (of_int (window0 m) / (of_int t :: rat))"
      using assms(2) [OF m] assms(3) by (simp add: abs_mult)
    then show "\<bar>f m - of_int x * (of_int (window0 m) / of_int t)\<bar> \<le> \<bar>of_int x\<bar> / 2 ^ 51 * (of_int (window0 m) / of_int t)"
      using assms(1) [OF m] by simp
  qed
  then show ?thesis unfolding scale by simp
qed

section \<open>Properties\<close>

text \<open>Two requests that the live cluster of \<open>live_pool\<close> served, with the layers split three to one.\<close>

definition demo_request :: "string \<Rightarrow> int \<Rightarrow> rat \<Rightarrow> request_rec" where
  "demo_request i n t = \<lparr>q_request_id = i, q_account_id = ''acc_1'', q_key_id = ''key_1'', q_model = ''m'',
     q_cluster_id = ''clu_1'', q_prompt_tokens = n, q_completion_tokens = 8, q_created_at = t\<rparr>"

definition usage_pool :: pool where
  "usage_pool = live_pool\<lparr>
     api_keys := [\<lparr>k_key_id = ''key_1'', k_account_id = ''acc_1'', k_name = ''k'', k_scope = ''user'',
       k_key_hash = ''h'', k_created_at = 2, k_worker_id = None\<rparr>],
     cluster_members := [(member_row_of demo_cluster (0, ''a''))\<lparr>cm_ready := True, cm_layer_window := Some 3\<rparr>,
       (member_row_of demo_cluster (1, ''b''))\<lparr>cm_ready := True, cm_layer_window := Some 1\<rparr>],
     requests := [demo_request ''r1'' 12 50, demo_request ''r2'' 4 60]\<rparr>"

lemma usage_pool_schema: "schema_ok usage_pool"
  by (simp add: schema_ok_def table_oks id_sets usage_pool_def live_pool_def seated_pool_def demo_pool_def
      demo_worker_def demo_account_def fk_def sql_int_def assigned_worker_def cluster_to_row_def demo_cluster_def
      member_row_of_def demo_request_def)

text \<open>The members of a cluster whose worker belongs to an account, and the rows of one request in its log.\<close>

definition owned_ring :: "string \<Rightarrow> string \<Rightarrow> 'z db_scheme \<Rightarrow> member_row list" where
  "owned_ring acc cid s = filter (\<lambda>m. cm_worker_id m \<in> w_worker_id ` {w \<in> set (workers s). w_account_id w = acc} \<and>
     cm_cluster_id m = cid) (cluster_members s)"

definition rows_of_request :: "request_rec \<Rightarrow> attr_row list \<Rightarrow> attr_row list" where
  "rows_of_request q rows = filter (\<lambda>r. at_request_id r = q_request_id q) rows"

text \<open>Every member whose worker is registered belongs to the ring part of exactly one account.\<close>

lemma owned_rings_sum:
  fixes f :: "member_row \<Rightarrow> 'b :: comm_monoid_add"
  assumes ok: "schema_ok s"
    and there: "\<And>m. m \<in> set (cluster_members s) \<Longrightarrow> cm_cluster_id m = cid \<Longrightarrow> cm_worker_id m \<in> worker_ids s"
  shows "sum_list (map (\<lambda>a. sum_list (map f (owned_ring (a_account_id a) cid s))) (accounts s)) =
    sum_list (map f (filter (\<lambda>m. cm_cluster_id m = cid) (cluster_members s)))"
proof -
  let ?ring = "filter (\<lambda>m. cm_cluster_id m = cid) (cluster_members s)"
  let ?owner = "\<lambda>m. case get_worker (cm_worker_id m) s of None \<Rightarrow> [] | Some w \<Rightarrow> w_account_id w"
  have w: "\<exists>w \<in> set (workers s). w_worker_id w = cm_worker_id m \<and> get_worker (cm_worker_id m) s = Some w \<and> w_account_id w \<in> account_ids s"
    if m: "m \<in> set ?ring" for m
  proof -
    have "cm_worker_id m \<in> worker_ids s" using there m by simp
    then obtain w where in_s: "w \<in> set (workers s)" "w_worker_id w = cm_worker_id m"
      by (auto simp: worker_ids_def)
    then have "get_worker (w_worker_id w) s = Some w"
      using worker_table.get_row [of s w] ok by (simp add: schema_ok_def workers_ok_def)
    moreover have "w_account_id w \<in> account_ids s" using ok in_s by (auto simp: schema_ok_def workers_ok_def)
    ultimately show ?thesis using in_s by auto
  qed
  have own: "owned_ring acc cid s = filter (\<lambda>m. ?owner m = acc) ?ring" for acc
  proof -
    have "(cm_worker_id m \<in> w_worker_id ` {w \<in> set (workers s). w_account_id w = acc}) = (?owner m = acc)" if m: "m \<in> set ?ring" for m
    proof -
      obtain w where w: "w \<in> set (workers s)" "w_worker_id w = cm_worker_id m" "get_worker (cm_worker_id m) s = Some w"
        using w [OF m] by blast
      have "x = w" if "x \<in> set (workers s)" "w_worker_id x = cm_worker_id m" for x
        using that w distinct_key_eq [of w_worker_id "workers s" x w] ok by (simp add: schema_ok_def workers_ok_def)
      then have "(cm_worker_id m \<in> w_worker_id ` {w \<in> set (workers s). w_account_id w = acc}) = (w_account_id w = acc)"
        using w(1,2) unfolding image_iff by (metis (mono_tags, lifting) mem_Collect_eq)
      then show ?thesis unfolding w(3) by simp
    qed
    then have "filter (\<lambda>m. cm_worker_id m \<in> w_worker_id ` {w \<in> set (workers s). w_account_id w = acc}) ?ring = filter (\<lambda>m. ?owner m = acc) ?ring"
      by (intro filter_cong) auto
    then show ?thesis by (simp add: owned_ring_def conj_commute)
  qed
  have "sum_list (map (\<lambda>a. sum_list (map f (filter (\<lambda>m. ?owner m = a_account_id a) ?ring))) (accounts s)) =
      sum_list (map f (filter (\<lambda>m. ?owner m \<in> a_account_id ` set (accounts s)) ?ring))"
    using ok by (intro sum_list_join) (simp add: schema_ok_def accounts_ok_def)
  moreover have "filter (\<lambda>m. ?owner m \<in> a_account_id ` set (accounts s)) ?ring = ?ring"
  proof (rule filter_True, rule ballI)
    fix m
    assume "m \<in> set ?ring"
    from w [OF this] show "?owner m \<in> a_account_id ` set (accounts s)" by (auto simp: account_ids_def)
  qed
  ultimately show ?thesis unfolding own by simp
qed

text \<open>C36: Attribution conserves tokens, up to rounding. For a request that a cluster with a known layer
  distribution served, the effective tokens of an account are the tokens times the part of the layers that its
  workers hold; and when the ring's workers are all still registered, the effective tokens over the
  members of the whole cluster, whoever owns them, add up to the tokens of the request. The error of the float
  arithmetic is at most one part in 2^51.\<close>

theorem effective_tokens_conserved:
  assumes "schema_ok s" and "q \<in> set (requests s)" and "in_window b e q"
    and "cluster_total (q_cluster_id q) s = Inr (Some t)" and "0 < t"
    and "\<forall>a \<in> account_ids s. worker_attribution a b e None None s = Inr (rows a)"
  shows "(\<forall>a \<in> account_ids s.
      let mine = rows_of_request q (rows a); part = of_int (sum_list (map window0 (owned_ring a (q_cluster_id q) s))) / of_int t in
      0 \<le> part \<and> part \<le> 1 \<and>
      \<bar>sum_list (map effective_prompt0 mine) - of_int (q_prompt_tokens q) * part\<bar> \<le> \<bar>of_int (q_prompt_tokens q)\<bar> * part / 2 ^ 51 \<and>
      \<bar>sum_list (map effective_completion0 mine) - of_int (q_completion_tokens q) * part\<bar> \<le> \<bar>of_int (q_completion_tokens q)\<bar> * part / 2 ^ 51) \<and>
    ((\<forall>m \<in> set (cluster_members s). cm_cluster_id m = q_cluster_id q \<longrightarrow> cm_worker_id m \<in> worker_ids s) \<longrightarrow>
      (let total = (\<lambda>f. sum_list (map (\<lambda>a. sum_list (map f (rows_of_request q (rows (a_account_id a))))) (accounts s))) in
       \<bar>total effective_prompt0 - of_int (q_prompt_tokens q)\<bar> \<le> \<bar>of_int (q_prompt_tokens q)\<bar> / 2 ^ 51 \<and>
       \<bar>total effective_completion0 - of_int (q_completion_tokens q)\<bar> \<le> \<bar>of_int (q_completion_tokens q)\<bar> / 2 ^ 51))"
proof -
  let ?ring = "filter (\<lambda>m. cm_cluster_id m = q_cluster_id q) (cluster_members s)"
  let ?row = "\<lambda>m. projr (attr_row_of s m q)"
  have tot: "t = sum_list (map window0 ?ring)" by (rule cluster_total_sum [OF assms(4)])
  have pos: "0 \<le> window0 m" if "m \<in> set (cluster_members s)" for m
    using assms(1) that by (auto simp: schema_ok_def members_ok_def window0_def split: option.splits)
  have mine: "sum_list (map f (rows_of_request q (rows a))) = sum_list (map (f \<circ> ?row) (owned_ring a (q_cluster_id q) s))"
    if "a \<in> account_ids s" for f :: "attr_row \<Rightarrow> rat" and a
  proof -
    have "attribution a (in_window b e) None s = Inr (rows a)"
      using assms(6) that by (simp add: worker_attribution_def)
    from attribution_of_request [OF assms(1) this assms(2,3), of f] show ?thesis
      by (simp add: rows_of_request_def owned_ring_def comp_def)
  qed
  note eff = effective_member [OF assms(4)]
  have close: "\<bar>sum_list (map (effective_prompt0 \<circ> ?row) ms) - of_int (q_prompt_tokens q) * (of_int (sum_list (map window0 ms)) / of_int t)\<bar>
        \<le> \<bar>of_int (q_prompt_tokens q)\<bar> * (of_int (sum_list (map window0 ms)) / of_int t) / 2 ^ 51"
    "\<bar>sum_list (map (effective_completion0 \<circ> ?row) ms) - of_int (q_completion_tokens q) * (of_int (sum_list (map window0 ms)) / of_int t)\<bar>
        \<le> \<bar>of_int (q_completion_tokens q)\<bar> * (of_int (sum_list (map window0 ms)) / of_int t) / 2 ^ 51"
    if "set ms \<subseteq> set (cluster_members s)" for ms
    using that pos assms(5) eff by (intro parts_close; simp add: subset_iff)+
  have sub: "set (owned_ring a (q_cluster_id q) s) \<subseteq> set (cluster_members s)" for a by (auto simp: owned_ring_def)
  have part: "0 \<le> sum_list (map window0 (owned_ring a (q_cluster_id q) s))"
    "sum_list (map window0 (owned_ring a (q_cluster_id q) s)) \<le> t" for a
  proof -
    show "0 \<le> sum_list (map window0 (owned_ring a (q_cluster_id q) s))" using sub pos by (intro sum_list_nonneg) auto
    have "owned_ring a (q_cluster_id q) s = filter (\<lambda>m. cm_worker_id m \<in> w_worker_id ` {w \<in> set (workers s). w_account_id w = a}) ?ring"
      by (simp add: owned_ring_def conj_commute)
    then show "sum_list (map window0 (owned_ring a (q_cluster_id q) s)) \<le> t"
      unfolding tot using pos by (simp only:) (intro sum_filter_le, auto)
  qed
  have total: "sum_list (map (\<lambda>a. sum_list (map f (rows_of_request q (rows (a_account_id a))))) (accounts s)) = sum_list (map (f \<circ> ?row) ?ring)"
    if "\<forall>m \<in> set (cluster_members s). cm_cluster_id m = q_cluster_id q \<longrightarrow> cm_worker_id m \<in> worker_ids s" for f :: "attr_row \<Rightarrow> rat"
  proof -
    have "map (\<lambda>a. sum_list (map f (rows_of_request q (rows (a_account_id a))))) (accounts s) =
        map (\<lambda>a. sum_list (map (f \<circ> ?row) (owned_ring (a_account_id a) (q_cluster_id q) s))) (accounts s)"
      by (intro map_cong refl mine) (auto simp: account_ids_def)
    then show ?thesis using that by (simp only:) (intro owned_rings_sum [OF assms(1)], blast)
  qed
  have one: "of_int (sum_list (map window0 ?ring)) / of_int t = (1 :: rat)" using assms(5) by (simp flip: tot)
  have "set ?ring \<subseteq> set (cluster_members s)" by auto
  note whole = close [OF this, unfolded one mult_1_right]
  show ?thesis
    unfolding Let_def
  proof (intro conjI ballI impI)
    fix a
    assume a: "a \<in> account_ids s"
    let ?part = "of_int (sum_list (map window0 (owned_ring a (q_cluster_id q) s))) / of_int t :: rat"
    show "0 \<le> ?part" "?part \<le> 1" using part [of a] assms(5) by simp_all
    show "\<bar>sum_list (map effective_prompt0 (rows_of_request q (rows a))) - of_int (q_prompt_tokens q) * ?part\<bar>
        \<le> \<bar>of_int (q_prompt_tokens q)\<bar> * ?part / 2 ^ 51"
      "\<bar>sum_list (map effective_completion0 (rows_of_request q (rows a))) - of_int (q_completion_tokens q) * ?part\<bar>
        \<le> \<bar>of_int (q_completion_tokens q)\<bar> * ?part / 2 ^ 51"
      unfolding mine [OF a] by (rule close [OF sub])+
  next
    assume there: "\<forall>m \<in> set (cluster_members s). cm_cluster_id m = q_cluster_id q \<longrightarrow> cm_worker_id m \<in> worker_ids s"
    show "\<bar>sum_list (map (\<lambda>a. sum_list (map effective_prompt0 (rows_of_request q (rows (a_account_id a))))) (accounts s)) -
        of_int (q_prompt_tokens q)\<bar> \<le> \<bar>of_int (q_prompt_tokens q)\<bar> / 2 ^ 51"
      "\<bar>sum_list (map (\<lambda>a. sum_list (map effective_completion0 (rows_of_request q (rows (a_account_id a))))) (accounts s)) -
        of_int (q_completion_tokens q)\<bar> \<le> \<bar>of_int (q_completion_tokens q)\<bar> / 2 ^ 51"
      unfolding total [OF there] by (rule whole)+
  qed
qed

theorem effective_tokens_conserved_witness:
  "\<exists>rows. worker_attribution ''acc_1'' 0 100 None None usage_pool = Inr rows \<and>
     \<bar>sum_list (map effective_prompt0 (filter (\<lambda>r. at_request_id r = ''r1'') rows)) - 12\<bar> \<le> 12 / 2 ^ 51"
proof -
  have mem: "cluster_members usage_pool = [(member_row_of demo_cluster (0, ''a''))\<lparr>cm_ready := True, cm_layer_window := Some 3\<rparr>,
       (member_row_of demo_cluster (1, ''b''))\<lparr>cm_ready := True, cm_layer_window := Some 1\<rparr>]"
    by (simp add: usage_pool_def)
  have total: "cluster_total ''clu_1'' usage_pool = Inr (Some 4)"
    by (simp add: cluster_total_def mem member_row_of_def demo_cluster_def map_filter_simps sql_int_def)
  have joined: "\<forall>p \<in> set (joined ''acc_1'' (in_window 0 100) None usage_pool). q_cluster_id (snd p) = ''clu_1''"
    by (auto simp: joined_def usage_pool_def demo_request_def)
  have "\<exists>v. all_results (map (\<lambda>(m, q). attr_row_of usage_pool m q) ps) = Inr v"
    if "\<forall>p \<in> set ps. q_cluster_id (snd p) = ''clu_1''" for ps
    using that by (induction ps) (auto simp: attr_row_of_def total)
  from this [OF joined] obtain rows where rows: "worker_attribution ''acc_1'' 0 100 None None usage_pool = Inr rows"
    by (auto simp: worker_attribution_def attribution_def)
  have acc: "accounts usage_pool = [demo_account]" "a_account_id demo_account = ''acc_1''"
    by (simp_all add: usage_pool_def live_pool_def seated_pool_def demo_pool_def demo_account_def)
  have "account_ids usage_pool = {''acc_1''}" by (simp add: account_ids_def acc)
  then have "\<forall>a \<in> account_ids usage_pool. worker_attribution a 0 100 None None usage_pool = Inr ((\<lambda>_. rows) a)"
    using rows by simp
  moreover have "demo_request ''r1'' 12 50 \<in> set (requests usage_pool)" "in_window 0 100 (demo_request ''r1'' 12 50)"
    "cluster_total (q_cluster_id (demo_request ''r1'' 12 50)) usage_pool = Inr (Some 4)" "(0::int) < 4"
    using total by (simp_all add: usage_pool_def in_window_def demo_request_def)
  ultimately have all: "(\<forall>m \<in> set (cluster_members usage_pool). cm_cluster_id m = q_cluster_id (demo_request ''r1'' 12 50) \<longrightarrow> cm_worker_id m \<in> worker_ids usage_pool) \<longrightarrow>
      (let total = (\<lambda>f. sum_list (map (\<lambda>a. sum_list (map f (rows_of_request (demo_request ''r1'' 12 50) rows))) (accounts usage_pool))) in
       \<bar>total effective_prompt0 - of_int (q_prompt_tokens (demo_request ''r1'' 12 50))\<bar> \<le> \<bar>of_int (q_prompt_tokens (demo_request ''r1'' 12 50))\<bar> / 2 ^ 51 \<and>
       \<bar>total effective_completion0 - of_int (q_completion_tokens (demo_request ''r1'' 12 50))\<bar> \<le> \<bar>of_int (q_completion_tokens (demo_request ''r1'' 12 50))\<bar> / 2 ^ 51)"
    using effective_tokens_conserved [OF usage_pool_schema, of "demo_request ''r1'' 12 50" 0 100 4 "\<lambda>_. rows"] by blast
  have "\<forall>m \<in> set (cluster_members usage_pool). cm_cluster_id m = q_cluster_id (demo_request ''r1'' 12 50) \<longrightarrow> cm_worker_id m \<in> worker_ids usage_pool"
    by (simp add: mem member_row_of_def worker_ids_def)
      (simp add: usage_pool_def live_pool_def seated_pool_def assigned_worker_def demo_worker_def)
  from mp [OF all this] show ?thesis using rows
    by (auto simp: Let_def acc rows_of_request_def demo_request_def)
qed

text \<open>C37: The statistics of an account's workers agree with its log: for every model, the totals and the
  effective tokens that the loop accumulates are the float sums, in the order of the log, of the numbers that
  the log entries of that model show, and a model is listed exactly when it has an entry. A total is
  exact as long as the tokens stay within 2^53; the effective tokens are off the exact sum by one
  rounding per entry.\<close>

theorem worker_stats_agree_with_logs:
  "let mine = filter (\<lambda>r. at_model r = m) rows;
       close = (\<lambda>x xs. \<bar>x - sum_list xs\<bar> \<le> ((1 + 1 / 2 ^ 53) ^ length xs - 1) * sum_list (map abs xs)) in
   case map_of (tally_rows rows) m of None \<Rightarrow> mine = []
   | Some t \<Rightarrow> mine \<noteq> [] \<and>
       ta_total_prompt t = float_sum (entry_prompts mine) \<and>
       ta_total_completion t = float_sum (entry_completions mine) \<and>
       ta_effective_prompt t = float_sum (entry_effective_prompts mine) \<and>
       ta_effective_completion t = float_sum (entry_effective_completions mine) \<and>
       close (ta_effective_prompt t) (entry_effective_prompts mine) \<and>
       close (ta_effective_completion t) (entry_effective_completions mine) \<and>
       (sum_list (map (\<lambda>r. \<bar>at_prompt_tokens r\<bar>) mine) \<le> 2 ^ 53 \<longrightarrow>
          ta_total_prompt t = of_int (sum_list (map at_prompt_tokens mine))) \<and>
       (sum_list (map (\<lambda>r. \<bar>at_completion_tokens r\<bar>) mine) \<le> 2 ^ 53 \<longrightarrow>
          ta_total_completion t = of_int (sum_list (map at_completion_tokens mine)))"
proof -
  let ?mine = "filter (\<lambda>r. at_model r = m) rows"
  have none: "map_of (tally_rows rows) m = None \<longleftrightarrow> ?mine = []"
    using tally_dom [of "[]" rows m] by (auto simp: tally_rows_def filter_empty_conv)
  have "t = tally_at m (foldl tally_row [] rows)" if "map_of (tally_rows rows) m = Some t" for t
    using that by (simp add: tally_at_def tally_rows_def)
  then have sums: "ta_total_prompt t = float_sum (entry_prompts ?mine)" "ta_total_completion t = float_sum (entry_completions ?mine)"
    "ta_effective_prompt t = float_sum (entry_effective_prompts ?mine)"
    "ta_effective_completion t = float_sum (entry_effective_completions ?mine)"
    if "map_of (tally_rows rows) m = Some t" for t
    using that by (simp_all add: tally_sums float_sum_def Let_def) (simp_all add: tally_at_def no_tally_def)
  have exact: "sum_list (map (\<lambda>r. \<bar>f r\<bar>) rs) \<le> 2 ^ 53 \<Longrightarrow> float_sum (map (\<lambda>r. float_of_int (f r)) rs) = of_int (sum_list (map f rs))"
    for f :: "attr_row \<Rightarrow> int" and rs using float_sum_ints [of "map f rs"] by (simp add: comp_def)
  have tokens: "entry_prompts ?mine = map (\<lambda>r. float_of_int (at_prompt_tokens r)) ?mine"
    "entry_completions ?mine = map (\<lambda>r. float_of_int (at_completion_tokens r)) ?mine"
    by (simp_all add: entry_defs attribution_entry_def)
  show ?thesis
    using none sums float_sum_error exact by (auto simp: Let_def tokens split: option.split)
qed

definition demo_attr :: attr_row where
  "demo_attr = \<lparr>at_request_id = ''r1'', at_model = ''m'', at_cluster_id = ''clu_1'', at_prompt_tokens = 12, at_completion_tokens = 8,
     at_created_at = 50, at_worker_id = ''a'', at_layer_window = Some 3, at_cluster_total = Some 4\<rparr>"

theorem worker_stats_agree_with_logs_witness:
  "\<exists>t. map_of (tally_rows [demo_attr, demo_attr]) ''m'' = Some t \<and> ta_total_prompt t = 24"
proof -
  have "map_of (tally_rows [demo_attr, demo_attr]) ''m'' \<noteq> None"
    using tally_dom [of "[]" "[demo_attr, demo_attr]" "''m''"] by (simp add: tally_rows_def demo_attr_def)
  then obtain t where t: "map_of (tally_rows [demo_attr, demo_attr]) ''m'' = Some t" by blast
  from worker_stats_agree_with_logs [of "''m''" "[demo_attr, demo_attr]"] show ?thesis
    unfolding Let_def t by (simp add: t) (simp add: demo_attr_def)
qed

definition window_requests :: "string \<Rightarrow> rat \<Rightarrow> rat \<Rightarrow> 'z db_scheme \<Rightarrow> request_rec list" where
  "window_requests acc b e s = filter (\<lambda>q. q_account_id q = acc \<and> in_window b e q) (requests s)"

text \<open>The usage of a window is exact: as long as the token counts of the window stay below 2^63 in
  total, the statistics list for each model the number of its requests and the sums of their tokens,
  and list only models that were used.\<close>

theorem usage_stats_exact:
  assumes "sum_list (map (\<lambda>q. \<bar>q_prompt_tokens q\<bar>) (window_requests acc b e s)) < 2 ^ 63"
    and "sum_list (map (\<lambda>q. \<bar>q_completion_tokens q\<bar>) (window_requests acc b e s)) < 2 ^ 63"
  shows "\<exists>d. usage_stats_in_range acc b e s = Inr d \<and> distinct (map fst d) \<and>
    (\<forall>m. map_of d m = (let qs = filter (\<lambda>q. q_model q = m) (window_requests acc b e s) in
       if qs = [] then None
       else Some (length qs, sum_list (map q_prompt_tokens qs), sum_list (map q_completion_tokens qs))))"
proof -
  let ?qs = "window_requests acc b e s"
  let ?ms = "sort (remdups (map q_model ?qs))"
  let ?u = "\<lambda>m. let qs = filter (\<lambda>q. q_model q = m) ?qs in
    (length qs, sum_list (map q_prompt_tokens qs), sum_list (map q_completion_tokens qs))"
  have "model_usage (filter (\<lambda>q. q_model q = m) ?qs) = Inr (?u m)" for m
  proof -
    let ?f = "filter (\<lambda>q. q_model q = m) ?qs"
    have "sum_list (map (\<lambda>q. \<bar>q_prompt_tokens q\<bar>) ?f) < 2 ^ 63" "sum_list (map (\<lambda>q. \<bar>q_completion_tokens q\<bar>) ?f) < 2 ^ 63"
      using assms sum_list_abs_filter order_le_less_trans by blast+
    then have "sql_sum 0 (map q_prompt_tokens ?f) = Inr (sum_list (map q_prompt_tokens ?f))"
      "sql_sum 0 (map q_completion_tokens ?f) = Inr (sum_list (map q_completion_tokens ?f))"
      by (subst sql_sum_fits; simp add: comp_def)+
    then show ?thesis by (simp add: model_usage_def Let_def)
  qed
  then have "usage_stats_in_range acc b e s = Inr (map (\<lambda>m. (m, ?u m)) ?ms)"
    by (simp add: usage_stats_in_range_def group_usage_all Let_def flip: window_requests_def)
  moreover have "map_of (map (\<lambda>m. (m, ?u m)) ?ms) m = (let qs = filter (\<lambda>q. q_model q = m) ?qs in
       if qs = [] then None
       else Some (length qs, sum_list (map q_prompt_tokens qs), sum_list (map q_completion_tokens qs)))" for m
    by (auto simp: Let_def map_of_map_restrict restrict_map_def filter_empty_conv)
  ultimately show ?thesis by (auto simp: comp_def)
qed

theorem usage_stats_exact_witness:
  "\<exists>d. usage_stats_in_range ''acc_1'' 0 100 usage_pool = Inr d \<and> map_of d ''m'' = Some (2, 16, 16)"
proof -
  have qs: "window_requests ''acc_1'' 0 100 usage_pool = [demo_request ''r1'' 12 50, demo_request ''r2'' 4 60]"
    by (simp add: window_requests_def usage_pool_def in_window_def demo_request_def)
  show ?thesis
    using usage_stats_exact [of "''acc_1''" 0 100 usage_pool] unfolding qs
    by (auto simp: demo_request_def Let_def)
qed

text \<open>The request log shows the most recent requests: for a positive limit, the answer is in order,
  newest first, holds only requests of the account in the window, is as long as the limit allows, and
  no request that is left out is newer than one that is shown.\<close>

theorem request_log_newest:
  assumes "0 < limit" and "limit < 2 ^ 63"
  shows "\<exists>qs rest. list_requests_in_range acc b e limit s = Inr qs \<and>
    mset (qs @ rest) = mset (window_requests acc b e s) \<and>
    sorted_wrt (\<lambda>p q. q_created_at q \<le> q_created_at p) (qs @ rest) \<and>
    length qs = min (nat limit) (length (window_requests acc b e s))"
proof -
  let ?all = "newest_first (window_requests acc b e s)"
  have "list_requests_in_range acc b e limit s = Inr (take (nat limit) ?all)"
    using assms by (simp add: list_requests_in_range_def sql_int_def sql_limit_def window_requests_def)
  moreover have "mset ?all = mset (window_requests acc b e s)" by (simp add: newest_first_def)
  moreover have "sorted_wrt (\<lambda>p q. q_created_at q \<le> q_created_at p) ?all"
    using sorted_sort_key [of q_created_at "window_requests acc b e s"]
    by (simp add: newest_first_def sorted_wrt_rev sorted_map)
  moreover have "length ?all = length (window_requests acc b e s)" by (simp add: newest_first_def)
  ultimately show ?thesis
    by (intro exI [of _ "take (nat limit) ?all"] exI [of _ "drop (nat limit) ?all"]) simp
qed

theorem request_log_newest_witness:
  "\<exists>qs rest. list_requests_in_range ''acc_1'' 0 100 1 usage_pool = Inr qs \<and>
     mset (qs @ rest) = mset (window_requests ''acc_1'' 0 100 usage_pool) \<and> length qs = 1"
proof -
  have "length (window_requests ''acc_1'' 0 100 usage_pool) = 2"
    by (simp add: window_requests_def usage_pool_def in_window_def demo_request_def)
  then show ?thesis using request_log_newest [of 1 "''acc_1''" 0 100 usage_pool] by auto
qed

end
