(* ===== verification/Pool_Hub.thy ===== *)
theory Pool_Hub
  imports Pool_Usage
begin

text \<open>
  ws_hub.py: the table of connections, one socket per worker, and the frames sent on them, and the
  delivery of the notifications that the scheduler queued. A socket is a number. A send is two steps,
  for it awaits the socket: \<open>hub_send\<close> looks up the socket and suspends the coroutine as a flight, and
  \<open>hub_sent\<close> resumes it when the send has succeeded or failed, which is the choice of the step. In
  between the server does other things. A worker whose send fails is forgotten.
\<close>

section \<open>The hub\<close>

text \<open>\<open>connect\<close> after its \<open>await ws.accept()\<close>, and \<open>disconnect\<close>, which goes by the worker alone.\<close>

definition hub_connect :: "string \<Rightarrow> nat \<Rightarrow> (pool, unit) act" where
  "hub_connect wid ws = puts (\<lambda>s. s\<lparr>conns := dict_set wid ws (conns s)\<rparr>)"

definition hub_disconnect :: "string \<Rightarrow> (pool, unit) act" where
  "hub_disconnect wid = puts (\<lambda>s. s\<lparr>conns := filter (\<lambda>(k, _). k \<noteq> wid) (conns s)\<rparr>)"

text \<open>
  \<open>send\<close> up to \<open>await ws.send_json(frame)\<close>: without a connection it returns at once, and what the
  caller does next (\<open>next_step\<close>) follows; otherwise the rest of the caller is suspended.
\<close>

definition hub_send :: "string \<Rightarrow> frame \<Rightarrow> job list \<Rightarrow> (pool, unit) act \<Rightarrow> (pool, unit) act" where
  "hub_send wid f rest next_step =
     bnd (gets (\<lambda>s. map_of (conns s) wid)) (\<lambda>c.
     case c of None \<Rightarrow> next_step
     | Some ws \<Rightarrow> puts (\<lambda>s. s\<lparr>flights := flights s @
         [\<lparr>fl_worker = wid, fl_socket = ws, fl_frame = f, fl_rest = rest\<rparr>]\<rparr>))"

text \<open>A coroutine runs until it is suspended in a send, serves its socket, or ends.\<close>

fun proceed :: "job list \<Rightarrow> (pool, unit) act" where
  "proceed [] = ret ()"
| "proceed (SendTo wid f # rest) = hub_send wid f rest (proceed rest)"
| "proceed (SendToMember cid wid f # rest) =
     bnd (gets (get_worker wid)) (\<lambda>r.
     case r of None \<Rightarrow> proceed rest
     | Some w \<Rightarrow> if w_cluster_id w = Some cid then hub_send wid f rest (proceed rest) else proceed rest)"
| "proceed (Receive ws wid # rest) = seqa (puts (\<lambda>s. s\<lparr>socks := (ws, wid) # socks s\<rparr>)) (proceed rest)"

text \<open>\<open>send\<close> after the await: the frame is out, or \<open>except Exception: self.disconnect(worker_id)\<close>.\<close>

definition hub_sent :: "flight \<Rightarrow> bool \<Rightarrow> (pool, unit) act" where
  "hub_sent fl delivered =
     seqa (puts (\<lambda>s. s\<lparr>flights := remove1 fl (flights s)\<rparr>))
    (seqa (if delivered then puts (\<lambda>s. s\<lparr>sent := sent s @ [(fl_socket fl, fl_frame fl)]\<rparr>)
           else hub_disconnect (fl_worker fl))
     (proceed (fl_rest fl)))"

definition broadcast_cluster_assigned :: "string \<Rightarrow> frame \<Rightarrow> (pool, unit) act" where
  "broadcast_cluster_assigned wid f = proceed [SendTo wid f]"

definition broadcast_cluster_dissolved ::
  "string \<Rightarrow> string \<Rightarrow> string list option \<Rightarrow> (pool, unit) act" where
  "broadcast_cluster_dissolved cid reason member_ids =
     (let f = ClusterDissolved cid reason in
      case member_ids of
        Some ids \<Rightarrow> proceed (map (\<lambda>wid. SendTo wid f) ids)
      | None \<Rightarrow> bnd (gets (\<lambda>s. map fst (conns s))) (\<lambda>wids. proceed (map (\<lambda>wid. SendToMember cid wid f) wids)))"

text \<open>\<open>send_hello\<close>, then the rest of its caller.\<close>

definition send_hello :: "env \<Rightarrow> string \<Rightarrow> job list \<Rightarrow> (pool, unit) act" where
  "send_hello e wid rest =
     bnd (gets (get_worker wid)) (\<lambda>w.
     case w of None \<Rightarrow> proceed rest
     | Some w \<Rightarrow> proceed (SendTo wid (Hello (w_status w) (w_online w)
         (truncate_rat (heartbeat_interval_s (cfg e))) (ws_reconnect_backoff_s (cfg e))) # rest))"

section \<open>Queued notifications\<close>

definition run_task :: "task \<Rightarrow> (pool, unit) act" where
  "run_task t = (case t of
     NotifyAssigned wid f \<Rightarrow> broadcast_cluster_assigned wid f
   | NotifyDissolved ids (ClusterDissolved cid reason) \<Rightarrow> broadcast_cluster_dissolved cid reason (Some ids)
   | _ \<Rightarrow> ret ())"

text \<open>The event loop starts the oldest notification.\<close>

definition run_next_task :: "(pool, unit) act" where
  "run_next_task =
     bnd (gets tasks) (\<lambda>ts.
     case ts of [] \<Rightarrow> ret ()
     | t # rest \<Rightarrow> seqa (puts (\<lambda>s. s\<lparr>tasks := rest\<rparr>)) (run_task t))"

section \<open>What a send does\<close>

definition conns_ok :: "pool \<Rightarrow> bool" where
  "conns_ok s \<longleftrightarrow> distinct (map fst (conns s))"

lemma disconnected: "map_of (filter (\<lambda>(k, _). k \<noteq> wid) cs) wid = None"
  by (induction cs) auto

text \<open>A coroutine never touches the connections before it is resumed.\<close>

lemma hub_send_frame:
  assumes "wp m (\<lambda>_ t. \<exists>fs ss. t = s\<lparr>flights := fs, socks := ss\<rparr>) (\<lambda>_ _. False) s"
  shows "wp (hub_send wid f rest m) (\<lambda>_ t. \<exists>fs ss. t = s\<lparr>flights := fs, socks := ss\<rparr>) (\<lambda>_ _. False) s"
proof (cases "map_of (conns s) wid")
  case (Some ws)
  have "\<exists>fs ss. s\<lparr>flights := x\<rparr> = s\<lparr>flights := fs, socks := ss\<rparr>" for x
    by (intro exI [of _ x] exI [of _ "socks s"]) simp
  then show ?thesis using Some by (simp add: hub_send_def wp_simps)
qed (use assms in \<open>simp add: hub_send_def wp_simps\<close>)

lemma proceed_frame: "wp (proceed js) (\<lambda>_ t. \<exists>fs ss. t = s\<lparr>flights := fs, socks := ss\<rparr>) (\<lambda>_ _. False) s"
proof (induction js arbitrary: s rule: proceed.induct)
  case 1
  show ?case by (auto simp: wp_simps intro!: exI [of _ "flights s"] exI [of _ "socks s"])
next
  case (2 wid f rest)
  show ?case unfolding proceed.simps by (rule hub_send_frame [OF 2])
next
  case (3 cid wid f rest)
  show ?case using 3(1) hub_send_frame [OF 3(2)]
    by (auto simp: wp_bnd [of "gets _"] wp_gets 3 split: option.split)
next
  case (4 ws wid rest)
  have "wp (proceed rest) (\<lambda>_ t. \<exists>fs ss. t = s\<lparr>flights := fs, socks := ss\<rparr>) (\<lambda>_ _. False)
      (s\<lparr>socks := (ws, wid) # socks s\<rparr>)"
    by (rule wp_conseq [OF 4]) auto
  then show ?case by (simp add: wp_simps)
qed

lemma proceed_conns: "wp (proceed js) (\<lambda>_ t. conns t = conns s) (\<lambda>_ _. False) s"
  by (rule wp_conseq [OF proceed_frame]) auto

text \<open>
  A notice to a ring waits for the first member that is connected, with the members after it left to do;
  when nobody is connected it is over.
\<close>

lemma notice_starts:
  "proceed (map (\<lambda>wid. SendTo wid f) ids) s = (Inr (), s\<lparr>flights := flights s @
     (case dropWhile (\<lambda>wid. map_of (conns s) wid = None) ids of [] \<Rightarrow> []
      | wid # rest \<Rightarrow> [\<lparr>fl_worker = wid, fl_socket = the (map_of (conns s) wid), fl_frame = f,
          fl_rest = map (\<lambda>wid. SendTo wid f) rest\<rparr>])\<rparr>)"
  by (induction ids) (auto simp: hub_send_def act_defs split: option.split)

end
