(* ===== verification/Pool_Auth.thy ===== *)
theory Pool_Auth
  imports Pool_Liveness Pool_Hub
begin

text \<open>
  The authentication helpers of app.py: who presents a credential (a session token or an API key, in
  an \<open>Authorization: Bearer\<close> header), what the account may do, and which worker a worker credential
  stands for. A helper that only reads is a function from the state to an exception or a value.
\<close>

section \<open>Credentials\<close>

text \<open>The token of \<open>Bearer <token>\<close>; \<open>None\<close> for anything else.\<close>

definition bearer :: "string option \<Rightarrow> string option" where
  "bearer authorization =
     (case authorization of None \<Rightarrow> None
      | Some a \<Rightarrow>
          if map lower_char (take 7 a) \<noteq> ''bearer '' then None else Some (strip (drop 7 a)))"

definition bad_credentials :: exn where
  "bad_credentials = unauthorized_error ''The provided credentials are not valid.''"

definition banned_error :: exn where
  "banned_error = forbidden_error ''This account is banned.''"

definition session_account :: "env \<Rightarrow> string option \<Rightarrow> 'z db_scheme \<Rightarrow> exn + string" where
  "session_account e authorization s =
     (case bearer authorization of None \<Rightarrow> Inl bad_credentials
      | Some token \<Rightarrow>
     (case verify_session (prim e) token (session_secret (cfg e)) (truncate_rat (clock s)) of
        Inl x \<Rightarrow> Inl x
      | Inr None \<Rightarrow> Inl (unauthorized_error ''Session token is invalid or expired.'')
      | Inr (Some (account_id, _)) \<Rightarrow>
     (case get_account account_id s of None \<Rightarrow> Inl bad_credentials
      | Some rec \<Rightarrow> if a_banned rec then Inl banned_error else Inr account_id)))"

text \<open>\<open>_api_key\<close>: the account, the scope and the id of a scoped API key.\<close>

definition api_key :: "env \<Rightarrow> string option \<Rightarrow> 'z db_scheme \<Rightarrow> exn + string \<times> string \<times> string" where
  "api_key e authorization s =
     (case bearer authorization of None \<Rightarrow> Inl bad_credentials
      | Some secret \<Rightarrow>
     (case resolve_api_key (prim e) secret s of
        None \<Rightarrow> Inl (unauthorized_error ''The provided API key is not valid.'')
      | Some rec \<Rightarrow>
     (case get_account (k_account_id rec) s of
        Some acct \<Rightarrow> if a_banned acct then Inl banned_error
          else Inr (k_account_id rec, k_scope rec, k_key_id rec)
      | None \<Rightarrow> Inr (k_account_id rec, k_scope rec, k_key_id rec))))"

section \<open>Capabilities\<close>

definition can_work :: "env \<Rightarrow> string \<Rightarrow> 'z db_scheme \<Rightarrow> bool" where
  "can_work e account_id s =
     (case get_account account_id s of None \<Rightarrow> False
      | Some rec \<Rightarrow> if a_banned rec then False else a_can_work rec \<or> work_permissionless (cfg e))"

definition can_use :: "env \<Rightarrow> string \<Rightarrow> 'z db_scheme \<Rightarrow> bool" where
  "can_use e account_id s =
     (case get_account account_id s of None \<Rightarrow> False
      | Some rec \<Rightarrow> if a_banned rec then False else a_can_use rec \<or> use_permissionless (cfg e))"

definition require_admin :: "env \<Rightarrow> string option \<Rightarrow> 'z db_scheme \<Rightarrow> exn + account_rec" where
  "require_admin e authorization s =
     (case session_account e authorization s of Inl x \<Rightarrow> Inl x
      | Inr account_id \<Rightarrow>
     (case get_account account_id s of None \<Rightarrow> Inl (forbidden_error ''Admin privileges required.'')
      | Some rec \<Rightarrow> if a_is_admin rec then Inr rec else Inl (forbidden_error ''Admin privileges required.'')))"

definition assert_not_banned :: "string \<Rightarrow> 'z db_scheme \<Rightarrow> exn + unit" where
  "assert_not_banned account_id s =
     (case get_account account_id s of None \<Rightarrow> Inr ()
      | Some rec \<Rightarrow> if a_banned rec then Inl banned_error else Inr ())"

section \<open>User and worker credentials\<close>

definition user_credential :: "env \<Rightarrow> string option \<Rightarrow> 'z db_scheme \<Rightarrow> exn + string" where
  "user_credential e authorization s =
     (case (case bearer authorization of None \<Rightarrow> None | Some secret \<Rightarrow> resolve_api_key (prim e) secret s) of
        Some rec \<Rightarrow>
          if k_scope rec \<noteq> ''user'' then Inl (forbidden_error ''A worker key cannot view usage.'')
          else (case assert_not_banned (k_account_id rec) s of Inl x \<Rightarrow> Inl x | Inr _ \<Rightarrow> Inr (k_account_id rec))
      | None \<Rightarrow> session_account e authorization s)"

definition is_unauthorized :: "exn \<Rightarrow> bool" where
  "is_unauthorized x = (case x of Problem p \<Rightarrow> p_class p = UnauthorizedError | _ \<Rightarrow> False)"

text \<open>The account, the scope, the id of the key and the worker that the key is bound to.\<close>

definition worker_credential ::
  "env \<Rightarrow> string option \<Rightarrow> 'z db_scheme \<Rightarrow> exn + string \<times> string \<times> string option \<times> string option" where
  "worker_credential e authorization s =
     (case (case (case bearer authorization of None \<Rightarrow> None | Some secret \<Rightarrow> resolve_api_key (prim e) secret s) of
              Some rec \<Rightarrow> Inr (k_account_id rec, k_scope rec, Some (k_key_id rec), k_worker_id rec)
            | None \<Rightarrow>
                (case session_account e authorization s of
                   Inl x \<Rightarrow> Inl (if is_unauthorized x then bad_credentials else x)
                 | Inr account_id \<Rightarrow> Inr (account_id, ''session'', None, None))) of
        Inl x \<Rightarrow> Inl x
      | Inr (account_id, scope, key_id, bound_worker_id) \<Rightarrow>
          if scope \<noteq> ''worker'' \<and> scope \<noteq> ''session'' then Inl (forbidden_error ''A user key cannot manage workers.'')
          else (case assert_not_banned account_id s of Inl x \<Rightarrow> Inl x
            | Inr _ \<Rightarrow> Inr (account_id, scope, key_id, bound_worker_id)))"

text \<open>\<open>try: store.bind_api_key_to_worker(...) except Exception\<close>, which is only logged.\<close>

definition try_bind :: "string option \<Rightarrow> string \<Rightarrow> (pool, unit) act" where
  "try_bind key_id wid =
     (case key_id of None \<Rightarrow> ret ()
      | Some k \<Rightarrow> if k = [] then ret () else try_with (bind_api_key_to_worker k wid) (\<lambda>_. ret ()))"

definition worker_from_key :: "env \<Rightarrow> string option \<Rightarrow> string \<Rightarrow> (pool, worker_rec) act" where
  "worker_from_key e authorization worker_id =
     bnd (asks (worker_credential e authorization)) (\<lambda>(account_id, scope, key_id, bound_worker_id).
     bnd (gets (get_worker worker_id)) (\<lambda>r.
     case r of None \<Rightarrow> throw (not_found_error ''Worker does not exist.'')
     | Some w \<Rightarrow>
         if w_account_id w \<noteq> account_id
         then throw (forbidden_error ''This credential does not own this worker.'')
         else seqa (if bound_worker_id \<noteq> Some worker_id then try_bind key_id worker_id else ret ())
           (ret w)))"

definition bound_worker :: "env \<Rightarrow> string option \<Rightarrow> string \<Rightarrow> (pool, worker_rec) act" where
  "bound_worker e authorization cluster_id =
     bnd (asks (worker_credential e authorization)) (\<lambda>(account_id, scope, key_id, bound_worker_id).
     bnd (gets (\<lambda>s. case bound_worker_id of None \<Rightarrow> None
        | Some b \<Rightarrow> if b = [] then None
            else (case get_worker b s of None \<Rightarrow> None
              | Some w \<Rightarrow> if w_cluster_id w = Some cluster_id then Some w else None))) (\<lambda>direct.
     case direct of Some w \<Rightarrow> ret w
     | None \<Rightarrow>
         bnd (gets (\<lambda>s. filter (\<lambda>w. w_account_id w = account_id \<and> w_cluster_id w = Some cluster_id)
            (list_workers s))) (\<lambda>matches.
         case matches of [w] \<Rightarrow> seqa (try_bind key_id (w_worker_id w)) (ret w)
         | _ \<Rightarrow> throw (forbidden_error ''This credential does not own a member of this cluster.''))))"

section \<open>What a credential stands for\<close>

definition not_banned :: "string \<Rightarrow> 'z db_scheme \<Rightarrow> bool" where
  "not_banned account_id s \<longleftrightarrow> (\<exists>rec. get_account account_id s = Some rec \<and> \<not> a_banned rec)"

lemma resolve_in: "resolve_api_key k secret s = Some r \<Longrightarrow> r \<in> set (api_keys s)"
  by (auto simp: resolve_api_key_def dest: find_Some_in)

lemma key_account: "keys_ok s \<Longrightarrow> r \<in> set (api_keys s) \<Longrightarrow> \<exists>a. get_account (k_account_id r) s = Some a"
  using account_table.get_None [of "k_account_id r" s] by (auto simp: keys_ok_def account_ids_def)

lemma session_account_ok:
  "session_account e auth s = Inr a \<Longrightarrow> not_banned a s"
  by (auto simp: session_account_def not_banned_def split: option.splits sum.splits if_splits)

lemma api_key_ok:
  assumes "keys_ok s" and "api_key e auth s = Inr (a, scope, kid)"
  shows "not_banned a s \<and> (\<exists>r \<in> set (api_keys s). k_key_id r = kid \<and> k_account_id r = a \<and> k_scope r = scope)"
proof -
  obtain secret r where r: "bearer auth = Some secret" "resolve_api_key (prim e) secret s = Some r"
    using assms(2) by (auto simp: api_key_def split: option.splits)
  obtain acct where acct: "get_account (k_account_id r) s = Some acct"
    using key_account [OF assms(1) resolve_in [OF r(2)]] by blast
  show ?thesis using assms(2) r acct resolve_in [OF r(2)]
    by (auto simp: api_key_def not_banned_def split: if_splits)
qed

lemma assert_not_banned_ok:
  "get_account a s = Some rec \<Longrightarrow> assert_not_banned a s = Inr u \<Longrightarrow> not_banned a s"
  by (auto simp: assert_not_banned_def not_banned_def split: if_splits)

lemma user_credential_ok:
  assumes "keys_ok s" and "user_credential e auth s = Inr a"
  shows "not_banned a s"
proof (cases "case bearer auth of None \<Rightarrow> None | Some secret \<Rightarrow> resolve_api_key (prim e) secret s")
  case None
  then show ?thesis using assms(2) session_account_ok by (simp add: user_credential_def)
next
  case (Some r)
  then have "r \<in> set (api_keys s)" by (auto split: option.splits intro: resolve_in)
  then obtain acct where "get_account (k_account_id r) s = Some acct" using key_account [OF assms(1)] by blast
  then show ?thesis using assms(2) Some assert_not_banned_ok
    by (auto simp: user_credential_def split: if_splits sum.splits)
qed

lemma worker_credential_ok:
  assumes "keys_ok s" and "worker_credential e auth s = Inr (a, scope, kid, b)"
  shows "not_banned a s \<and>
    (scope = ''session'' \<and> kid = None \<and> b = None \<and> session_account e auth s = Inr a \<or>
     (\<exists>r \<in> set (api_keys s). kid = Some (k_key_id r) \<and> k_account_id r = a \<and> k_scope r = scope \<and>
        k_worker_id r = b \<and> (scope = ''worker'' \<or> scope = ''session'')))"
proof (cases "case bearer auth of None \<Rightarrow> None | Some secret \<Rightarrow> resolve_api_key (prim e) secret s")
  case None
  then obtain x where "session_account e auth s = Inr x"
    using assms(2) by (cases "session_account e auth s") (simp_all add: worker_credential_def)
  then show ?thesis using assms(2) None session_account_ok
    by (auto simp: worker_credential_def split: sum.splits)
next
  case (Some r)
  then have r: "r \<in> set (api_keys s)" by (auto split: option.splits intro: resolve_in)
  then obtain acct where "get_account (k_account_id r) s = Some acct" using key_account [OF assms(1)] by blast
  then show ?thesis using assms(2) Some assert_not_banned_ok r
    by (auto simp: worker_credential_def split: if_splits sum.splits)
qed

text \<open>A key is only ever bound to a worker of its own account.\<close>

definition bindings_ok :: "'z db_scheme \<Rightarrow> bool" where
  "bindings_ok s \<longleftrightarrow> (\<forall>r \<in> set (api_keys s). \<forall>i. k_worker_id r = Some i \<longrightarrow>
     (\<exists>w. get_worker i s = Some w \<and> w_account_id w = k_account_id r))"

text \<open>The binding of key \<open>k\<close> to worker \<open>i\<close>.\<close>

definition bound_to :: "string \<Rightarrow> string \<Rightarrow> pool \<Rightarrow> pool" where
  "bound_to k i s = s\<lparr>api_keys := map (\<lambda>r. if k_key_id r = k then r\<lparr>k_worker_id := Some i\<rparr> else r) (api_keys s)\<rparr>"

lemma try_bind_wp:
  "wp (try_bind kid i) (\<lambda>_ t. t = s \<or> (\<exists>k. kid = Some k \<and> i \<in> worker_ids s \<and> t = bound_to k i s) \<or>
      (\<exists>k. kid = Some k \<and> k \<notin> key_ids s \<and> t = bound_to k i s)) (\<lambda>_ _. False) s"
  by (auto simp: try_bind_def wp_simps bound_to_def split: option.split)

definition own_key :: "string \<Rightarrow> string option \<Rightarrow> 'z db_scheme \<Rightarrow> bool" where
  "own_key a kid s \<longleftrightarrow> (\<forall>k. kid = Some k \<longrightarrow> (\<exists>r. get_api_key k s = Some r \<and> k_account_id r = a))"

lemma own_key_credential:
  assumes "keys_ok s" and "worker_credential e auth s = Inr (a, scope, kid, b)"
  shows "own_key a kid s"
  using worker_credential_ok [OF assms] key_table.get_row [of s] assms(1)
  unfolding own_key_def keys_ok_def by (metis option.inject option.simps(3))

lemma worker_from_key_wp:
  assumes "keys_ok s"
  shows "wp (worker_from_key e auth i)
    (\<lambda>w t. \<exists>a scope kid b. worker_credential e auth s = Inr (a, scope, kid, b) \<and> own_key a kid s \<and>
       get_worker i s = Some w \<and> w_account_id w = a \<and>
       (t = s \<or> (\<exists>k. kid = Some k \<and> b \<noteq> Some i \<and> t = bound_to k i s)))
    (\<lambda>x t. t = s) s"
proof (cases "worker_credential e auth s")
  case (Inr c)
  obtain a scope kid b where c: "c = (a, scope, kid, b)" by (cases c) auto
  have own: "own_key a kid s" using own_key_credential [OF assms] Inr c by simp
  show ?thesis
    unfolding worker_from_key_def wp_simps Inr c
    by (auto simp: wp_simps own intro!: wp_conseq [OF try_bind_wp] split: option.split)
qed (simp add: worker_from_key_def wp_simps)

lemma bound_worker_wp:
  assumes "keys_ok s" and "bindings_ok s" and wok: "workers_ok s"
  shows "wp (bound_worker e auth cid)
    (\<lambda>w t. \<exists>a scope kid b. worker_credential e auth s = Inr (a, scope, kid, b) \<and> own_key a kid s \<and>
       get_worker (w_worker_id w) s = Some w \<and> w_account_id w = a \<and> w_cluster_id w = Some cid \<and>
       (t = s \<or> (\<exists>k. kid = Some k \<and> t = bound_to k (w_worker_id w) s)))
    (\<lambda>x t. t = s) s"
proof (cases "worker_credential e auth s")
  case (Inr c)
  obtain a scope kid b where c: "c = (a, scope, kid, b)" by (cases c) auto
  have own: "own_key a kid s" using own_key_credential [OF assms(1)] Inr c by simp
  have direct: "w_account_id w = a \<and> w_worker_id w = i" if "b = Some i" "get_worker i s = Some w" for i w
  proof -
    have "\<exists>r \<in> set (api_keys s). k_account_id r = a \<and> k_worker_id r = Some i"
      using worker_credential_ok [OF assms(1)] Inr c that(1) by fastforce
    then have "w_account_id w = a" using assms(2) that(2) by (auto simp: bindings_ok_def)
    then show ?thesis using worker_table.get_in [OF that(2)] by simp
  qed
  have match: "get_worker (w_worker_id w) s = Some w \<and> w_account_id w = a \<and> w_cluster_id w = Some cid"
    if "filter (\<lambda>w. w_account_id w = a \<and> w_cluster_id w = Some cid) (list_workers s) = [w]" for w
  proof -
    have "w \<in> set (filter (\<lambda>w. w_account_id w = a \<and> w_cluster_id w = Some cid) (list_workers s))" unfolding that by simp
    then show ?thesis using worker_table.get_row [of s w] wok by (simp add: list_workers_def workers_ok_def)
  qed
  let ?direct = "case b of None \<Rightarrow> None
        | Some b \<Rightarrow> if b = [] then None
            else (case get_worker b s of None \<Rightarrow> None
              | Some w \<Rightarrow> if w_cluster_id w = Some cid then Some w else None)"
  let ?ms = "filter (\<lambda>w. w_account_id w = a \<and> w_cluster_id w = Some cid) (list_workers s)"
  let ?post = "\<lambda>w t. \<exists>a scope kid b. worker_credential e auth s = Inr (a, scope, kid, b) \<and> own_key a kid s \<and>
       get_worker (w_worker_id w) s = Some w \<and> w_account_id w = a \<and> w_cluster_id w = Some cid \<and>
       (t = s \<or> (\<exists>k. kid = Some k \<and> t = bound_to k (w_worker_id w) s))"
  have cred: "worker_credential e auth s = Inr (a, scope, kid, b)" using Inr c by simp
  show ?thesis
  proof (cases ?direct)
    case (Some w)
    then obtain i where i: "b = Some i" "get_worker i s = Some w" "w_cluster_id w = Some cid"
      by (auto split: option.splits if_splits)
    have "?post w s" using cred own direct [OF i(1,2)] i by auto
    then show ?thesis using Some unfolding bound_worker_def wp_simps cred by (simp add: wp_simps)
  next
    case None
    show ?thesis
    proof (cases "\<exists>w. ?ms = [w]")
      case True
      then obtain w where w: "?ms = [w]" by blast
      have post: "?post w t" if "t = s \<or> (\<exists>k. kid = Some k \<and> t = bound_to k (w_worker_id w) s)" for t
        using cred own match [OF w] that by blast
      have "wp (seqa (try_bind kid (w_worker_id w)) (ret w)) ?post (\<lambda>x t. t = s) s"
        unfolding wp_seqa wp_ret
        by (rule wp_conseq [OF try_bind_wp], rule post) auto
      then show ?thesis using None w unfolding bound_worker_def wp_simps cred by (simp add: wp_simps wp_funs)
    next
      case False
      then have "(case ?ms of [w] \<Rightarrow> seqa (try_bind kid (w_worker_id w)) (ret w)
         | _ \<Rightarrow> throw (forbidden_error ''This credential does not own a member of this cluster.'')) =
         throw (forbidden_error ''This credential does not own a member of this cluster.'')"
        by (auto split: list.split)
      then show ?thesis using None unfolding bound_worker_def wp_simps cred by (simp add: wp_simps)
    qed
  qed
qed (simp add: bound_worker_def wp_simps)

section \<open>Properties\<close>

text \<open>The seated pool with a user key and a worker key, the latter bound to the worker a.\<close>

definition auth_pool :: pool where
  "auth_pool = seated_pool\<lparr>api_keys :=
     [\<lparr>k_key_id = ''key_1'', k_account_id = ''acc_1'', k_name = ''u'', k_scope = ''user'',
        k_key_hash = ''sha256$sk-user-1'', k_created_at = 2, k_worker_id = None\<rparr>,
      \<lparr>k_key_id = ''key_2'', k_account_id = ''acc_1'', k_name = ''w'', k_scope = ''worker'',
        k_key_hash = ''sha256$sk-worker-2'', k_created_at = 3, k_worker_id = Some ''a''\<rparr>]\<rparr>"

lemma auth_pool_schema: "schema_ok auth_pool"
  by (simp add: schema_ok_def table_oks id_sets auth_pool_def seated_pool_def demo_pool_def
      demo_worker_def demo_account_def fk_def sql_int_def assigned_worker_def cluster_to_row_def demo_cluster_def
      member_row_of_def)

lemma auth_pool_tables: "clusters auth_pool = clusters seated_pool" "cluster_members auth_pool = cluster_members seated_pool"
  "workers auth_pool = workers seated_pool" "accounts auth_pool = [demo_account]"
  by (simp_all add: auth_pool_def seated_pool_def demo_pool_def)

lemma auth_pool_ok: "pool_ok auth_pool"
proof -
  have g: "get_cluster i auth_pool = get_cluster i seated_pool" for i
    by (rule get_cluster_cong) (simp_all add: auth_pool_tables)
  then have "seat_ok auth_pool = seat_ok seated_pool" by (simp add: fun_eq_iff seat_ok_def)
  then show ?thesis
    using seated_pool_ok auth_pool_schema ring_ok_cong [of auth_pool seated_pool]
    by (simp add: pool_ok_def store_ok_def subnets_ok_def assign_ok_def g auth_pool_tables)
qed

lemma auth_pool_keys:
  "resolve_api_key demo_crypto ''sk-worker-2'' auth_pool = Some
     \<lparr>k_key_id = ''key_2'', k_account_id = ''acc_1'', k_name = ''w'', k_scope = ''worker'',
        k_key_hash = ''sha256$sk-worker-2'', k_created_at = 3, k_worker_id = Some ''a''\<rparr>"
  "resolve_api_key demo_crypto ''sk-user-1'' auth_pool = Some
     \<lparr>k_key_id = ''key_1'', k_account_id = ''acc_1'', k_name = ''u'', k_scope = ''user'',
        k_key_hash = ''sha256$sk-user-1'', k_created_at = 2, k_worker_id = None\<rparr>"
  by (simp_all add: resolve_api_key_def hash_api_key_def demo_crypto_def auth_pool_def)

lemma bearer_token: "bearer (Some (''Bearer '' @ t)) = Some (strip t)"
proof -
  have "lower_char CHR ''B'' = CHR ''b''" by code_simp
  then show ?thesis by (simp add: bearer_def) (simp add: lower_char_def)
qed

lemma auth_pool_worker_credential:
  "worker_credential demo_env (Some ''Bearer sk-worker-2'') auth_pool = Inr (''acc_1'', ''worker'', Some ''key_2'', Some ''a'')"
proof -
  have "bearer (Some ''Bearer sk-worker-2'') = Some ''sk-worker-2''"
    using bearer_token [of "''sk-worker-2''"] by (simp add: strip_def is_space_def)
  moreover have "prim demo_env = demo_crypto" by (simp add: demo_env_def)
  ultimately show ?thesis using auth_pool_keys(1)
    by (simp add: worker_credential_def assert_not_banned_def get_account_def auth_pool_tables demo_account_def)
qed

lemma auth_pool_bindings: "bindings_ok auth_pool"
  by (simp add: bindings_ok_def get_worker_def auth_pool_tables)
    (simp add: auth_pool_def seated_pool_def assigned_worker_def demo_worker_def)

text \<open>The scopes of API keys are separated: a user key is refused wherever a worker credential is
  asked for, and a worker key wherever a user credential is asked for, whatever else holds.\<close>

theorem scopes_separated:
  assumes "bearer auth = Some secret" and "resolve_api_key (prim e) secret s = Some r"
  shows "(k_scope r = ''user'' \<longrightarrow>
       worker_credential e auth s = Inl (forbidden_error ''A user key cannot manage workers.'')) \<and>
    (k_scope r = ''worker'' \<longrightarrow>
       user_credential e auth s = Inl (forbidden_error ''A worker key cannot view usage.''))"
  using assms by (simp add: worker_credential_def user_credential_def)

theorem scopes_separated_witness:
  "worker_credential demo_env (Some ''Bearer sk-user-1'') auth_pool = Inl (forbidden_error ''A user key cannot manage workers.'')"
proof -
  have "bearer (Some ''Bearer sk-user-1'') = Some ''sk-user-1''"
    using bearer_token [of "''sk-user-1''"] by (simp add: strip_def is_space_def)
  moreover have "prim demo_env = demo_crypto" by (simp add: demo_env_def)
  ultimately show ?thesis
    using scopes_separated [of "Some ''Bearer sk-user-1''" "''sk-user-1''" demo_env auth_pool] auth_pool_keys(2)
    by simp
qed

text \<open>C33: A ban is a hard gate: whatever credential resolves, by any of the four ways of authenticating,
  belongs to an account that exists and is not banned.\<close>

theorem authenticated_not_banned:
  assumes "schema_ok s"
  shows "(session_account e auth s = Inr a \<longrightarrow> not_banned a s) \<and>
    (api_key e auth s = Inr (a, scope, kid) \<longrightarrow> not_banned a s) \<and>
    (user_credential e auth s = Inr a \<longrightarrow> not_banned a s) \<and>
    (worker_credential e auth s = Inr (a, scope, key, b) \<longrightarrow> not_banned a s)"
proof -
  have k: "keys_ok s" using assms by (simp add: schema_ok_def)
  show ?thesis
    using session_account_ok api_key_ok [OF k] user_credential_ok [OF k] worker_credential_ok [OF k] by blast
qed

theorem authenticated_not_banned_witness:
  "worker_credential demo_env (Some ''Bearer sk-worker-2'') auth_pool = Inr (''acc_1'', ''worker'', Some ''key_2'', Some ''a'') \<and>
   not_banned ''acc_1'' auth_pool"
  using authenticated_not_banned [OF auth_pool_schema] auth_pool_worker_credential by blast

text \<open>C34: A worker credential only reaches workers of its own account: \<open>_worker_from_key\<close> returns the worker
  that was asked for, owned by the account of the credential, and changes nothing but the binding of the
  presented key; every refusal leaves the store alone.\<close>

theorem worker_from_key_owns:
  assumes "schema_ok s"
  shows "wp (worker_from_key e auth i)
    (\<lambda>w t. \<exists>a scope kid b. worker_credential e auth s = Inr (a, scope, kid, b) \<and> own_key a kid s \<and>
       get_worker i s = Some w \<and> w_account_id w = a \<and>
       (t = s \<or> (\<exists>k. kid = Some k \<and> b \<noteq> Some i \<and> t = bound_to k i s)))
    (\<lambda>x t. t = s) s"
  using assms worker_from_key_wp by (simp add: schema_ok_def)

theorem worker_from_key_owns_witness:
  "wp (worker_from_key demo_env (Some ''Bearer sk-worker-2'') ''b'')
     (\<lambda>w t. get_worker ''b'' auth_pool = Some w \<and> w_account_id w = ''acc_1'') (\<lambda>x t. t = auth_pool) auth_pool"
  by (rule wp_conseq [OF worker_from_key_owns [OF auth_pool_schema]]) (auto simp: auth_pool_worker_credential)

text \<open>A report about a cluster comes from a member of it: the worker that \<open>_bound_worker\<close> resolves is
  owned by the account of the credential, points at that cluster, and sits in its ring at its own
  position; the cluster is not terminated.\<close>

theorem bound_worker_is_member:
  assumes "pool_ok s" and "bindings_ok s"
  shows "wp (bound_worker e auth cid)
    (\<lambda>w t. \<exists>a scope kid b. worker_credential e auth s = Inr (a, scope, kid, b) \<and> w_account_id w = a \<and>
       w \<in> set (workers s) \<and>
       (\<exists>c i. get_cluster cid s = Some c \<and> c_status c \<noteq> terminated \<and> i < length (c_members c) \<and>
          c_members c ! i = w_worker_id w \<and> w_ring_position w = Some i) \<and>
       (t = s \<or> (\<exists>k. kid = Some k \<and> t = bound_to k (w_worker_id w) s)))
    (\<lambda>x t. t = s) s"
proof -
  have ok: "keys_ok s" "workers_ok s" using assms(1) by (simp_all add: pool_ok_def store_ok_def schema_ok_def)
  have seat: "seat_ok s w" if "w \<in> set (workers s)" for w using assms(1) that by (simp add: pool_ok_def assign_ok_def)
  show ?thesis
  proof (rule wp_conseq [OF bound_worker_wp [OF ok(1) assms(2) ok(2)]])
    fix w t
    assume "\<exists>a scope kid b. worker_credential e auth s = Inr (a, scope, kid, b) \<and> own_key a kid s \<and>
       get_worker (w_worker_id w) s = Some w \<and> w_account_id w = a \<and> w_cluster_id w = Some cid \<and>
       (t = s \<or> (\<exists>k. kid = Some k \<and> t = bound_to k (w_worker_id w) s))"
    then obtain a scope kid b where w: "worker_credential e auth s = Inr (a, scope, kid, b)"
      "get_worker (w_worker_id w) s = Some w" "w_account_id w = a" "w_cluster_id w = Some cid"
      "t = s \<or> (\<exists>k. kid = Some k \<and> t = bound_to k (w_worker_id w) s)" by blast
    have mem: "w \<in> set (workers s)" using worker_table.get_in [OF w(2)] by simp
    have "\<exists>c i. get_cluster cid s = Some c \<and> c_status c \<noteq> terminated \<and> i < length (c_members c) \<and>
          c_members c ! i = w_worker_id w \<and> w_ring_position w = Some i"
      using seat [OF mem] w(4) unfolding seat_ok_def by blast
    with w mem show "\<exists>a scope kid b. worker_credential e auth s = Inr (a, scope, kid, b) \<and> w_account_id w = a \<and>
       w \<in> set (workers s) \<and>
       (\<exists>c i. get_cluster cid s = Some c \<and> c_status c \<noteq> terminated \<and> i < length (c_members c) \<and>
          c_members c ! i = w_worker_id w \<and> w_ring_position w = Some i) \<and>
       (t = s \<or> (\<exists>k. kid = Some k \<and> t = bound_to k (w_worker_id w) s))" by blast
  qed
qed

theorem bound_worker_is_member_witness:
  "wp (bound_worker demo_env (Some ''Bearer sk-worker-2'') ''clu_1'')
     (\<lambda>w t. w_account_id w = ''acc_1'' \<and> w_worker_id w \<in> set (c_members demo_cluster)) (\<lambda>x t. t = auth_pool) auth_pool"
proof (rule wp_conseq [OF bound_worker_is_member [OF auth_pool_ok auth_pool_bindings]])
  have g: "get_cluster ''clu_1'' auth_pool = Some demo_cluster"
    using get_cluster_cong [of auth_pool seated_pool] get_seated [of "''clu_1''"] by (simp add: auth_pool_tables)
  fix w t
  assume "\<exists>a scope kid b. worker_credential demo_env (Some ''Bearer sk-worker-2'') auth_pool = Inr (a, scope, kid, b) \<and>
       w_account_id w = a \<and> w \<in> set (workers auth_pool) \<and>
       (\<exists>c i. get_cluster ''clu_1'' auth_pool = Some c \<and> c_status c \<noteq> terminated \<and> i < length (c_members c) \<and>
          c_members c ! i = w_worker_id w \<and> w_ring_position w = Some i) \<and>
       (t = auth_pool \<or> (\<exists>k. kid = Some k \<and> t = bound_to k (w_worker_id w) auth_pool))"
  then show "w_account_id w = ''acc_1'' \<and> w_worker_id w \<in> set (c_members demo_cluster)"
    using g auth_pool_worker_credential by (metis nth_mem option.inject prod.inject sum.inject(2))
qed

end
