(* ===== verification/Pool_Accounts.thy ===== *)
theory Pool_Accounts
  imports Pool_Auth
begin

text \<open>
  The account, key and admin handlers of app.py and the bootstrap of the first admin. A handler is an
  action of the pool; the body of a request is its arguments, and the schema of a body (models.py) is a
  predicate on them. Times in answers are the timestamps that \<open>_iso\<close> formats.
\<close>

section \<open>Accounts\<close>

definition valid_register_account :: "string \<Rightarrow> string \<Rightarrow> bool" where
  "valid_register_account username password \<longleftrightarrow>
     1 \<le> length username \<and> length username \<le> 64 \<and> 8 \<le> length password \<and> length password \<le> 256"

definition register_account :: "env \<Rightarrow> string \<Rightarrow> string \<Rightarrow> (pool, account_rec) act" where
  "register_account e username password =
     bnd (create_account (prim e) username password) (\<lambda>r.
     case r of None \<Rightarrow> throw (conflict_error ''username_taken'' ''Username Taken'' ''That username is already registered.'')
     | Some rec \<Rightarrow> ret rec)"

text \<open>The session token and its expiry.\<close>

definition login :: "env \<Rightarrow> string \<Rightarrow> string \<Rightarrow> (pool, string \<times> int) act" where
  "login e username password =
     bnd (gets (get_account_by_username username)) (\<lambda>r.
     case r of None \<Rightarrow> throw (unauthorized_error ''Invalid credentials.'')
     | Some rec \<Rightarrow>
         bnd (lift_result (verify_password (prim e) password (a_password_hash rec))) (\<lambda>ok.
         if \<not> ok then throw (unauthorized_error ''Invalid credentials.'')
         else if a_banned rec then throw banned_error
         else bnd (gets clock) (\<lambda>now.
           let expires_at = truncate_rat now + session_ttl_s (cfg e) in
           ret (sign_session (prim e) (a_account_id rec) (session_secret (cfg e)) expires_at, expires_at))))"

definition valid_new_password :: "string \<Rightarrow> bool" where
  "valid_new_password p \<longleftrightarrow> 8 \<le> length p \<and> length p \<le> 256"

definition change_password :: "env \<Rightarrow> string \<Rightarrow> string \<Rightarrow> string \<Rightarrow> string option \<Rightarrow> (pool, unit) act" where
  "change_password e account_id current_password new_password authorization =
     bnd (asks (session_account e authorization)) (\<lambda>session.
     if session \<noteq> account_id then throw (forbidden_error ''Cannot change another account's password.'')
     else bnd (gets (get_account account_id)) (\<lambda>r.
     case r of None \<Rightarrow> throw (not_found_error ''Account does not exist.'')
     | Some rec \<Rightarrow>
         bnd (lift_result (verify_password (prim e) current_password (a_password_hash rec))) (\<lambda>ok.
         if \<not> ok then throw (unauthorized_error ''Current password is incorrect.'')
         else bnd (hash_password (prim e) new_password) (\<lambda>h.
              bnd (set_password account_id h) (\<lambda>_. ret ())))))"

section \<open>API keys\<close>

definition valid_create_key :: "string \<Rightarrow> string \<Rightarrow> bool" where
  "valid_create_key name scope \<longleftrightarrow> 1 \<le> length name \<and> length name \<le> 64 \<and> scope \<in> {''worker'', ''user''}"

definition own_account :: "env \<Rightarrow> string \<Rightarrow> string \<Rightarrow> string option \<Rightarrow> (pool, unit) act" where
  "own_account e account_id refusal authorization =
     bnd (asks (session_account e authorization)) (\<lambda>session.
     if session \<noteq> account_id then throw (forbidden_error refusal) else ret ())"

definition create_key :: "env \<Rightarrow> string \<Rightarrow> string \<Rightarrow> string \<Rightarrow> string option \<Rightarrow> (pool, api_key_rec \<times> string) act" where
  "create_key e account_id name scope authorization =
     seqa (own_account e account_id ''Cannot manage another account's keys.'' authorization)
       (create_api_key (prim e) account_id name scope)"

definition list_keys :: "env \<Rightarrow> string \<Rightarrow> string option \<Rightarrow> (pool, (string \<times> string \<times> string \<times> rat) list) act" where
  "list_keys e account_id authorization =
     seqa (own_account e account_id ''Cannot manage another account's keys.'' authorization)
       (gets (\<lambda>s. map (\<lambda>k. (k_key_id k, k_name k, k_scope k, k_created_at k)) (list_api_keys account_id s)))"

definition revoke_key :: "env \<Rightarrow> string \<Rightarrow> string \<Rightarrow> string option \<Rightarrow> (pool, unit) act" where
  "revoke_key e account_id key_id authorization =
     seqa (own_account e account_id ''Cannot manage another account's keys.'' authorization)
       (bnd (gets (get_api_key key_id)) (\<lambda>r.
        case r of None \<Rightarrow> throw (not_found_error ''Key does not exist.'')
        | Some rec \<Rightarrow>
            if k_account_id rec \<noteq> account_id then throw (not_found_error ''Key does not exist.'')
            else bnd (revoke_api_key key_id) (\<lambda>_. ret ())))"

section \<open>Administration\<close>

record admin_account =
  aa_account_id :: string
  aa_username :: string
  aa_is_admin :: bool
  aa_can_work :: bool
  aa_can_use :: bool
  aa_banned :: bool
  aa_effective_can_work :: bool
  aa_effective_can_use :: bool
  aa_created_at :: rat

definition admin_account_view :: "env \<Rightarrow> 'z db_scheme \<Rightarrow> account_rec \<Rightarrow> admin_account" where
  "admin_account_view e s a = \<lparr>aa_account_id = a_account_id a, aa_username = a_username a,
     aa_is_admin = a_is_admin a, aa_can_work = a_can_work a, aa_can_use = a_can_use a, aa_banned = a_banned a,
     aa_effective_can_work = can_work e (a_account_id a) s, aa_effective_can_use = can_use e (a_account_id a) s,
     aa_created_at = a_created_at a\<rparr>"

definition admin_permission_state :: "env \<Rightarrow> string option \<Rightarrow> (pool, bool \<times> bool) act" where
  "admin_permission_state e authorization =
     bnd (asks (require_admin e authorization)) (\<lambda>_.
     ret (work_permissionless (cfg e), use_permissionless (cfg e)))"

definition admin_list_accounts :: "env \<Rightarrow> string option \<Rightarrow> (pool, admin_account list) act" where
  "admin_list_accounts e authorization =
     bnd (asks (require_admin e authorization)) (\<lambda>_.
     gets (\<lambda>s. map (admin_account_view e s) (list_accounts s)))"

definition admin_update_account ::
  "env \<Rightarrow> string \<Rightarrow> bool option \<Rightarrow> bool option \<Rightarrow> bool option \<Rightarrow> bool option \<Rightarrow> string option
   \<Rightarrow> (pool, admin_account) act" where
  "admin_update_account e account_id is_admin work use ban authorization =
     bnd (asks (require_admin e authorization)) (\<lambda>_.
     bnd (gets (get_account account_id)) (\<lambda>r.
     case r of None \<Rightarrow> throw (not_found_error ''Account does not exist.'')
     | Some target \<Rightarrow>
         if is_admin = None \<and> work = None \<and> use = None \<and> ban = None
         then throw (bad_request_error ''No permission field to update.'')
         else bnd (gets count_admins) (\<lambda>admins.
           if is_admin = Some False \<and> a_is_admin target \<and> admins \<le> 1
           then throw (conflict_error ''last_admin'' ''Last Admin'' ''Cannot demote the last remaining admin.'')
           else bnd (update_account_permissions account_id is_admin work use ban) (\<lambda>_.
                bnd (gets (get_account account_id)) (\<lambda>updated.
                case updated of None \<Rightarrow> throw AttributeError
                | Some a \<Rightarrow> gets (\<lambda>s. admin_account_view e s a))))))"

section \<open>The first account\<close>

definition bootstrap_first_account :: "env \<Rightarrow> (pool, unit) act" where
  "bootstrap_first_account e =
     (let raw = strip (first_account (cfg e)) in
      if raw = [] \<or> CHR '':'' \<notin> set raw then ret ()
      else
        (let username = strip (takeWhile (\<lambda>c. c \<noteq> CHR '':'') raw);
             password = tl (dropWhile (\<lambda>c. c \<noteq> CHR '':'') raw) in
         if username = [] \<or> password = [] then ret ()
         else bnd (gets count_admins) (\<lambda>admins.
           if admins > 0 then ret ()
           else bnd (gets (get_account_by_username username)) (\<lambda>taken.
             if taken \<noteq> None then ret ()
             else bnd (create_account (prim e) username password) (\<lambda>r.
               case r of None \<Rightarrow> ret ()
               | Some rec \<Rightarrow>
                   bnd (update_account_permissions (a_account_id rec) (Some True) None None None) (\<lambda>_. ret ()))))))"

section \<open>The primitives that the server relies on\<close>

text \<open>
  The documented behaviour of base64 (the decoder inverts the encoder, whose alphabet has no dollar),
  of scrypt (it returns as many bytes as asked) and of a hexadecimal HMAC digest.
\<close>

definition hex_digits :: string where
  "hex_digits = ''0123456789abcdef''"

definition crypto_ok :: "crypto \<Rightarrow> bool" where
  "crypto_ok k \<longleftrightarrow> (\<forall>x. b64decode k (b64encode k x) = Inr x) \<and> (\<forall>x. CHR ''$'' \<notin> set (b64encode k x)) \<and>
     (\<forall>pw salt. \<exists>d. scrypt k pw salt 16384 8 1 32 = Inr d \<and> length d = 32) \<and>
     (\<forall>key msg. hmac_sha256_hex k key msg \<noteq> [] \<and> set (hmac_sha256_hex k key msg) \<subseteq> set hex_digits)"

lemma hash_password_wp:
  assumes "crypto_ok k"
  shows "wp (hash_password k pw) (\<lambda>h t. verify_password k pw h = Inr True \<and> t = s\<lparr>rnd_used := Suc (rnd_used s)\<rparr>)
    (\<lambda>_ _. False) s"
proof -
  have "wp (hash_password k pw) (\<lambda>h _. verify_password k pw h = Inr True) (\<lambda>_ _. False) s"
    using assms by (intro hash_verifies) (auto simp: crypto_ok_def)
  moreover have "wp (hash_password k pw) (\<lambda>_ t. t = s\<lparr>rnd_used := Suc (rnd_used s)\<rparr>) (\<lambda>_ _. True) s"
    by (simp add: hash_password_def wp_simps split: sum.split)
  ultimately show ?thesis using wp_conj by fastforce
qed

definition fresh_account :: "'z db_scheme \<Rightarrow> string \<Rightarrow> string \<Rightarrow> account_rec" where
  "fresh_account s username h = \<lparr>a_account_id = ''acc_'' @ rnd s (rnd_used s), a_username = username,
     a_password_hash = h, a_created_at = clock s, a_is_admin = False, a_can_work = False, a_can_use = True,
     a_banned = False\<rparr>"

lemma create_account_wp:
  assumes "crypto_ok k" and "get_account_by_username u s = None"
    and "''acc_'' @ rnd s (rnd_used s) \<notin> account_ids s"
  shows "wp (create_account k u p)
    (\<lambda>r t. \<exists>h. r = Some (fresh_account s u h) \<and> verify_password k p h = Inr True \<and>
       t = s\<lparr>rnd_used := Suc (Suc (rnd_used s)), accounts := accounts s @ [fresh_account s u h]\<rparr>)
    (\<lambda>_ _. False) s"
proof -
  let ?s1 = "s\<lparr>rnd_used := Suc (rnd_used s)\<rparr>"
  have free: "u \<notin> a_username ` set (accounts s)"
    using assms(2) by (simp add: get_account_by_username_def find_None_key)
  have "wp (hash_password k p) (\<lambda>h t. verify_password k p h = Inr True \<and> t = ?s1\<lparr>rnd_used := Suc (rnd_used ?s1)\<rparr>)
    (\<lambda>_ _. False) ?s1" by (rule hash_password_wp [OF assms(1)])
  then have "wp (hash_password k p) (\<lambda>password_hash.
       wp (bnd (gets clock) (\<lambda>created_at.
       let rec = \<lparr>a_account_id = ''acc_'' @ rnd s (rnd_used s), a_username = u,
                  a_password_hash = password_hash, a_created_at = created_at,
                  a_is_admin = False, a_can_work = False, a_can_use = True, a_banned = False\<rparr>
       in try_with (seqa (insert_account rec) (ret (Some rec)))
            (\<lambda>e. if e = IntegrityError then ret None else throw e)))
      (\<lambda>r t. \<exists>h. r = Some (fresh_account s u h) \<and> verify_password k p h = Inr True \<and>
         t = s\<lparr>rnd_used := Suc (Suc (rnd_used s)), accounts := accounts s @ [fresh_account s u h]\<rparr>)
      (\<lambda>_ _. False)) (\<lambda>_ _. False) ?s1"
  proof (rule wp_conseq)
    fix h t
    assume h: "verify_password k p h = Inr True \<and> t = ?s1\<lparr>rnd_used := Suc (rnd_used ?s1)\<rparr>"
    from h show "wp (bnd (gets clock) (\<lambda>created_at.
       let rec = \<lparr>a_account_id = ''acc_'' @ rnd s (rnd_used s), a_username = u,
                  a_password_hash = h, a_created_at = created_at,
                  a_is_admin = False, a_can_work = False, a_can_use = True, a_banned = False\<rparr>
       in try_with (seqa (insert_account rec) (ret (Some rec)))
            (\<lambda>e. if e = IntegrityError then ret None else throw e)))
      (\<lambda>r t. \<exists>h. r = Some (fresh_account s u h) \<and> verify_password k p h = Inr True \<and>
         t = s\<lparr>rnd_used := Suc (Suc (rnd_used s)), accounts := accounts s @ [fresh_account s u h]\<rparr>)
      (\<lambda>_ _. False) t"
      using assms(3) free by (simp add: wp_simps fresh_account_def account_ids_def Let_def)
  qed simp
  then show ?thesis
    using assms(2) by (simp add: create_account_def new_id_def wp_simps wp_funs)
qed

text \<open>A token that the server signed is accepted until it expires.\<close>

lemma signed_session_account:
  assumes "crypto_ok (prim e)" and "length (str_int x) \<le> 4300"
  shows "session_account e (Some (''Bearer '' @ sign_session (prim e) a (session_secret (cfg e)) x)) s =
    (if truncate_rat (clock s) \<le> x then
       (case get_account a s of None \<Rightarrow> Inl bad_credentials
        | Some rec \<Rightarrow> if a_banned rec then Inl banned_error else Inr a)
     else Inl (unauthorized_error ''Session token is invalid or expired.''))"
proof -
  let ?k = "prim e" and ?sec = "session_secret (cfg e)"
  let ?h = "hmac_sha256_hex ?k ?sec (session_payload a x)"
  have h: "?h \<noteq> []" "set ?h \<subseteq> set hex_digits" using assms(1) by (simp_all add: crypto_ok_def)
  have "list_all (\<lambda>c. (of_char c :: nat) < 128 \<and> c \<noteq> CHR ''.'' \<and> \<not> is_space c) hex_digits"
    by (simp add: hex_digits_def is_space_def)
  then have hex: "(of_char c :: nat) < 128 \<and> c \<noteq> CHR ''.'' \<and> \<not> is_space c" if "c \<in> set ?h" for c
    using h(2) that unfolding list_all_iff by blast
  have digest: "ascii ?h" "CHR ''.'' \<notin> set ?h" "\<not> is_space (last ?h)"
    using hex last_in_set [OF h(1)] unfolding ascii_def by blast+
  let ?tok = "sign_session ?k a ?sec x"
  have "last ?tok = last ?h" using h(1) by (simp add: sign_session_def Let_def)
  moreover have "hd ?tok = CHR ''s''" by (simp add: sign_session_def Let_def)
  ultimately have "strip ?tok = ?tok" using digest(3) by (intro strip_outer) (simp_all add: is_space_def)
  then have b: "bearer (Some (''Bearer '' @ ?tok)) = Some ?tok" by (simp only: bearer_token)
  have "verify_session ?k ?tok ?sec now = Inr (if now \<le> x then Some (a, x) else None)" for now
    using verify_session_signed [OF digest(2) assms(2), of ?k a ?sec now] digest(1)
    by (simp add: sign_session_def Let_def compare_digest_def)
  then show ?thesis unfolding session_account_def b by (simp split: option.split)
qed

section \<open>Registration and login\<close>

definition sign_in :: "env \<Rightarrow> string \<Rightarrow> string \<Rightarrow> (pool, account_rec \<times> string \<times> int) act" where
  "sign_in e u p = bnd (register_account e u p) (\<lambda>rec. bnd (login e u p) (\<lambda>(token, x). ret (rec, token, x)))"

lemma find_append: "find P (xs @ ys) = (case find P xs of None \<Rightarrow> find P ys | Some x \<Rightarrow> Some x)"
  by (induction xs) auto

lemma get_fresh_account:
  assumes "a_account_id a \<notin> account_ids s" and "get_account_by_username (a_username a) s = None"
  shows "get_account (a_account_id a) (s\<lparr>rnd_used := n, accounts := accounts s @ [a]\<rparr>) = Some a"
    and "get_account_by_username (a_username a) (s\<lparr>rnd_used := n, accounts := accounts s @ [a]\<rparr>) = Some a"
  using assms account_table.get_None [of "a_account_id a" s]
  by (simp_all add: get_account_def get_account_by_username_def find_append account_ids_def split: option.split)

definition signed_in :: "env \<Rightarrow> string \<Rightarrow> pool \<Rightarrow> account_rec \<times> string \<times> int \<Rightarrow> pool \<Rightarrow> bool" where
  "signed_in e u s = (\<lambda>(rec, token, x) t. a_username rec = u \<and> \<not> a_is_admin rec \<and> \<not> a_can_work rec \<and>
     \<not> a_banned rec \<and> get_account (a_account_id rec) t = Some rec \<and>
     x = truncate_rat (clock s) + session_ttl_s (cfg e) \<and>
     (\<forall>now. session_account e (Some (''Bearer '' @ token)) (t\<lparr>clock := now\<rparr>) =
        (if truncate_rat now \<le> x then Inr (a_account_id rec)
         else Inl (unauthorized_error ''Session token is invalid or expired.''))))"

text \<open>C35: Registration and login work together: for a free user name, registering and then logging in with the
  same password succeeds, and the session token stands for the new account, and for nobody else, until
  its expiry; the account that is created is neither an admin nor banned and cannot work yet.\<close>

theorem register_login_session:
  assumes "crypto_ok (prim e)" and "get_account_by_username u s = None"
    and "''acc_'' @ rnd s (rnd_used s) \<notin> account_ids s"
    and "length (str_int (truncate_rat (clock s) + session_ttl_s (cfg e))) \<le> 4300"
  shows "wp (sign_in e u p)
    (signed_in e u s)
    (\<lambda>_ _. False) s"
proof -
  let ?x = "truncate_rat (clock s) + session_ttl_s (cfg e)"
  have after: "wp (bnd (login e u p) (\<lambda>(token, x). ret (fresh_account s u h, token, x)))
      (signed_in e u s)
      (\<lambda>_ _. False) t"
    if h: "verify_password (prim e) p h = Inr True"
      and t: "t = s\<lparr>rnd_used := Suc (Suc (rnd_used s)), accounts := accounts s @ [fresh_account s u h]\<rparr>" for h t
  proof -
    let ?a = "fresh_account s u h"
    have a: "a_username ?a = u" "a_password_hash ?a = h" "\<not> a_banned ?a" "\<not> a_is_admin ?a" "\<not> a_can_work ?a"
      "a_account_id ?a \<notin> account_ids s"
      using assms(3) by (simp_all add: fresh_account_def)
    have get: "get_account (a_account_id ?a) t = Some ?a" "get_account_by_username u t = Some ?a"
      using get_fresh_account [of ?a s] a assms(2) unfolding t by simp_all
    have now: "get_account i (t\<lparr>clock := now\<rparr>) = get_account i t" for i now
      by (rule account_table.get_same) simp
    have clk: "clock t = clock s" by (simp add: t)
    have "session_account e (Some (''Bearer '' @ sign_session (prim e) (a_account_id ?a) (session_secret (cfg e)) ?x))
        (t\<lparr>clock := now\<rparr>) = (if truncate_rat now \<le> ?x then Inr (a_account_id ?a)
           else Inl (unauthorized_error ''Session token is invalid or expired.''))" for now
      using signed_session_account [OF assms(1,4), of "a_account_id ?a" "t\<lparr>clock := now\<rparr>"] get(1) a(3)
      by (simp add: now)
    then show ?thesis using get a h by (simp add: login_def wp_simps wp_funs Let_def clk signed_in_def)
  qed
  have reg: "wp (register_account e u p)
      (\<lambda>rec t. \<exists>h. rec = fresh_account s u h \<and> verify_password (prim e) p h = Inr True \<and>
         t = s\<lparr>rnd_used := Suc (Suc (rnd_used s)), accounts := accounts s @ [fresh_account s u h]\<rparr>)
      (\<lambda>_ _. False) s"
    unfolding register_account_def wp_bnd
    by (rule wp_conseq [OF create_account_wp [OF assms(1-3)]]) (auto simp: wp_ret)
  show ?thesis
    unfolding sign_in_def wp_bnd [of "register_account e u p"]
    by (rule wp_conseq [OF reg]) (use after in blast)+
qed

definition sound_env :: env where
  "sound_env = demo_env\<lparr>prim := demo_crypto\<lparr>b64encode := dollar_free, b64decode := \<lambda>s. Inr (dollar_back s)\<rparr>\<rparr>"

lemma sound_env_crypto: "crypto_ok (prim sound_env)"
proof -
  have "set (str_nat n) \<subseteq> set hex_digits" for n
  proof
    fix c
    assume "c \<in> set (str_nat n)"
    from str_nat_chars [OF this] show "c \<in> set hex_digits" by (auto simp: hex_digits_def)
  qed
  then show ?thesis
    by (auto simp: sound_env_def demo_env_def crypto_ok_def demo_crypto_def dollar_free_no_dollar min_def)
qed

theorem register_login_session_witness:
  "wp (sign_in sound_env ''bob'' ''password'')
    (\<lambda>(rec, token, x) t. x = 3700 \<and>
       session_account sound_env (Some (''Bearer '' @ token)) (t\<lparr>clock := 3700\<rparr>) = Inr (a_account_id rec))
    (\<lambda>_ _. False) demo_pool"
proof -
  have "get_account_by_username ''bob'' demo_pool = None"
    "''acc_'' @ rnd demo_pool (rnd_used demo_pool) \<notin> account_ids demo_pool"
    by (simp_all add: get_account_by_username_def account_ids_def demo_pool_def demo_account_def str_nat.simps digit_def)
  moreover have x: "truncate_rat (clock demo_pool) + session_ttl_s (cfg sound_env) = 3700"
    by (simp add: sound_env_def demo_env_def demo_settings_def demo_pool_def truncate_rat_def)
  moreover have "length (str_int 3700) \<le> 4300" by (simp add: str_int_def str_nat.simps)
  ultimately have "wp (sign_in sound_env ''bob'' ''password'') (signed_in sound_env ''bob'' demo_pool)
    (\<lambda>_ _. False) demo_pool"
    using register_login_session [OF sound_env_crypto, of "''bob''" demo_pool "''password''"] by simp
  moreover have "truncate_rat 3700 = 3700" by (simp add: truncate_rat_def)
  ultimately show ?thesis by (elim wp_conseq) (auto simp: signed_in_def x)
qed

section \<open>Keys and administration\<close>

text \<open>A new API key works at once and only as what it is: the secret that \<open>create_key\<close> returns
  resolves to the record that was stored, with the account and scope that were asked for.\<close>

theorem created_key_resolves:
  "wp (create_api_key k account_id name scope)
    (\<lambda>(rec, secret) t. resolve_api_key k secret t = Some rec \<and> k_account_id rec = account_id \<and>
       k_scope rec = scope \<and> k_name rec = name \<and> k_worker_id rec = None \<and>
       (\<exists>r. secret = ''sk-'' @ scope @ ''-'' @ r))
    (\<lambda>x _. x = IntegrityError) s"
proof -
  have "find (\<lambda>r. k_key_hash r = h) (xs @ [rec]) = Some rec"
    if "h \<notin> k_key_hash ` set xs" "k_key_hash rec = h" for h xs and rec :: api_key_rec
    using that by (simp add: find_append find_None_key [of k_key_hash, THEN iffD2])
  then show ?thesis
    by (simp add: create_api_key_def new_api_key_def new_id_def wp_simps Let_def resolve_api_key_def)
qed

text \<open>C40: A revoked key is dead: after \<open>revoke_api_key\<close>, no secret resolves to that key any more, and every
  other key resolves as before. The log entries of the key are gone with it; the worker that the key was
  bound to stays as it is, in its cluster or on the waitlist.\<close>

theorem revoked_key_dead:
  assumes "schema_ok s"
  shows "wp (revoke_api_key kid) (\<lambda>found t.
      found = (kid \<in> key_ids s) \<and>
      (\<forall>secret. resolve_api_key k secret t =
         (case resolve_api_key k secret s of None \<Rightarrow> None | Some r \<Rightarrow> if k_key_id r = kid then None else Some r)) \<and>
      requests t = filter (\<lambda>q. q_key_id q \<noteq> kid) (requests s) \<and>
      workers t = workers s \<and> (\<forall>cid. get_cluster cid t = get_cluster cid s))
    (\<lambda>_ _. False) s"
proof -
  have same: "get_cluster cid (s\<lparr>api_keys := ks, requests := qs\<rparr>) = get_cluster cid s" for cid ks qs
    by (rule get_cluster_cong) simp_all
  have hashes: "distinct (map k_key_hash (api_keys s))" using assms by (simp add: schema_ok_def keys_ok_def)
  have "find (\<lambda>r. k_key_hash r = h) (filter (\<lambda>r. k_key_id r \<noteq> kid) rs) =
      (case find (\<lambda>r. k_key_hash r = h) rs of None \<Rightarrow> None | Some r \<Rightarrow> if k_key_id r = kid then None else Some r)"
    if "distinct (map k_key_hash rs)" for h rs
    using that
  proof (induction rs)
    case (Cons r rs)
    have "find (\<lambda>r. k_key_hash r = h) rs = None" if "k_key_hash r = h"
      using Cons.prems that by (auto simp: find_None_key)
    then show ?case using Cons by (auto split: option.split)
  qed simp
  moreover have "filter (\<lambda>q. q_key_id q \<noteq> kid) (requests s) = requests s" if "kid \<notin> key_ids s"
    using assms that by (auto simp: schema_ok_def requests_ok_def filter_id_conv)
  ultimately show ?thesis using hashes by (auto simp: wp_simps resolve_api_key_def same)
qed

theorem revoked_key_dead_witness:
  "wp (revoke_api_key ''key_2'') (\<lambda>_ t. resolve_api_key demo_crypto ''sk-worker-2'' t = None \<and>
      resolve_api_key demo_crypto ''sk-user-1'' t \<noteq> None) (\<lambda>_ _. False) auth_pool"
  by (rule wp_conseq [OF revoked_key_dead [OF auth_pool_schema, of "''key_2''" demo_crypto]]) (simp_all add: auth_pool_keys)

text \<open>C39: The bootstrap creates the first admin and nothing else. With a configured name and password, no admin
  and the name free, it appends exactly one account, of that name, an admin, whose password is the
  configured one; when there is an admin, or the name is taken, or the text does not name an account, it
  changes nothing: a demoted or deleted admin never comes back while another admin is there. And running it
  again, on the next start, changes nothing.\<close>

theorem bootstrap_idempotent:
  assumes "''acc_'' @ rnd s (rnd_used s) \<notin> account_ids s" and "crypto_ok (prim e)"
    and "username = strip (takeWhile (\<lambda>c. c \<noteq> CHR '':'') (strip (first_account (cfg e))))"
    and "password = tl (dropWhile (\<lambda>c. c \<noteq> CHR '':'') (strip (first_account (cfg e))))"
  shows "wp (bootstrap_first_account e)
    (\<lambda>_ t. bootstrap_first_account e t = (Inr (), t) \<and>
       (if username = [] \<or> password = [] \<or> 0 < count_admins s \<or> get_account_by_username username s \<noteq> None then t = s
        else \<exists>a n. t = s\<lparr>rnd_used := n, accounts := accounts s @ [a]\<rparr> \<and> a_username a = username \<and> a_is_admin a \<and>
          verify_password (prim e) password (a_password_hash a) = Inr True)) (\<lambda>_ _. False) s"
proof -
  let ?raw = "strip (first_account (cfg e))"
  note up = assms(3,4) [symmetric]
  have bad: "password = []" if "?raw = [] \<or> CHR '':'' \<notin> set ?raw"
  proof -
    have "dropWhile (\<lambda>c. c \<noteq> CHR '':'') ?raw = []" using that by (auto simp: dropWhile_eq_Nil_conv)
    then show ?thesis unfolding assms(4) by (simp only: list.sel)
  qed
  show ?thesis
  proof (cases "username = [] \<or> password = [] \<or> 0 < count_admins s \<or> get_account_by_username username s \<noteq> None")
    case True
    then have "bootstrap_first_account e s = (Inr (), s)"
      unfolding bootstrap_first_account_def Let_def up by (auto simp: act_defs)
    then show ?thesis using True by (simp add: wp_def)
  next
    case False
    then have parsed: "\<not> (?raw = [] \<or> CHR '':'' \<notin> set ?raw)" using bad by blast
    let ?rest = "\<lambda>r. case r of None \<Rightarrow> ret () | Some rec \<Rightarrow>
       bnd (update_account_permissions (a_account_id rec) (Some True) None None None) (\<lambda>_. ret ())"
    let ?Q = "\<lambda>_ t. bootstrap_first_account e t = (Inr (), t) \<and> (\<exists>a n. t = s\<lparr>rnd_used := n, accounts := accounts s @ [a]\<rparr> \<and>
       a_username a = username \<and> a_is_admin a \<and> verify_password (prim e) password (a_password_hash a) = Inr True)"
    have stop: "bootstrap_first_account e t = (Inr (), t)" if "count_admins t > 0" for t
      using that by (simp add: bootstrap_first_account_def act_defs Let_def)
    have fin: "wp (?rest r) ?Q (\<lambda>_ _. False) t"
      if rt: "\<exists>h. r = Some (fresh_account s username h) \<and> verify_password (prim e) password h = Inr True \<and>
       t = s\<lparr>rnd_used := Suc (Suc (rnd_used s)), accounts := accounts s @ [fresh_account s username h]\<rparr>" for r t
    proof -
      obtain h where h: "r = Some (fresh_account s username h)" "verify_password (prim e) password h = Inr True"
        "t = s\<lparr>rnd_used := Suc (Suc (rnd_used s)), accounts := accounts s @ [fresh_account s username h]\<rparr>"
        using rt by blast
      let ?a = "fresh_account s username h"
      have new: "a_account_id ?a \<notin> account_ids s" using assms(1) by (simp add: fresh_account_def)
      then have others: "map (\<lambda>a. if a_account_id a = a_account_id ?a then f a else a) (accounts s) = accounts s" for f
        by (intro map_idI) (metis account_ids_def image_eqI)
      let ?t = "t\<lparr>accounts := accounts s @ [?a\<lparr>a_is_admin := True\<rparr>]\<rparr>"
      have "count_admins ?t > 0" by (simp add: count_admins_def)
      then have "bootstrap_first_account e ?t = (Inr (), ?t)" by (rule stop)
      moreover have "\<exists>a n. ?t = s\<lparr>rnd_used := n, accounts := accounts s @ [a]\<rparr> \<and>
         a_username a = username \<and> a_is_admin a \<and> verify_password (prim e) password (a_password_hash a) = Inr True"
        using h(2,3) by (intro exI [of _ "?a\<lparr>a_is_admin := True\<rparr>"] exI [of _ "Suc (Suc (rnd_used s))"]) (simp add: fresh_account_def)
      moreover have "wp (?rest r) Q (\<lambda>_ _. False) t = Q () ?t" for Q
        unfolding h(1) using others by (simp add: update_account_permissions_def wp_simps wp_funs set_flag_def h(3))
      ultimately show ?thesis by simp
    qed
    have "wp (bnd (create_account (prim e) username password) ?rest) ?Q (\<lambda>_ _. False) s"
      unfolding wp_bnd [of "create_account (prim e) username password"]
      using False by (intro wp_conseq [OF create_account_wp [OF assms(2) _ assms(1)]]) (use fin in blast)+
    moreover have "bootstrap_first_account e s = bnd (create_account (prim e) username password) ?rest s"
      using False parsed unfolding bootstrap_first_account_def Let_def up by (simp add: bnd_gets)
    ultimately show ?thesis using False by (simp add: wp_def)
  qed
qed

theorem bootstrap_idempotent_witness:
  "wp (bootstrap_first_account (sound_env\<lparr>cfg := demo_settings\<lparr>first_account := ''root:secret''\<rparr>\<rparr>))
     (\<lambda>_ t. count_admins t = 1 \<and> map a_username (accounts t) = [''root''] \<and>
        bootstrap_first_account (sound_env\<lparr>cfg := demo_settings\<lparr>first_account := ''root:secret''\<rparr>\<rparr>) t = (Inr (), t))
     (\<lambda>_ _. False) (demo_pool\<lparr>accounts := []\<rparr>)"
proof -
  let ?e = "sound_env\<lparr>cfg := demo_settings\<lparr>first_account := ''root:secret''\<rparr>\<rparr>" and ?s = "demo_pool\<lparr>accounts := []\<rparr>"
  have "''acc_'' @ rnd ?s (rnd_used ?s) \<notin> account_ids ?s" "crypto_ok (prim ?e)"
    "''root'' = strip (takeWhile (\<lambda>c. c \<noteq> CHR '':'') (strip (first_account (cfg ?e))))"
    "''secret'' = tl (dropWhile (\<lambda>c. c \<noteq> CHR '':'') (strip (first_account (cfg ?e))))"
    using sound_env_crypto by (simp_all add: account_ids_def strip_def is_space_def)
  from bootstrap_idempotent [OF this] show ?thesis
    by (rule wp_conseq) (auto simp: count_admins_def get_account_by_username_def)
qed

text \<open>The guard of the last admin only looks at demotion: an admin who is the only one can ban
  himself, and from then on nobody can act as an admin, so nobody can lift the ban (the documents
  promise that the pool always keeps an admin).\<close>

theorem last_admin_can_ban_self:
  assumes "require_admin e auth s = Inr a" and "accounts_ok s"
    and "\<forall>b \<in> set (accounts s). a_is_admin b \<longrightarrow> a_account_id b = a_account_id a"
  shows "wp (admin_update_account e (a_account_id a) None None None (Some True) auth)
    (\<lambda>_ t. count_admins t = count_admins s \<and> (\<forall>auth' b. require_admin e auth' t \<noteq> Inr b))
    (\<lambda>_ _. False) s"
proof -
  have a: "get_account (a_account_id a) s = Some a"
    using assms(1) account_table.get_in by (fastforce simp: require_admin_def split: sum.splits option.splits if_splits)
  let ?ban = "\<lambda>x. x\<lparr>a_banned := True\<rparr>"
  let ?t = "s\<lparr>accounts := map (\<lambda>x. if a_account_id x = a_account_id a then ?ban x else x) (accounts s)\<rparr>"
  have get: "get_account i ?t = (if i = a_account_id a then map_option ?ban (get_account i s) else get_account i s)" for i
    by (rule account_table.get_update) simp_all
  have locked: "require_admin e auth' ?t \<noteq> Inr b" for auth' b
  proof
    assume "require_admin e auth' ?t = Inr b"
    then obtain i where i: "session_account e auth' ?t = Inr i" "get_account i ?t = Some b" "a_is_admin b"
      by (auto simp: require_admin_def split: sum.splits option.splits if_splits)
    then have nb: "\<not> a_banned b" using session_account_ok [OF i(1)] by (simp add: not_banned_def)
    show False
    proof (cases "i = a_account_id a")
      case True
      then show ?thesis using i(2) get [of i] a nb by auto
    next
      case False
      then have "get_account i s = Some b" using i(2) get [of i] by simp
      then show ?thesis using account_table.get_in [of i s b] assms(3) i(3) False by auto
    qed
  qed
  have "length (filter a_is_admin (map (\<lambda>x. if a_account_id x = a_account_id a then ?ban x else x) xs)) =
      length (filter a_is_admin xs)" for xs by (induction xs) auto
  then have "count_admins ?t = count_admins s" by (simp add: count_admins_def)
  then show ?thesis
    using assms(1) a locked get [of "a_account_id a"]
    by (simp add: admin_update_account_def wp_simps wp_funs update_account_permissions_def set_flag_def)
qed

theorem last_admin_can_ban_self_witness:
  "\<exists>auth. require_admin sound_env auth auth_pool = Inr demo_account \<and>
     wp (admin_update_account sound_env ''acc_1'' None None None (Some True) auth)
       (\<lambda>_ t. \<forall>auth' b. require_admin sound_env auth' t \<noteq> Inr b) (\<lambda>_ _. False) auth_pool"
proof -
  let ?auth = "Some (''Bearer '' @ sign_session (prim sound_env) ''acc_1'' (session_secret (cfg sound_env)) 3700)"
  have "length (str_int 3700) \<le> 4300" by (simp add: str_int_def str_nat.simps)
  moreover have "truncate_rat (clock auth_pool) \<le> 3700"
    by (simp add: auth_pool_def seated_pool_def demo_pool_def truncate_rat_def)
  ultimately have "session_account sound_env ?auth auth_pool = Inr ''acc_1''"
    using signed_session_account [OF sound_env_crypto, of 3700 "''acc_1''" auth_pool]
    by (simp add: get_account_def auth_pool_tables demo_account_def)
  then have r: "require_admin sound_env ?auth auth_pool = Inr demo_account"
    by (simp add: require_admin_def get_account_def auth_pool_tables demo_account_def)
  have "accounts_ok auth_pool" using auth_pool_schema by (simp add: schema_ok_def)
  moreover have "\<forall>b \<in> set (accounts auth_pool). a_is_admin b \<longrightarrow> a_account_id b = a_account_id demo_account"
    by (simp add: auth_pool_tables)
  moreover have "a_account_id demo_account = ''acc_1''" by (simp add: demo_account_def)
  ultimately have "wp (admin_update_account sound_env ''acc_1'' None None None (Some True) ?auth)
       (\<lambda>_ t. count_admins t = count_admins auth_pool \<and> (\<forall>auth' b. require_admin sound_env auth' t \<noteq> Inr b)) (\<lambda>_ _. False) auth_pool"
    using last_admin_can_ban_self [OF r] by simp
  then have "wp (admin_update_account sound_env ''acc_1'' None None None (Some True) ?auth)
       (\<lambda>_ t. \<forall>auth' b. require_admin sound_env auth' t \<noteq> Inr b) (\<lambda>_ _. False) auth_pool"
    by (rule wp_conseq) simp_all
  then show ?thesis using r by blast
qed

end
