(* ===== verification/Pool_Workers.thy ===== *)
theory Pool_Workers
  imports Pool_Accounts
begin

text \<open>
  The worker handlers of app.py: registration (with the endpoint fallback, the per-account cap and the
  re-registration of a device), revocation, state, heartbeat and the public worker info. The ellipsis
  character of one message is written as three dots.
\<close>

section \<open>Requests and answers\<close>

record register_worker_request =
  rw_model :: string
  rw_gguf_sha256 :: string
  rw_memory_allocated_mb :: int
  rw_wg_pubkey :: string
  rw_endpoint :: endpoint_info
  rw_hardware :: "hardware option"

definition valid_register_worker :: "register_worker_request \<Rightarrow> bool" where
  "valid_register_worker b \<longleftrightarrow> length (rw_gguf_sha256 b) = 64 \<and> 1 \<le> rw_memory_allocated_mb b \<and>
     1 \<le> e_port (rw_endpoint b) \<and> e_port (rw_endpoint b) \<le> 65535"

record worker_view =
  wv_worker_id :: string
  wv_account_id :: string
  wv_status :: worker_status
  wv_model :: string
  wv_online :: bool

definition to_worker :: "worker_rec \<Rightarrow> worker_view" where
  "to_worker w = \<lparr>wv_worker_id = w_worker_id w, wv_account_id = w_account_id w, wv_status = w_status w,
     wv_model = w_model w, wv_online = w_online w\<rparr>"

text \<open>The cluster part of a \<open>WorkerState\<close>: cluster id, assigned address, configuration URL.\<close>

record worker_state =
  ws_worker :: worker_view
  ws_cluster :: "(string \<times> string \<times> string) option"

definition to_state :: "string option \<Rightarrow> worker_rec \<Rightarrow> worker_state" where
  "to_state url w = \<lparr>ws_worker = to_worker w, ws_cluster =
     (case (w_cluster_id w, w_assigned_ip w) of
        (Some c, Some ip) \<Rightarrow> if c \<noteq> [] \<and> ip \<noteq> [] then Some (c, ip, case url of None \<Rightarrow> [] | Some u \<Rightarrow> u) else None
      | _ \<Rightarrow> None)\<rparr>"

section \<open>Registration\<close>

definition observed_endpoint :: "env \<Rightarrow> string option \<Rightarrow> string option \<Rightarrow> endpoint_info \<Rightarrow> endpoint_info" where
  "observed_endpoint e xff peer_host ep =
     (if is_usable_endpoint_host (ipv6 e) (e_host ep) then ep
      else (let observed = client_ip xff peer_host in
        if observed \<noteq> [] then ep\<lparr>e_host := observed\<rparr> else ep))"

definition new_worker :: "string \<Rightarrow> string \<Rightarrow> rat \<Rightarrow> endpoint_info \<Rightarrow> register_worker_request \<Rightarrow> worker_rec" where
  "new_worker wid account_id now ep b = \<lparr>w_worker_id = wid, w_account_id = account_id, w_model = rw_model b,
     w_gguf_sha256 = rw_gguf_sha256 b, w_memory_allocated_mb = rw_memory_allocated_mb b,
     w_wg_pubkey = rw_wg_pubkey b, w_endpoint = Some ep, w_hardware = rw_hardware b, w_status = waitlisted,
     w_online = False, w_last_heartbeat = 0, w_assignable_at = 0, w_cluster_id = None, w_assigned_ip = None,
     w_ring_position = None, w_created_at = now\<rparr>"

text \<open>The same device again: its record is updated in place. Its cluster, address and position stay.\<close>

definition reregistered :: "endpoint_info \<Rightarrow> register_worker_request \<Rightarrow> worker_rec \<Rightarrow> worker_rec" where
  "reregistered ep b w = w\<lparr>w_endpoint := Some ep, w_hardware := rw_hardware b, w_model := rw_model b,
     w_gguf_sha256 := rw_gguf_sha256 b, w_memory_allocated_mb := rw_memory_allocated_mb b,
     w_status := waitlisted, w_online := False\<rparr>"

definition admit_worker ::
  "env \<Rightarrow> string \<Rightarrow> string option \<Rightarrow> endpoint_info \<Rightarrow> register_worker_request \<Rightarrow> (pool, string) act" where
  "admit_worker e account_id bound_key_id ep b =
     bnd (new_id ''wrk'') (\<lambda>wid.
     bnd (gets clock) (\<lambda>now.
     bnd (create_worker_if_available (new_worker wid account_id now ep b) (max_workers_per_account (cfg e))) (\<lambda>created.
     if created then seqa (try_bind bound_key_id wid) (ret wid)
     else
       bnd (gets (list_workers_for_account account_id)) (\<lambda>existing.
       if int (length existing) \<ge> max_workers_per_account (cfg e)
       then throw (conflict_error ''worker_limit'' ''Worker Limit'' ''Too many workers for this account.'')
       else
         (case find (\<lambda>w. w_wg_pubkey w = rw_wg_pubkey b) existing of
            None \<Rightarrow> throw (conflict_error ''worker_exists'' ''Worker Exists'' ''A worker for this device already exists.'')
          | Some prev \<Rightarrow>
              seqa (update_worker (reregistered ep b prev))
             (seqa (case bound_key_id of None \<Rightarrow> ret ()
                    | Some k \<Rightarrow> if k = [] then ret () else bind_api_key_to_worker k (w_worker_id prev))
                   (ret (w_worker_id prev))))))))"

definition hash_mismatch :: "register_worker_request \<Rightarrow> model_def \<Rightarrow> string" where
  "hash_mismatch b md = ''GGUF hash for model '' @ [CHR 0x27] @ rw_model b @ [CHR 0x27] @
     '' does not match the pool's registered hash (advertised '' @ take 12 (rw_gguf_sha256 b) @
     ''..., expected '' @ take 12 (md_gguf_sha256 md) @ ''...).''"

definition register_worker ::
  "env \<Rightarrow> register_worker_request \<Rightarrow> string option \<Rightarrow> string option \<Rightarrow> string option \<Rightarrow> (pool, worker_view) act" where
  "register_worker e b xff peer_host authorization =
     bnd (asks (api_key e authorization)) (\<lambda>(account_id, scope, _).
     if scope \<noteq> ''worker'' then throw (forbidden_error ''A user key cannot register workers.'')
     else bnd (gets (can_work e account_id)) (\<lambda>allowed.
     if \<not> allowed then throw (forbidden_error ''This account is not permitted to provide workers.'')
     else bnd (gets (\<lambda>s. case bearer authorization of None \<Rightarrow> None
         | Some secret \<Rightarrow> map_option k_key_id (resolve_api_key (prim e) secret s))) (\<lambda>bound_key_id.
     case map_of (models (cfg e)) (rw_model b) of
       None \<Rightarrow> throw (bad_request_error (''Unknown model '' @ [CHR 0x27] @ rw_model b @ [CHR 0x27] @ ''.''))
     | Some md \<Rightarrow>
         if md_gguf_sha256 md \<noteq> [] \<and> rw_gguf_sha256 b \<noteq> md_gguf_sha256 md
         then throw (bad_request_error (hash_mismatch b md))
         else
           bnd (admit_worker e account_id bound_key_id (observed_endpoint e xff peer_host (rw_endpoint b)) b) (\<lambda>wid.
           seqa (check_and_form e)
             (bnd (gets (get_worker wid)) (\<lambda>r.
              case r of None \<Rightarrow> throw AttributeError | Some w \<Rightarrow> ret (to_worker w)))))))"

section \<open>Revocation, state, heartbeat\<close>

definition revoke_worker :: "env \<Rightarrow> string \<Rightarrow> string option \<Rightarrow> (pool, unit) act" where
  "revoke_worker e worker_id authorization =
     bnd (worker_from_key e authorization worker_id) (\<lambda>w.
     seqa (on_worker_leave e w) (bnd (delete_worker worker_id) (\<lambda>_. ret ())))"

definition get_worker_state :: "env \<Rightarrow> string \<Rightarrow> string option \<Rightarrow> (pool, worker_state) act" where
  "get_worker_state e worker_id authorization =
     bnd (worker_from_key e authorization worker_id) (\<lambda>w.
     ret (to_state (case w_cluster_id w of None \<Rightarrow> None
       | Some c \<Rightarrow> if c = [] then None else Some (config_url e c)) w))"

definition beat :: "env \<Rightarrow> rat \<Rightarrow> worker_rec \<Rightarrow> worker_rec" where
  "beat e now w =
     (let w1 = w\<lparr>w_online := True, w_last_heartbeat := now\<rparr> in
      if w_online w then w1
      else w1\<lparr>w_assignable_at := now + assignable_grace_s (cfg e),
              w_status := (if w_status w = registered then waitlisted else w_status w)\<rparr>)"

definition heartbeat :: "env \<Rightarrow> string \<Rightarrow> string option \<Rightarrow> (pool, worker_view) act" where
  "heartbeat e worker_id authorization =
     bnd (worker_from_key e authorization worker_id) (\<lambda>w.
     bnd (gets clock) (\<lambda>now.
     seqa (update_worker (beat e now w))
    (seqa (check_and_form e) (ret (to_worker (beat e now w))))))"

definition worker_info :: "string \<Rightarrow> 'z db_scheme \<Rightarrow> exn + string \<times> string \<times> int" where
  "worker_info worker_id s =
     (case get_worker worker_id s of None \<Rightarrow> Inl (not_found_error ''Worker does not exist.'')
      | Some w \<Rightarrow> Inr (w_worker_id w, w_model w, w_memory_allocated_mb w))"

section \<open>What registration does\<close>

lemma reregistered_simps [simp]:
  "w_worker_id (reregistered ep b w) = w_worker_id w" "w_account_id (reregistered ep b w) = w_account_id w"
  "w_memory_allocated_mb (reregistered ep b w) = rw_memory_allocated_mb b"
  "w_cluster_id (reregistered ep b w) = w_cluster_id w" "w_assigned_ip (reregistered ep b w) = w_assigned_ip w"
  "w_ring_position (reregistered ep b w) = w_ring_position w" "w_wg_pubkey (reregistered ep b w) = w_wg_pubkey w"
  "w_status (reregistered ep b w) = waitlisted" "w_online (reregistered ep b w) = False"
  by (simp_all add: reregistered_def)

lemma beat_simps [simp]:
  "w_worker_id (beat e now w) = w_worker_id w" "w_account_id (beat e now w) = w_account_id w"
  "w_memory_allocated_mb (beat e now w) = w_memory_allocated_mb w" "w_cluster_id (beat e now w) = w_cluster_id w"
  "w_assigned_ip (beat e now w) = w_assigned_ip w" "w_ring_position (beat e now w) = w_ring_position w"
  "w_wg_pubkey (beat e now w) = w_wg_pubkey w" "w_online (beat e now w)" "w_last_heartbeat (beat e now w) = now"
  "w_status (beat e now w) = assigned \<longleftrightarrow> w_status w = assigned"
  by (simp_all add: beat_def Let_def)

definition known_device :: "string \<Rightarrow> string \<Rightarrow> pool \<Rightarrow> bool" where
  "known_device acc pubkey s \<longleftrightarrow>
     (\<exists>w \<in> set (list_workers_for_account acc s). w_wg_pubkey w = pubkey \<and> w_status w \<noteq> registered)"

definition at_cap :: "env \<Rightarrow> string \<Rightarrow> pool \<Rightarrow> bool" where
  "at_cap e acc s \<longleftrightarrow> int (length (list_workers_for_account acc s)) \<ge> max_workers_per_account (cfg e)"

definition worker_limit :: exn where
  "worker_limit = conflict_error ''worker_limit'' ''Worker Limit'' ''Too many workers for this account.''"

definition bind_of :: "string option \<Rightarrow> string \<Rightarrow> api_key_rec list \<Rightarrow> api_key_rec list" where
  "bind_of kid i ks = (case kid of None \<Rightarrow> ks
     | Some k \<Rightarrow> if k = [] then ks else map (\<lambda>r. if k_key_id r = k then r\<lparr>k_worker_id := Some i\<rparr> else r) ks)"

text \<open>
  The three outcomes: refusal at the cap, an update in place of a device that is known, a new worker.
\<close>

lemma admit_worker_wp:
  assumes ok: "schema_ok s" and acc: "acc \<in> account_ids s" and mem: "sql_int (rw_memory_allocated_mb b)"
    and fresh: "''wrk_'' @ rnd s (rnd_used s) \<notin> worker_ids s"
  shows "wp (admit_worker e acc kid ep b)
    (\<lambda>i t. \<not> at_cap e acc s \<and>
       (if known_device acc (rw_wg_pubkey b) s then
          (\<exists>prev. find (\<lambda>w. w_wg_pubkey w = rw_wg_pubkey b) (list_workers_for_account acc s) = Some prev \<and>
             i = w_worker_id prev \<and> t = s\<lparr>rnd_used := Suc (rnd_used s),
               workers := map (\<lambda>w. if w_worker_id w = i then reregistered ep b prev else w) (workers s),
               api_keys := bind_of kid i (api_keys s)\<rparr>)
        else i = ''wrk_'' @ rnd s (rnd_used s) \<and> t = s\<lparr>rnd_used := Suc (rnd_used s),
               workers := workers s @ [new_worker i acc (clock s) ep b], api_keys := bind_of kid i (api_keys s)\<rparr>))
    (\<lambda>x t. at_cap e acc s \<and> x = worker_limit \<and> t = s\<lparr>rnd_used := Suc (rnd_used s)\<rparr>) s"
proof -
  let ?ex = "list_workers_for_account acc s"
  let ?s1 = "s\<lparr>rnd_used := Suc (rnd_used s)\<rparr>"
  have ex1: "list_workers_for_account acc ?s1 = ?ex" by (simp add: list_workers_for_account_def)
  have bind: "wp (try_bind kid i) (\<lambda>_ u. u = t\<lparr>api_keys := bind_of kid i (api_keys t)\<rparr>) (\<lambda>_ _. False) t"
    if "i \<in> worker_ids t" for i t
    using that by (simp add: try_bind_def bind_of_def wp_simps split: option.split)
  show ?thesis
  proof (cases "at_cap e acc s")
    case True
    then show ?thesis
      by (simp add: admit_worker_def new_id_def create_worker_if_available_def wp_simps new_worker_def
          at_cap_def list_workers_for_account_def worker_limit_def)
  next
    case cap: False
    show ?thesis
    proof (cases "known_device acc (rw_wg_pubkey b) s")
      case True
      then obtain w0 where "w0 \<in> set ?ex" "w_wg_pubkey w0 = rw_wg_pubkey b" by (auto simp: known_device_def)
      then obtain prev where prev: "find (\<lambda>w. w_wg_pubkey w = rw_wg_pubkey b) ?ex = Some prev"
        by (metis (mono_tags, lifting) find_None_iff option.exhaust)
      then have p: "prev \<in> set ?ex" by (auto dest: find_Some_in)
      then have "prev \<in> set (workers s)" "w_account_id prev = acc" by (simp_all add: list_workers_for_account_def)
      then have row: "w_worker_id prev \<in> worker_ids s" "fk (w_cluster_id prev) (cluster_ids s)"
        using ok by (auto simp: worker_ids_def schema_ok_def workers_ok_def)
      let ?t = "?s1\<lparr>workers := map (\<lambda>w. if w_worker_id w = w_worker_id prev then reregistered ep b prev else w) (workers s)\<rparr>"
      have upd: "wp (update_worker (reregistered ep b prev)) Q E ?s1 = Q () ?t" for Q E
        using mem row acc \<open>w_account_id prev = acc\<close>
        by (simp add: wp_simps account_ids_def cluster_ids_def)
      have "worker_ids ?t = worker_ids s"
        using ids_update [of "\<lambda>w. w_worker_id w = w_worker_id prev" w_worker_id "\<lambda>_. reregistered ep b prev" "workers s"]
        by (simp add: worker_ids_def)
      then have "wp (case kid of None \<Rightarrow> ret () | Some k \<Rightarrow> if k = [] then ret () else bind_api_key_to_worker k (w_worker_id prev))
          (\<lambda>_ u. u = ?t\<lparr>api_keys := bind_of kid (w_worker_id prev) (api_keys s)\<rparr>) (\<lambda>_ _. False) ?t"
        using row by (simp add: bind_of_def wp_simps split: option.split)
      moreover have "wp (create_worker_if_available (new_worker i acc now ep b) (max_workers_per_account (cfg e))) Q E ?s1 = Q False ?s1"
        for i now Q E
        using cap True by (auto simp: create_worker_if_available_def wp_simps new_worker_def at_cap_def known_device_def ex1)
      ultimately show ?thesis
        using cap True prev
        by (simp add: admit_worker_def new_id_def wp_simps wp_funs ex1 at_cap_def upd del: wp_update_worker)
    next
      case False
      let ?i = "''wrk_'' @ rnd s (rnd_used s)"
      let ?t = "?s1\<lparr>workers := workers s @ [new_worker ?i acc (clock s) ep b]\<rparr>"
      have "wp (create_worker_if_available (new_worker ?i acc (clock s) ep b) (max_workers_per_account (cfg e))) Q E ?s1 = Q True ?t" for Q E
        using cap False mem fresh acc
        by (auto simp: create_worker_if_available_def wp_simps wp_funs new_worker_def at_cap_def known_device_def ex1
            worker_ids_def account_ids_def fk_def)
      moreover have "wp (try_bind kid ?i) (\<lambda>_ u. u = ?t\<lparr>api_keys := bind_of kid ?i (api_keys ?t)\<rparr>) (\<lambda>_ _. False) ?t"
        by (rule bind) (simp add: worker_ids_def new_worker_def)
      ultimately show ?thesis
        using cap False
        by (simp add: admit_worker_def new_id_def wp_simps wp_funs)
    qed
  qed
qed

section \<open>Updating a worker in place\<close>

text \<open>What the handlers keep when they write a worker back: its owner, device and seat.\<close>

definition same_seat :: "worker_rec \<Rightarrow> worker_rec \<Rightarrow> bool" where
  "same_seat w0 w \<longleftrightarrow> w_account_id w = w_account_id w0 \<and> w_wg_pubkey w = w_wg_pubkey w0 \<and>
     w_cluster_id w = w_cluster_id w0 \<and> w_assigned_ip w = w_assigned_ip w0 \<and>
     w_ring_position w = w_ring_position w0 \<and> (w_status w = assigned \<longrightarrow> w_status w0 = assigned) \<and>
     (w_status w = registered \<longrightarrow> w_status w0 = registered)"

lemma same_seat_reregistered: "same_seat w (reregistered ep b w)"
  by (simp add: same_seat_def)

lemma same_seat_beat: "same_seat w (beat e now w)"
  by (simp add: same_seat_def) (simp add: beat_def Let_def)

definition with_worker :: "worker_rec \<Rightarrow> 'z db_scheme \<Rightarrow> 'z db_scheme" where
  "with_worker w s = s\<lparr>workers := map (\<lambda>x. if w_worker_id x = w_worker_id w then w else x) (workers s)\<rparr>"

lemma pool_ok_with_worker:
  assumes ok: "pool_ok s" and get: "get_worker (w_worker_id w) s = Some w0" and same: "same_seat w0 w"
    and mem: "sql_int (w_memory_allocated_mb w)"
  shows "pool_ok (with_worker w s)"
proof -
  let ?t = "with_worker w s"
  have w0: "w0 \<in> set (workers s)" "w_worker_id w0 = w_worker_id w" using worker_table.get_in [OF get] by simp_all
  have sok: "schema_ok s" using ok by (simp add: pool_ok_def store_ok_def)
  then have "w_account_id w \<in> account_ids s \<and> fk (w_cluster_id w) (cluster_ids s)"
    using w0(1) same by (auto simp: schema_ok_def workers_ok_def same_seat_def)
  then have "wp (update_worker w) Q E s = Q () ?t" for Q E using mem by (simp add: wp_simps with_worker_def)
  then have "schema_ok ?t" using keeps_wpD [OF keeps_schema_update_worker sok, of w] by simp
  then have "store_ok ?t" using ok ring_ok_cong [of ?t s] by (simp add: pool_ok_def store_ok_def with_worker_def)
  moreover have g: "get_cluster i ?t = get_cluster i s" for i by (rule get_cluster_cong) (simp_all add: with_worker_def)
  moreover have "seat_ok ?t x" if "x \<in> set (workers ?t)" for x
  proof (cases "x = w")
    case True
    have "seat_ok s w0" using ok w0(1) by (simp add: pool_ok_def assign_ok_def)
    then show ?thesis using same w0(2) True unfolding seat_ok_def same_seat_def g by auto
  next
    case False
    then have "x \<in> set (workers s)" using that by (auto simp: with_worker_def split: if_splits)
    then have "seat_ok s x" using ok by (simp add: pool_ok_def assign_ok_def)
    then show ?thesis unfolding seat_ok_def g .
  qed
  ultimately show ?thesis using ok unfolding pool_ok_def assign_ok_def subnets_ok_def g by blast
qed

lemma update_worker_same_wp:
  assumes "pool_ok s" and "get_worker (w_worker_id w) s = Some w0" and "same_seat w0 w"
  shows "wp (update_worker w) (\<lambda>_ t. t = with_worker w s \<and> pool_ok t) (\<lambda>x t. x = OverflowError \<and> t = s) s"
proof (cases "sql_int (w_memory_allocated_mb w)")
  case True
  have w0: "w0 \<in> set (workers s)" using worker_table.get_in [OF assms(2)] by simp
  have "schema_ok s" using assms(1) by (simp add: pool_ok_def store_ok_def)
  then have "w_account_id w \<in> account_ids s \<and> fk (w_cluster_id w) (cluster_ids s)"
    using w0 assms(3) by (auto simp: schema_ok_def workers_ok_def same_seat_def)
  then show ?thesis using True pool_ok_with_worker [OF assms True] by (simp add: wp_simps with_worker_def)
qed (simp add: wp_simps)

section \<open>Properties\<close>

text \<open>C32: Registration has exactly three outcomes. An account at its cap is refused, whatever the device. A
  device that the account already registered keeps its worker: the record is updated in place, with its
  cluster, address and position unchanged. Any other device gets a new worker, waiting and offline. In
  both cases the presented key, and no other, is bound to the worker.\<close>

theorem registration_outcomes:
  assumes "schema_ok s" and "acc \<in> account_ids s" and "sql_int (rw_memory_allocated_mb b)"
    and "''wrk_'' @ rnd s (rnd_used s) \<notin> worker_ids s"
  shows "wp (admit_worker e acc kid ep b)
    (\<lambda>i t. \<not> at_cap e acc s \<and>
       (if known_device acc (rw_wg_pubkey b) s then
          (\<exists>prev. find (\<lambda>w. w_wg_pubkey w = rw_wg_pubkey b) (list_workers_for_account acc s) = Some prev \<and>
             i = w_worker_id prev \<and> t = s\<lparr>rnd_used := Suc (rnd_used s),
               workers := map (\<lambda>w. if w_worker_id w = i then reregistered ep b prev else w) (workers s),
               api_keys := bind_of kid i (api_keys s)\<rparr>)
        else i = ''wrk_'' @ rnd s (rnd_used s) \<and> t = s\<lparr>rnd_used := Suc (rnd_used s),
               workers := workers s @ [new_worker i acc (clock s) ep b], api_keys := bind_of kid i (api_keys s)\<rparr>))
    (\<lambda>x t. at_cap e acc s \<and> x = worker_limit \<and> t = s\<lparr>rnd_used := Suc (rnd_used s)\<rparr>) s"
  by (rule admit_worker_wp [OF assms])

definition demo_registration :: register_worker_request where
  "demo_registration = \<lparr>rw_model = ''m'', rw_gguf_sha256 = ''h'', rw_memory_allocated_mb = 8, rw_wg_pubkey = ''a'',
     rw_endpoint = \<lparr>e_host = ''100.101.2.3'', e_port = 51820, e_behind_nat = False, e_nat_type = nat_none\<rparr>,
     rw_hardware = None\<rparr>"

lemma auth_pool_workers: "workers auth_pool = [
     assigned_worker ''clu_1'' [''10.23.1.1'', ''10.23.1.2''] (0, demo_worker ''a'' 2),
     assigned_worker ''clu_1'' [''10.23.1.1'', ''10.23.1.2''] (1, demo_worker ''b'' 1), demo_worker ''c'' 3]"
  by (simp add: auth_pool_tables) (simp add: seated_pool_def)

theorem registration_outcomes_witness:
  "wp (admit_worker demo_env ''acc_1'' (Some ''key_2'') (rw_endpoint demo_registration) demo_registration)
    (\<lambda>i t. i = ''a'' \<and> (\<exists>w. get_worker ''a'' t = Some w \<and> w_status w = waitlisted \<and> w_cluster_id w = Some ''clu_1''))
    (\<lambda>_ _. False) auth_pool"
proof -
  have "''acc_1'' \<in> account_ids auth_pool" by (simp add: account_ids_def auth_pool_tables demo_account_def)
  moreover have "sql_int (rw_memory_allocated_mb demo_registration)" by (simp add: demo_registration_def sql_int_def)
  moreover have "''wrk_'' @ rnd auth_pool (rnd_used auth_pool) \<notin> worker_ids auth_pool"
    by (simp add: worker_ids_def auth_pool_workers assigned_worker_def demo_worker_def)
  moreover have ws: "list_workers_for_account ''acc_1'' auth_pool = workers auth_pool"
    by (simp add: list_workers_for_account_def auth_pool_workers assigned_worker_def demo_worker_def)
  moreover have "\<not> at_cap demo_env ''acc_1'' auth_pool"
    unfolding at_cap_def ws by (simp add: auth_pool_workers demo_env_def demo_settings_def)
  moreover have "known_device ''acc_1'' (rw_wg_pubkey demo_registration) auth_pool"
    unfolding known_device_def ws by (simp add: auth_pool_workers demo_registration_def assigned_worker_def demo_worker_def)
  ultimately show ?thesis
    using auth_pool_schema
    by (intro wp_conseq [OF registration_outcomes])
      (auto simp: auth_pool_workers demo_registration_def assigned_worker_def demo_worker_def get_worker_def reregistered_def)
qed

text \<open>C25: A device that registers again while its cluster is running ends up in two clusters: when the head of
  the waitlist still points at a cluster, as a re-registered worker does, the next formation takes it,
  although the old cluster stays active and keeps it as a member.\<close>

theorem seated_worker_taken_twice:
  assumes "pool_ok s" and "map_of (models (cfg e)) model = Some md"
    and "waitlist model (md_gguf_sha256 md) s = w # ws" and "md_required_memory_mb md \<le> memory (w # ws)"
    and "w_cluster_id w = Some old"
  shows "wp (form_cluster e model)
    (\<lambda>r t. \<exists>c d. r = Some c \<and> c_cluster_id c \<noteq> old \<and> w_worker_id w \<in> set (c_members c) \<and>
       get_cluster (c_cluster_id c) t = Some c \<and> c_status c \<noteq> terminated \<and>
       get_cluster old t = Some d \<and> c_status d \<noteq> terminated \<and> w_worker_id w \<in> set (c_members d))
    (\<lambda>_ t. t = s\<lparr>rnd_used := Suc (rnd_used s)\<rparr>) s"
proof (rule wp_conseq [OF form_cluster_wp [OF assms(1)]])
  fix r t
  assume r: "case r of None \<Rightarrow> t = s \<and> declined e model s | Some c \<Rightarrow> formed e model s c t"
  have "\<not> declined e model s" using assms(2-4) by (simp add: declined_def)
  then obtain c where c: "r = Some c" "formed e model s c t" using r by (cases r) auto
  then obtain chosen tot where f: "choose_members (md_required_memory_mb md) 0 (w # ws) = (chosen, tot)"
    "c_members c = map w_worker_id chosen" "new_cluster_ok c" "get_cluster (c_cluster_id c) s = None"
    "get_cluster (c_cluster_id c) t = Some c" "same_clusters_but (c_cluster_id c) s t"
    using assms(2,3) unfolding formed_def same_sessions_def by auto
  obtain ch where "chosen = w # ch" using choose_prefix [OF f(1)] choose_nonempty [OF f(1)] by (cases chosen) auto
  then have "w_worker_id w \<in> set (c_members c)" using f(2) by simp
  moreover have "w \<in> set (workers s)" using waitlist_in [of w model "md_gguf_sha256 md" s] assms(3) by simp
  then have "seat_ok s w" using assms(1) by (simp add: pool_ok_def assign_ok_def)
  then obtain d i where d: "get_cluster old s = Some d" "c_status d \<noteq> terminated" "i < length (c_members d)"
      "c_members d ! i = w_worker_id w"
    using assms(5) unfolding seat_ok_def by blast
  then have "w_worker_id w \<in> set (c_members d)" by (metis nth_mem)
  moreover have "c_cluster_id c \<noteq> old" using f(4) d(1) by auto
  moreover from this have "get_cluster old t = Some d" using f(6) d(1) by (simp add: same_clusters_but_def get_cluster_def)
  moreover have "c_status c \<noteq> terminated" using f(3) by (simp add: new_cluster_ok_def)
  ultimately show "\<exists>c d. r = Some c \<and> c_cluster_id c \<noteq> old \<and> w_worker_id w \<in> set (c_members c) \<and>
       get_cluster (c_cluster_id c) t = Some c \<and> c_status c \<noteq> terminated \<and>
       get_cluster old t = Some d \<and> c_status d \<noteq> terminated \<and> w_worker_id w \<in> set (c_members d)"
    using c(1) f(5) d(2) by blast
qed

theorem seated_worker_taken_twice_witness:
  "wp (form_cluster demo_env ''m'') (\<lambda>r t. \<exists>c. r = Some c \<and> c_cluster_id c \<noteq> ''clu_1'' \<and> ''a'' \<in> set (c_members c))
    (\<lambda>_ _. True)
    (with_worker (beat demo_env 100 (reregistered (rw_endpoint demo_registration) demo_registration
       (assigned_worker ''clu_1'' [''10.23.1.1'', ''10.23.1.2''] (0, demo_worker ''a'' 2)))) (seated_pool\<lparr>clock := 200\<rparr>))"
    (is "wp _ ?Q _ (with_worker ?w ?p)")
proof -
  let ?s = "with_worker ?w ?p"
  let ?md = "\<lparr>md_slug = ''m'', md_gguf_sha256 = ''h'', md_required_memory_mb = 16\<rparr>"
  have ok: "pool_ok ?p" using same_tables_pool_ok [of seated_pool ?p] seated_pool_ok by (simp add: same_tables_def)
  have id: "w_worker_id (assigned_worker cid ips (i, demo_worker x t)) = x" for cid ips i x t
    by (simp add: assigned_worker_def demo_worker_def)
  let ?seated = "assigned_worker ''clu_1'' [''10.23.1.1'', ''10.23.1.2''] (0, demo_worker ''a'' 2)"
  have "get_worker (w_worker_id ?w) ?p = Some ?seated"
    by (simp add: get_worker_def seated_pool_def assigned_worker_def demo_worker_def)
  moreover have "same_seat ?seated ?w"
    by (simp add: same_seat_def assigned_worker_def demo_worker_def) (simp add: beat_def Let_def)
  moreover have "sql_int (w_memory_allocated_mb ?w)"
    by (simp only: beat_simps reregistered_simps) (simp add: demo_registration_def sql_int_def)
  ultimately have "pool_ok ?s" by (rule pool_ok_with_worker [OF ok])
  moreover have "map_of (models (cfg demo_env)) ''m'' = Some ?md" by (simp add: demo_env_def demo_settings_def)
  moreover have "waitlist ''m'' ''h'' ?s = [?w, demo_worker ''c'' 3]"
    by (simp add: waitlist_def list_workers_def with_worker_def seated_pool_def eligible_def beat_def reregistered_def
        assigned_worker_def demo_worker_def demo_registration_def demo_env_def demo_settings_def)
  moreover have "memory [?w, demo_worker ''c'' 3] = 16"
    by (simp add: memory_def demo_registration_def demo_worker_def)
  moreover have "w_cluster_id ?w = Some ''clu_1''" by (simp add: assigned_worker_def)
  ultimately show ?thesis
    by (intro wp_conseq [OF seated_worker_taken_twice [of ?s demo_env "''m''" ?md ?w "[demo_worker ''c'' 3]" "''clu_1''"]])
      (auto simp: id)
qed

end
