(* ===== verification/Pool_ClusterApi.thy ===== *)
theory Pool_ClusterApi
  imports Pool_Workers
begin

text \<open>
  The cluster handlers of app.py (the WireGuard configuration and the readiness report) and the
  WebSocket of a worker: its authentication, the frames it may send, and its end. The layer
  distribution arrives keyed by rank, as text; a rank is the position of a member in the ring.
\<close>

section \<open>The layer distribution\<close>

text \<open>The loop that maps ranks to workers: a rank that is no number or no position is dropped.\<close>

definition rank_entry :: "string list \<Rightarrow> int dict \<Rightarrow> string \<times> int \<Rightarrow> int dict" where
  "rank_entry members d = (\<lambda>(rank, count).
     case py_int rank of Inl _ \<Rightarrow> d
     | Inr idx \<Rightarrow> if 0 \<le> idx \<and> idx < int (length members) then dict_set (members ! nat idx) count d else d)"

definition by_worker :: "string list \<Rightarrow> int dict \<Rightarrow> int dict" where
  "by_worker members lw = foldl (rank_entry members) [] lw"

text \<open>\<open>try: scheduler.on_layer_distribution(...) except KeyError\<close>.\<close>

definition record_distribution :: "string \<Rightarrow> int dict \<Rightarrow> (pool, unit) act" where
  "record_distribution cid lw =
     try_with (bnd (on_layer_distribution cid (Some lw)) (\<lambda>_. ret ()))
       (\<lambda>x. case x of KeyError _ \<Rightarrow> ret () | _ \<Rightarrow> throw x)"

section \<open>Handlers\<close>

text \<open>A worker without an address makes the answer fail its schema, a \<open>ValueError\<close> of pydantic.\<close>

definition get_cluster_config :: "env \<Rightarrow> string \<Rightarrow> string option \<Rightarrow> (pool, cluster_config) act" where
  "get_cluster_config e cluster_id authorization =
     bnd (gets (get_cluster cluster_id)) (\<lambda>r.
     case r of None \<Rightarrow> throw (not_found_error ''Cluster does not exist.'')
     | Some cluster \<Rightarrow>
         bnd (bound_worker e authorization cluster_id) (\<lambda>worker.
         bnd (build_cluster_config e cluster) (\<lambda>config.
         case w_assigned_ip worker of None \<Rightarrow> throw ValueError
         | Some ip \<Rightarrow> ret (config\<lparr>cc_private_ip := ip\<rparr>))))"

record cluster_status_response =
  sr_cluster_id :: string
  sr_status :: cluster_status
  sr_members_ready :: nat
  sr_members_total :: nat

definition report_ready ::
  "env \<Rightarrow> string \<Rightarrow> int dict option \<Rightarrow> string option \<Rightarrow> (pool, cluster_status_response) act" where
  "report_ready e cluster_id layer_windows authorization =
     bnd (gets (get_cluster cluster_id)) (\<lambda>r.
     case r of None \<Rightarrow> throw (not_found_error ''Cluster does not exist.'')
     | Some cluster \<Rightarrow>
         bnd (bound_worker e authorization cluster_id) (\<lambda>worker.
         seqa (case layer_windows of None \<Rightarrow> ret ()
               | Some lw \<Rightarrow> if w_ring_position worker = Some 0
                   then record_distribution cluster_id
                     (by_worker (c_members cluster) (filter (\<lambda>(k, v). 0 \<le> v) lw))
                   else ret ())
        (bnd (on_ready cluster_id (w_worker_id worker)) (\<lambda>status.
         bnd (gets (get_cluster cluster_id)) (\<lambda>r2.
         let c = (case r2 of None \<Rightarrow> cluster | Some c \<Rightarrow> c) in
         ret \<lparr>sr_cluster_id = cluster_id, sr_status = status, sr_members_ready = card (c_ready c),
              sr_members_total = length (c_members c)\<rparr>)))))"

section \<open>The WebSocket of a worker\<close>

text \<open>\<open>isinstance(v, int)\<close>: a bool is an int.\<close>

fun int_instance :: "json \<Rightarrow> int option" where
  "int_instance (JInt i) = Some i"
| "int_instance (JBool b) = Some (if b then 1 else 0)"
| "int_instance _ = None"

definition counts_of :: "json dict \<Rightarrow> int dict" where
  "counts_of d = List.map_filter (\<lambda>(k, v). case int_instance v of None \<Rightarrow> None
     | Some n \<Rightarrow> if 0 \<le> n then Some (k, n) else None) d"

definition handle_ws_frame :: "json \<Rightarrow> string \<Rightarrow> (pool, unit) act" where
  "handle_ws_frame f worker_id =
     bnd (lift_result (json_get ''type'' f)) (\<lambda>ftype.
     if ftype \<noteq> Some (JStr ''layer_distribution'') then ret ()
     else bnd (gets (get_worker worker_id)) (\<lambda>r.
     case r of None \<Rightarrow> ret ()
     | Some w \<Rightarrow>
     (case w_cluster_id w of None \<Rightarrow> ret ()
      | Some cid \<Rightarrow>
          if w_ring_position w \<noteq> Some 0 then ret ()
          else bnd (lift_result (json_get ''cluster_id'' f)) (\<lambda>fid.
          if fid \<noteq> Some (JStr cid) then ret ()
          else bnd (lift_result (json_get ''layer_windows'' f)) (\<lambda>v.
          let lw = (case v of Some (JObj d) \<Rightarrow> counts_of d | _ \<Rightarrow> []) in
          bnd (gets (get_cluster cid)) (\<lambda>rc.
          case rc of None \<Rightarrow> ret ()
          | Some cluster \<Rightarrow> record_distribution cid (by_worker (c_members cluster) lw)))))))"

text \<open>
  Authentication: the key of the query, or else of the header; a worker key or a session token. The
  answer is the close code, or that the socket may be accepted.
\<close>

definition ws_secret :: "string option \<Rightarrow> string option \<Rightarrow> string" where
  "ws_secret query_key authorization =
     (case query_key of Some k \<Rightarrow> k
      | None \<Rightarrow> (case bearer authorization of None \<Rightarrow> [] | Some k \<Rightarrow> k))"

definition ws_account :: "env \<Rightarrow> string \<Rightarrow> 'z db_scheme \<Rightarrow> exn + string option" where
  "ws_account e secret s =
     (if take 5 secret = ''sess_'' then
        (case verify_session (prim e) secret (session_secret (cfg e)) (truncate_rat (clock s)) of
           Inl x \<Rightarrow> if x = TypeError \<or> x = IndexError then Inr None else Inl x
         | Inr None \<Rightarrow> Inr None
         | Inr (Some (account_id, _)) \<Rightarrow> Inr (Some account_id))
      else Inr (case resolve_api_key (prim e) secret s of None \<Rightarrow> None
        | Some rec \<Rightarrow> if k_scope rec = ''worker'' then Some (k_account_id rec) else None))"

definition ws_admit ::
  "env \<Rightarrow> string \<Rightarrow> string option \<Rightarrow> string option \<Rightarrow> 'z db_scheme \<Rightarrow> exn + nat option" where
  "ws_admit e worker_id query_key authorization s =
     (let secret = ws_secret query_key authorization in
      if secret = [] then Inr (Some 4401)
      else (case ws_account e secret s of
          Inl x \<Rightarrow> Inl x
        | Inr None \<Rightarrow> Inr (Some 4401)
        | Inr (Some account_id) \<Rightarrow>
            if (case get_account account_id s of None \<Rightarrow> False | Some acct \<Rightarrow> a_banned acct) then Inr (Some 4403)
            else (case get_worker worker_id s of None \<Rightarrow> Inr (Some 4403)
              | Some w \<Rightarrow> if w_account_id w \<noteq> account_id then Inr (Some 4403) else Inr None)))"

text \<open>
  The start of \<open>worker_events\<close> on the new socket \<open>ws\<close>, up to \<open>await ws.accept()\<close>: the close code, or
  \<open>None\<close> for a socket that is being accepted.
\<close>

definition ws_open ::
  "env \<Rightarrow> nat \<Rightarrow> string \<Rightarrow> string option \<Rightarrow> string option \<Rightarrow> (pool, nat option) act" where
  "ws_open e ws worker_id query_key authorization =
     bnd (asks (ws_admit e worker_id query_key authorization)) (\<lambda>code.
     case code of Some c \<Rightarrow> ret (Some c)
     | None \<Rightarrow> seqa (puts (\<lambda>s. s\<lparr>accepting := (ws, worker_id) # accepting s\<rparr>)) (ret None))"

text \<open>
  The rest of it: an accept that fails ends the handler before the socket was registered; otherwise the
  socket joins the hub, the hello is sent, and the receive loop starts.
\<close>

definition ws_accepted :: "env \<Rightarrow> nat \<Rightarrow> bool \<Rightarrow> (pool, unit) act" where
  "ws_accepted e ws accepted =
     bnd (gets (\<lambda>s. map_of (accepting s) ws)) (\<lambda>r.
     case r of None \<Rightarrow> ret ()
     | Some worker_id \<Rightarrow>
         seqa (puts (\<lambda>s. s\<lparr>accepting := filter (\<lambda>(k, _). k \<noteq> ws) (accepting s)\<rparr>))
        (if \<not> accepted then throw (RuntimeError ''accept'')
         else seqa (hub_connect worker_id ws) (send_hello e worker_id [Receive ws worker_id])))"

text \<open>The \<open>finally\<close> clause, when the socket of \<open>worker_id\<close> has ended for whatever reason.\<close>

definition ws_end :: "nat \<Rightarrow> string \<Rightarrow> (pool, unit) act" where
  "ws_end ws worker_id =
     seqa (puts (\<lambda>s. s\<lparr>socks := filter (\<lambda>(k, _). k \<noteq> ws) (socks s)\<rparr>)) (hub_disconnect worker_id)"

text \<open>
  One turn of the receive loop. A text that is not JSON is skipped, and an exception ends the socket. A
  ping is answered on the socket itself; nothing follows its await but the next turn, or the end of the
  socket when the pong cannot be sent (\<open>pong_sent\<close>), so the turn takes place when it is over.
\<close>

definition ws_receive :: "env \<Rightarrow> nat \<Rightarrow> string \<Rightarrow> bool \<Rightarrow> (pool, unit) act" where
  "ws_receive e ws msg pong_sent =
     bnd (gets (\<lambda>s. map_of (socks s) ws)) (\<lambda>r.
     case r of None \<Rightarrow> ret ()
     | Some worker_id \<Rightarrow>
         if msg = ''ping'' then
           (if pong_sent then puts (\<lambda>s. s\<lparr>sent := sent s @ [(ws, Pong)]\<rparr>) else ws_end ws worker_id)
         else
           (case json_loads e msg of None \<Rightarrow> ret ()
            | Some f \<Rightarrow> try_with (handle_ws_frame f worker_id) (\<lambda>x. seqa (ws_end ws worker_id) (throw x))))"

definition ws_close :: "nat \<Rightarrow> (pool, unit) act" where
  "ws_close ws =
     bnd (gets (\<lambda>s. map_of (socks s) ws)) (\<lambda>r.
     case r of None \<Rightarrow> ret () | Some worker_id \<Rightarrow> ws_end ws worker_id)"

section \<open>Ranks\<close>

lemma rank_entry_cases:
  "rank_entry members d (k, n) = d \<or>
   (\<exists>i < length members. py_int k = Inr (int i) \<and> rank_entry members d (k, n) = dict_set (members ! i) n d)"
proof (cases "py_int k")
  case (Inr idx)
  show ?thesis
  proof (cases "0 \<le> idx \<and> idx < int (length members)")
    case True
    then show ?thesis using Inr by (intro disjI2 exI [of _ "nat idx"]) (simp add: rank_entry_def nat_less_iff)
  next
    case False
    then show ?thesis using Inr by (auto simp: rank_entry_def)
  qed
qed (simp add: rank_entry_def)

lemma by_worker_keys:
  "distinct (map fst d) \<Longrightarrow> fst ` set d \<subseteq> set members \<Longrightarrow>
   distinct (map fst (foldl (rank_entry members) d lw)) \<and> fst ` set (foldl (rank_entry members) d lw) \<subseteq> set members"
proof (induction lw arbitrary: d)
  case (Cons p lw)
  have "distinct (map fst (rank_entry members d p)) \<and> fst ` set (rank_entry members d p) \<subseteq> set members"
    using rank_entry_cases [of members d "fst p" "snd p"]
  proof (elim disjE exE conjE)
    fix i
    assume "i < length members" and r: "rank_entry members d (fst p, snd p) = dict_set (members ! i) (snd p) d"
    then show ?thesis using Cons.prems r distinct_dict_set [of d] by (simp add: dict_set_keys)
  qed (use Cons.prems in simp)
  then show ?case using Cons.IH by simp
qed simp

lemma dict_set_values: "snd ` set (dict_set k v d) \<subseteq> insert v (snd ` set d)"
  by (induction k v d rule: dict_set.induct) auto

lemma by_worker_values: "snd ` set (foldl (rank_entry members) d lw) \<subseteq> snd ` set d \<union> snd ` set lw"
proof (induction lw arbitrary: d)
  case (Cons p lw)
  have "snd ` set (rank_entry members d p) \<subseteq> snd ` set d \<union> {snd p}"
    using rank_entry_cases [of members d "fst p" "snd p"]
  proof (elim disjE exE conjE)
    fix i
    assume r: "rank_entry members d (fst p, snd p) = dict_set (members ! i) (snd p) d"
    then show ?thesis using dict_set_values [of "members ! i" "snd p" d] by simp
  qed auto
  then show ?case using Cons.IH [of "rank_entry members d p"] by simp blast
qed simp

lemma by_worker_report_ok:
  assumes "\<And>k n. (k, n) \<in> set lw \<Longrightarrow> 0 \<le> n"
  shows "report_ok (by_worker members lw)"
proof -
  have "0 \<le> n" if "(w, n) \<in> set (by_worker members lw)" for w n
    using that by_worker_values [of members "[]" lw] assms by (force simp: by_worker_def)
  then show ?thesis using by_worker_keys [of "[]" members lw] by (auto simp: report_ok_def by_worker_def list_all_iff)
qed

lemma counts_of_nonneg: "(k, n) \<in> set (counts_of d) \<Longrightarrow> 0 \<le> n"
  by (auto simp: counts_of_def List.map_filter_def split: option.splits if_splits)

lemma str_nat_length: "length (str_nat n) \<le> Suc n"
proof (induction n rule: str_nat.induct)
  case (1 n)
  show ?case
  proof (cases "n < 10")
    case False
    then have "length (str_nat (n div 10)) \<le> Suc (n div 10)" using 1 by simp
    moreover have "Suc (n div 10) \<le> n" using False by simp
    ultimately show ?thesis using False by (simp add: str_nat.simps [of n])
  qed (simp add: str_nat.simps [of n])
qed

lemma py_int_str_nat: "n < 4300 \<Longrightarrow> py_int (str_nat n) = Inr (int n)"
  using py_int_str_int [of "int n"] str_nat_length [of n] by (simp add: str_int_def)

section \<open>What a layer report does\<close>

lemma set_cluster_distribution_any:
  assumes "report_ok lw" and "get_cluster cid s = Some c"
  shows "wp (set_cluster_distribution cid (Some lw))
    (\<lambda>r t. r = Some (distribution_spec (Some lw) c) \<and> get_cluster cid t = r \<and> same_clusters_but cid s t)
    (\<lambda>x t. x = OverflowError \<and> t = s) s"
proof (cases "windows_valid lw")
  case True
  then have v: "case Some lw of None \<Rightarrow> True | Some d \<Rightarrow> windows_valid d" by simp
  show ?thesis by (rule wp_conseq [OF set_cluster_distribution_wp [OF v]]) (simp_all add: assms(2))
next
  case False
  then have big: "\<exists>(wid, n) \<in> set lw. \<not> sql_int n" and pos: "\<And>wid n. (wid, n) \<in> set lw \<Longrightarrow> 0 \<le> n"
    using assms(1) by (auto simp: report_ok_def windows_valid_def window_ok_def list_all_iff)
  show ?thesis
  proof (cases "c_status c = terminated")
    case True
    then show ?thesis using assms(2)
      by (simp add: set_cluster_distribution_def wp_simps get_cluster_def distribution_spec_def)
  next
    case active: False
    show ?thesis by (rule wp_conseq [OF set_cluster_distribution_overflow [OF pos big assms(2) active]]) auto
  qed
qed

lemma record_distribution_wp:
  assumes "report_ok lw" and "get_cluster cid s = Some c"
  shows "wp (record_distribution cid lw)
    (\<lambda>_ t. get_cluster cid t = Some (distribution_spec (Some lw) c) \<and> same_clusters_but cid s t)
    (\<lambda>x t. x = OverflowError \<and> t = s) s"
  unfolding record_distribution_def on_layer_distribution_def wp_try_with wp_bnd
  by (rule wp_conseq [OF set_cluster_distribution_any [OF assms]]) (auto simp: wp_simps)

section \<open>Properties\<close>

text \<open>The ranks of a report reach the right members: when the keys of the report are decimal numbers, each
  once, the windows that are recorded are, for the member at position \<open>i\<close>, the count that was reported
  for rank \<open>i\<close>; ranks beyond the ring are dropped, and nobody else gets a window.\<close>

theorem ranks_reach_members:
  assumes "distinct members" and "length members \<le> 4300" and "distinct (map fst lw)"
    and "\<And>k. k \<in> set (map fst lw) \<Longrightarrow> \<exists>n < 4300. k = str_nat n"
  shows "list_all (\<lambda>i. map_of (by_worker members lw) (members ! i) = map_of lw (str_nat i)) [0..<length members] \<and>
    fst ` set (by_worker members lw) \<subseteq> set members"
proof
  show "fst ` set (by_worker members lw) \<subseteq> set members"
    using by_worker_keys [of "[]" members lw] by (simp add: by_worker_def)
  have "map_of (foldl (rank_entry members) d lw) (members ! i) =
      (case map_of lw (str_nat i) of None \<Rightarrow> map_of d (members ! i) | Some n \<Rightarrow> Some n)" if "i < length members" for i d
    using assms(3,4)
  proof (induction lw arbitrary: d)
    case (Cons p lw)
    obtain j n where p: "p = (str_nat j, n)" "j < 4300" using Cons.prems(2) [of "fst p"] by (cases p) auto
    have entry: "rank_entry members d p = (if j < length members then dict_set (members ! j) n d else d)"
      using p by (simp add: rank_entry_def py_int_str_nat)
    have "map_of (rank_entry members d p) (members ! i) = (if i = j then Some n else map_of d (members ! i))"
      using that assms(1) by (auto simp: entry nth_eq_iff_index_eq)
    moreover have "map_of lw (str_nat i) = None" if "i = j"
      using Cons.prems(1) that by (auto simp: p map_of_eq_None_iff)
    ultimately show ?case using Cons.IH [of "rank_entry members d p"] Cons.prems
      by (cases "i = j") (auto simp: p split: option.split)
  qed simp
  from this [of _ "[]"] show "list_all (\<lambda>i. map_of (by_worker members lw) (members ! i) = map_of lw (str_nat i)) [0..<length members]"
    by (auto simp: list_all_iff by_worker_def split: option.split)
qed

text \<open>C24: Only the head of a running cluster can report a distribution over the WebSocket, and only for its own
  cluster: a frame either changes nothing, or its sender is the head of the cluster that the frame
  names, and then exactly that cluster's record changes, to the specified one. The only exceptions
  are an \<open>AttributeError\<close>, for a frame that is JSON but no object, and an \<open>OverflowError\<close>, for a
  count that SQLite cannot hold; both leave the pool as it was.\<close>

theorem ws_report_only_from_head:
  "wp (handle_ws_frame f wid)
    (\<lambda>_ t. t = s \<or> (\<exists>w cid c d lw. get_worker wid s = Some w \<and> w_ring_position w = Some 0 \<and>
       w_cluster_id w = Some cid \<and> get_cluster cid s = Some c \<and> f = JObj d \<and>
       map_of d ''cluster_id'' = Some (JStr cid) \<and>
       lw = (case map_of d ''layer_windows'' of Some (JObj v) \<Rightarrow> counts_of v | _ \<Rightarrow> []) \<and>
       get_cluster cid t = Some (distribution_spec (Some (by_worker (c_members c) lw)) c) \<and>
       same_clusters_but cid s t))
    (\<lambda>x t. t = s \<and> (x = AttributeError \<and> \<not> is_object f \<or> x = OverflowError)) s"
    (is "wp _ (\<lambda>_ t. ?post t) ?exn s")
proof (cases f)
  case (JObj d)
  show ?thesis
  proof (cases "\<exists>w cid c. map_of d ''type'' = Some (JStr ''layer_distribution'') \<and> get_worker wid s = Some w \<and>
      w_cluster_id w = Some cid \<and> w_ring_position w = Some 0 \<and> map_of d ''cluster_id'' = Some (JStr cid) \<and>
      get_cluster cid s = Some c")
    case True
    then obtain w cid c where c: "map_of d ''type'' = Some (JStr ''layer_distribution'')" "get_worker wid s = Some w"
      "w_cluster_id w = Some cid" "w_ring_position w = Some 0" "map_of d ''cluster_id'' = Some (JStr cid)"
      "get_cluster cid s = Some c" by blast
    let ?lw = "case map_of d ''layer_windows'' of Some (JObj v) \<Rightarrow> counts_of v | _ \<Rightarrow> []"
    have "report_ok (by_worker (c_members c) ?lw)"
      by (rule by_worker_report_ok) (auto split: option.splits json.splits intro: counts_of_nonneg)
    from record_distribution_wp [OF this c(6)]
    have "wp (record_distribution cid (by_worker (c_members c) ?lw)) (\<lambda>_ t. ?post t) ?exn s"
      by (rule wp_conseq) (use JObj c in auto)
    then show ?thesis
      unfolding handle_ws_frame_def json_get_def JObj using c by (simp add: wp_simps Let_def)
  next
    case False
    then show ?thesis
      by (auto simp: handle_ws_frame_def json_get_def JObj wp_simps Let_def split: option.split)
  qed
qed (simp_all add: handle_ws_frame_def json_get_def wp_simps)

theorem ranks_reach_members_witness:
  "map_of (by_worker [''a'', ''b''] [(''1'', 7), (''0'', 24), (''9'', 1)]) ''a'' = Some 24"
proof -
  have n: "''1'' = str_nat 1" "''0'' = str_nat 0" "''9'' = str_nat 9" by (simp_all add: str_nat.simps digit_def)
  have "\<exists>n < 4300. k = str_nat n" if "k \<in> set (map fst [(''1'', 7), (''0'', 24), (''9'', 1)])" for k
    using that n by force
  then show ?thesis
    using ranks_reach_members [of "[''a'', ''b'']" "[(''1'', 7), (''0'', 24), (''9'', 1)]"] n by (simp add: upt_rec)
qed

section \<open>The readiness report\<close>

text \<open>What a report means: the head's windows first, then the readiness of the reporting member.\<close>

definition reported :: "worker_rec \<Rightarrow> int dict option \<Rightarrow> cluster_rec \<Rightarrow> cluster_rec" where
  "reported w windows c = ready_spec (w_worker_id w)
     (case windows of None \<Rightarrow> c
      | Some lw \<Rightarrow> if w_ring_position w = Some 0
          then distribution_spec (Some (by_worker (c_members c) (filter (\<lambda>(k, v). 0 \<le> v) lw))) c else c)"

lemma same_clusters_but_trans: "same_clusters_but cid s t \<Longrightarrow> same_clusters_but cid t u \<Longrightarrow> same_clusters_but cid s u"
  by (simp add: same_clusters_but_def)

lemma same_clusters_but_get: "same_clusters_but cid s t \<Longrightarrow> i \<noteq> cid \<Longrightarrow> get_cluster i t = get_cluster i s"
  by (simp add: same_clusters_but_def get_cluster_def)

lemma bound_to_cluster: "get_cluster i (bound_to k wid s) = get_cluster i s"
  by (rule get_cluster_cong) (simp_all add: bound_to_def)

lemma on_ready_wp:
  assumes "get_cluster cid s = Some c"
  shows "wp (on_ready cid wid)
    (\<lambda>r t. r = c_status (ready_spec wid c) \<and> get_cluster cid t = Some (ready_spec wid c) \<and> same_clusters_but cid s t)
    (\<lambda>_ _. False) s"
  unfolding on_ready_def wp_bnd
  by (rule wp_conseq [OF mark_member_ready_wp]) (auto simp: assms wp_simps)

lemma report_windows_wp:
  assumes "get_cluster cid s = Some c"
  shows "wp (case windows of None \<Rightarrow> ret ()
      | Some lw \<Rightarrow> if w_ring_position w = Some 0
          then record_distribution cid (by_worker (c_members c) (filter (\<lambda>(k, v). 0 \<le> v) lw)) else ret ())
    (\<lambda>_ t. \<exists>d. get_cluster cid t = Some d \<and> reported w windows c = ready_spec (w_worker_id w) d \<and> same_clusters_but cid s t)
    (\<lambda>x t. t = s) s"
proof (cases "\<exists>lw. windows = Some lw \<and> w_ring_position w = Some 0")
  case True
  then obtain lw where lw: "windows = Some lw" "w_ring_position w = Some 0" by blast
  have "report_ok (by_worker (c_members c) (filter (\<lambda>(k, v). 0 \<le> v) lw))" by (rule by_worker_report_ok) auto
  from record_distribution_wp [OF this assms] show ?thesis
    unfolding lw option.case if_P [OF refl] by (rule wp_conseq) (auto simp: reported_def lw)
next
  case False
  then show ?thesis by (auto simp: assms reported_def wp_simps split: option.split)
qed

lemma report_ready_wp:
  assumes "schema_ok s" and "bindings_ok s" and "get_cluster cid s = Some c"
  shows "wp (report_ready e cid windows auth)
    (\<lambda>r t. \<exists>w. get_worker (w_worker_id w) s = Some w \<and> w_cluster_id w = Some cid \<and>
       (\<exists>scope kid b. worker_credential e auth s = Inr (w_account_id w, scope, kid, b)) \<and>
       get_cluster cid t = Some (reported w windows c) \<and> same_clusters_but cid s t \<and>
       r = \<lparr>sr_cluster_id = cid, sr_status = c_status (reported w windows c),
            sr_members_ready = card (c_ready (reported w windows c)), sr_members_total = length (c_members c)\<rparr>)
    (\<lambda>x t. \<forall>i. get_cluster i t = get_cluster i s) s"
    (is "wp _ ?Q ?E s")
proof -
  have ok: "keys_ok s" "workers_ok s" using assms(1) by (simp_all add: schema_ok_def)
  have len: "length (c_members (reported w windows c)) = length (c_members c)" for w
    by (simp add: reported_def ready_spec_def distribution_spec_def go_live_def split: option.split)
  let ?rest = "\<lambda>w. seqa (case windows of None \<Rightarrow> ret ()
      | Some lw \<Rightarrow> if w_ring_position w = Some 0
          then record_distribution cid (by_worker (c_members c) (filter (\<lambda>(k, v). 0 \<le> v) lw)) else ret ())
    (bnd (on_ready cid (w_worker_id w)) (\<lambda>status. bnd (gets (get_cluster cid)) (\<lambda>r2.
       let d = (case r2 of None \<Rightarrow> c | Some d \<Rightarrow> d) in
       ret \<lparr>sr_cluster_id = cid, sr_status = status, sr_members_ready = card (c_ready d),
            sr_members_total = length (c_members d)\<rparr>)))"
  have rest: "wp (?rest w) ?Q ?E u"
    if w: "get_worker (w_worker_id w) s = Some w" "w_cluster_id w = Some cid"
      "worker_credential e auth s = Inr (w_account_id w, scope, kid, b)"
      and u: "\<And>i. get_cluster i u = get_cluster i s" for w u scope kid b
  proof -
    have su: "same_clusters_but cid s u" using u by (simp add: same_clusters_but_def get_cluster_def)
    have cu: "get_cluster cid u = Some c" using u assms(3) by simp
    show ?thesis
      unfolding wp_seqa
    proof (rule wp_conseq [OF report_windows_wp [OF cu, where windows = windows and w = w]])
      fix x t
      assume "\<exists>d. get_cluster cid t = Some d \<and> reported w windows c = ready_spec (w_worker_id w) d \<and> same_clusters_but cid u t"
      then obtain d where d: "get_cluster cid t = Some d" "reported w windows c = ready_spec (w_worker_id w) d"
        "same_clusters_but cid u t" by blast
      show "wp (bnd (on_ready cid (w_worker_id w)) (\<lambda>status. bnd (gets (get_cluster cid)) (\<lambda>r2.
       let d = (case r2 of None \<Rightarrow> c | Some d \<Rightarrow> d) in
       ret \<lparr>sr_cluster_id = cid, sr_status = status, sr_members_ready = card (c_ready d),
            sr_members_total = length (c_members d)\<rparr>))) ?Q ?E t"
        unfolding wp_bnd
      proof (rule wp_conseq [OF on_ready_wp [OF d(1)]])
        fix r v
        assume r: "r = c_status (ready_spec (w_worker_id w) d) \<and>
          get_cluster cid v = Some (ready_spec (w_worker_id w) d) \<and> same_clusters_but cid t v"
        then have "same_clusters_but cid s v" using same_clusters_but_trans [OF same_clusters_but_trans [OF su d(3)]] by blast
        then show "wp (gets (get_cluster cid)) (\<lambda>r2. wp (let d = (case r2 of None \<Rightarrow> c | Some d \<Rightarrow> d) in
           ret \<lparr>sr_cluster_id = cid, sr_status = r, sr_members_ready = card (c_ready d),
            sr_members_total = length (c_members d)\<rparr>) ?Q ?E) ?E v"
          using r d(2) w len [of w] by (auto simp: wp_simps Let_def)
      qed simp
    qed (use u in simp)
  qed
  show ?thesis
    unfolding report_ready_def wp_bnd wp_gets assms(3) option.case
  proof (rule wp_conseq [OF bound_worker_wp [OF ok(1) assms(2) ok(2)]])
    fix w u
    assume "\<exists>a scope kid b. worker_credential e auth s = Inr (a, scope, kid, b) \<and> own_key a kid s \<and>
       get_worker (w_worker_id w) s = Some w \<and> w_account_id w = a \<and> w_cluster_id w = Some cid \<and>
       (u = s \<or> (\<exists>k. kid = Some k \<and> u = bound_to k (w_worker_id w) s))"
    then obtain scope kid b where w: "get_worker (w_worker_id w) s = Some w" "w_cluster_id w = Some cid"
      "worker_credential e auth s = Inr (w_account_id w, scope, kid, b)"
      "u = s \<or> (\<exists>k. u = bound_to k (w_worker_id w) s)" by blast
    from w(4) have "get_cluster i u = get_cluster i s" for i using bound_to_cluster by blast
    then show "wp (?rest w) ?Q ?E u" by (rule rest [OF w(1-3)])
  qed simp
qed

text \<open>C23: The readiness report, end to end: the credential resolves to one worker, owned by its account and
  pointing at the cluster; the stored cluster becomes exactly the specified one (the windows count only
  when that worker is the head, its readiness is added, the cluster goes live when all is there), the
  answer shows that record, and no other cluster changes. A refused or failed report changes no
  cluster at all.\<close>

theorem report_ready_refines:
  assumes "schema_ok s" and "bindings_ok s" and "get_cluster cid s = Some c"
  shows "wp (report_ready e cid windows auth)
    (\<lambda>r t. \<exists>w. get_worker (w_worker_id w) s = Some w \<and> w_cluster_id w = Some cid \<and>
       (\<exists>scope kid b. worker_credential e auth s = Inr (w_account_id w, scope, kid, b)) \<and>
       get_cluster cid t = Some (reported w windows c) \<and> same_clusters_but cid s t \<and>
       r = \<lparr>sr_cluster_id = cid, sr_status = c_status (reported w windows c),
            sr_members_ready = card (c_ready (reported w windows c)), sr_members_total = length (c_members c)\<rparr>)
    (\<lambda>x t. \<forall>i. get_cluster i t = get_cluster i s) s"
  by (rule report_ready_wp [OF assms])

lemma auth_pool_cluster: "get_cluster ''clu_1'' auth_pool = Some demo_cluster"
  using get_cluster_cong [of auth_pool seated_pool] get_seated [of "''clu_1''"] by (simp add: auth_pool_tables)

theorem report_ready_refines_witness:
  "wp (report_ready demo_env ''clu_1'' (Some [(''0'', 24), (''1'', 8)]) (Some ''Bearer sk-worker-2''))
    (\<lambda>r t. sr_members_total r = 2 \<and> (\<exists>c. get_cluster ''clu_1'' t = Some c \<and> c_members c = [''a'', ''b'']))
    (\<lambda>_ t. get_cluster ''clu_1'' t = Some demo_cluster) auth_pool"
proof (rule wp_conseq [OF report_ready_refines [OF auth_pool_schema auth_pool_bindings auth_pool_cluster]])
  have "c_members (reported w x demo_cluster) = [''a'', ''b'']" for w x
    by (simp add: reported_def ready_spec_def distribution_spec_def go_live_def demo_cluster_def split: option.split)
  moreover have "length (c_members demo_cluster) = 2" by (simp add: demo_cluster_def)
  ultimately show "sr_members_total r = 2 \<and> (\<exists>c. get_cluster ''clu_1'' t = Some c \<and> c_members c = [''a'', ''b''])"
    if "\<exists>w. get_worker (w_worker_id w) auth_pool = Some w \<and> w_cluster_id w = Some ''clu_1'' \<and>
       (\<exists>scope kid b. worker_credential demo_env (Some ''Bearer sk-worker-2'') auth_pool = Inr (w_account_id w, scope, kid, b)) \<and>
       get_cluster ''clu_1'' t = Some (reported w (Some [(''0'', 24), (''1'', 8)]) demo_cluster) \<and> same_clusters_but ''clu_1'' auth_pool t \<and>
       r = \<lparr>sr_cluster_id = ''clu_1'', sr_status = c_status (reported w (Some [(''0'', 24), (''1'', 8)]) demo_cluster),
            sr_members_ready = card (c_ready (reported w (Some [(''0'', 24), (''1'', 8)]) demo_cluster)),
            sr_members_total = length (c_members demo_cluster)\<rparr>" for r t
    using that by auto
qed (simp add: auth_pool_cluster)

section \<open>Who may listen\<close>

text \<open>The notifications of a worker only go to its owner: a socket is accepted only for a worker that
  exists, whose account is not banned, and which is owned by the account of the presented secret,
  a worker key of that account or a session token that verifies for it.\<close>

theorem ws_admits_owner:
  assumes "schema_ok s" and "ws_admit e worker_id query_key auth s = Inr None"
  shows "\<exists>w. get_worker worker_id s = Some w \<and> not_banned (w_account_id w) s \<and>
    (let secret = ws_secret query_key auth in
     (\<exists>r. resolve_api_key (prim e) secret s = Some r \<and> k_scope r = ''worker'' \<and> k_account_id r = w_account_id w) \<or>
     (\<exists>x. verify_session (prim e) secret (session_secret (cfg e)) (truncate_rat (clock s)) = Inr (Some (w_account_id w, x))))"
proof -
  let ?secret = "ws_secret query_key auth"
  obtain a w where a: "ws_account e ?secret s = Inr (Some a)" "get_worker worker_id s = Some w" "w_account_id w = a"
    "\<not> (case get_account a s of None \<Rightarrow> False | Some acct \<Rightarrow> a_banned acct)"
    using assms(2) by (auto simp: ws_admit_def Let_def split: if_splits sum.splits option.splits)
  have "w \<in> set (workers s)" using worker_table.get_in [OF a(2)] by simp
  then have "a \<in> account_ids s" using assms(1) a(3) by (auto simp: schema_ok_def workers_ok_def)
  then obtain acct where "get_account a s = Some acct"
    using account_table.get_None [of a s] by (cases "get_account a s") (auto simp: account_ids_def)
  then have "not_banned a s" using a(4) by (simp add: not_banned_def)
  moreover have "(\<exists>r. resolve_api_key (prim e) ?secret s = Some r \<and> k_scope r = ''worker'' \<and> k_account_id r = a) \<or>
     (\<exists>x. verify_session (prim e) ?secret (session_secret (cfg e)) (truncate_rat (clock s)) = Inr (Some (a, x)))"
    using a(1) by (auto simp: ws_account_def split: if_splits sum.splits option.splits)
  ultimately show ?thesis using a(2,3) by (auto simp: Let_def)
qed

theorem ws_admits_owner_witness:
  "ws_admit demo_env ''a'' (Some ''sk-worker-2'') None auth_pool = Inr None \<and> not_banned ''acc_1'' auth_pool"
proof -
  obtain w where w: "get_worker ''a'' auth_pool = Some w" "w_account_id w = ''acc_1''"
    by (simp add: get_worker_def auth_pool_workers assigned_worker_def demo_worker_def)
  have "prim demo_env = demo_crypto" by (simp add: demo_env_def)
  then have "ws_admit demo_env ''a'' (Some ''sk-worker-2'') None auth_pool = Inr None"
    using auth_pool_keys(1) w
    by (simp add: ws_admit_def ws_secret_def ws_account_def Let_def get_account_def auth_pool_tables demo_account_def)
  with ws_admits_owner [OF auth_pool_schema this] show ?thesis using w by auto
qed

section \<open>A reconnection\<close>

text \<open>A socket is being served, or will be as soon as its hello is out.\<close>

definition still_open :: "nat \<Rightarrow> string \<Rightarrow> pool \<Rightarrow> bool" where
  "still_open ws wid s \<longleftrightarrow> map_of (socks s) ws = Some wid \<or>
     (\<exists>fl \<in> set (flights s). fl_socket fl = ws \<and> fl_worker fl = wid \<and> fl_rest fl = [Receive ws wid])"

lemma accepted_state:
  assumes "map_of (accepting s) new = Some wid"
  shows "\<exists>t. ws_accepted e new True s = (Inr (), t) \<and> conns t = dict_set wid new (conns s) \<and> still_open new wid t \<and>
    (\<forall>k. k \<noteq> new \<longrightarrow> map_of (socks t) k = map_of (socks s) k)"
proof (cases "get_worker wid s")
  case None
  then show ?thesis using assms
    by (simp add: ws_accepted_def hub_connect_def send_hello_def act_defs get_worker_def still_open_def)
next
  case (Some w)
  then show ?thesis using assms
    by (simp add: ws_accepted_def hub_connect_def send_hello_def hub_send_def act_defs get_worker_def still_open_def)
qed

text \<open>C38: A worker that reconnects before its old socket has ended loses its notifications. The new socket is
  accepted and replaces the old one in the hub; but when the old socket then ends, or an assignment
  notice that was under way on it fails, the hub forgets the worker, by its id, and with it the new
  socket, which stays open: a notice for the worker is not sent any more, on either socket.\<close>

theorem reconnect_loses_frames:
  assumes "map_of (socks s) old = Some wid" and "map_of (accepting s) new = Some wid" and "new \<noteq> old"
    and "s1 = run_state (ws_accepted e new True) s"
    and "s2 = run_state (ws_close old) s1 \<or>
      s2 = run_state (hub_sent \<lparr>fl_worker = wid, fl_socket = old, fl_frame = f, fl_rest = []\<rparr> False) s1"
  shows "map_of (conns s1) wid = Some new \<and> map_of (conns s2) wid = None \<and> still_open new wid s2 \<and>
    run_next_task (s2\<lparr>tasks := NotifyAssigned wid g # ts\<rparr>) = (Inr (), s2\<lparr>tasks := ts\<rparr>)"
proof -
  have t: "conns s1 = dict_set wid new (conns s)" "still_open new wid s1" "map_of (socks s1) old = Some wid"
    using accepted_state [OF assms(2), of e] assms(1,3,4) by (auto simp: run_state_def)
  have other: "map_of (filter (\<lambda>(k, _). k \<noteq> old) xs) new = map_of xs new" for xs :: "(nat \<times> string) list"
    using assms(3) by (induction xs) auto
  have "conns s2 = filter (\<lambda>(k, _). k \<noteq> wid) (conns s1) \<and> still_open new wid s2"
    using assms(5)
  proof
    assume "s2 = run_state (ws_close old) s1"
    then show ?thesis
      using t(2,3) by (simp add: ws_close_def ws_end_def hub_disconnect_def act_defs still_open_def other)
  next
    assume "s2 = run_state (hub_sent \<lparr>fl_worker = wid, fl_socket = old, fl_frame = f, fl_rest = []\<rparr> False) s1"
    moreover have "fl \<in> set (remove1 \<lparr>fl_worker = wid, fl_socket = old, fl_frame = f, fl_rest = []\<rparr> (flights s1))"
      if "fl \<in> set (flights s1)" "fl_socket fl = new" for fl
      using that assms(3) by (subst in_set_remove1) auto
    ultimately show ?thesis
      using t(2) by (simp add: hub_sent_def hub_disconnect_def act_defs still_open_def) blast
  qed
  moreover from this have gone: "map_of (conns s2) wid = None" by (simp add: disconnected)
  then have "run_next_task (s2\<lparr>tasks := NotifyAssigned wid g # ts\<rparr>) = (Inr (), s2\<lparr>tasks := ts\<rparr>)"
    by (simp add: run_next_task_def run_task_def broadcast_cluster_assigned_def hub_send_def act_defs)
  ultimately show ?thesis using t(1) gone by simp
qed

theorem reconnect_loses_frames_witness:
  "map_of (conns (run_state (ws_close 4) (run_state (ws_accepted demo_env 9 True)
     (demo_pool\<lparr>socks := [(4, ''a'')], conns := [(''a'', 4)], accepting := [(9, ''a'')]\<rparr>)))) ''a'' = None"
  using reconnect_loses_frames [of "demo_pool\<lparr>socks := [(4, ''a'')], conns := [(''a'', 4)], accepting := [(9, ''a'')]\<rparr>" 4 "''a''" 9,
      OF _ _ _ refl disjI1 [OF refl]] by simp

end
