(* ===== verification/Pool_Chat.thy ===== *)
theory Pool_Chat
  imports Pool_ClusterApi
begin

text \<open>
  The inference proxy of app.py (\<open>chat_completions\<close>). The handler runs in three parts, between which
  the server serves other requests: \<open>chat_admit\<close> checks the credential and then awaits the body of the
  request; \<open>chat_route\<close>, when the body is there, picks the cluster and sends the request to its head; and
  \<open>chat_finish\<close> runs when the head has answered or failed. What the head answers is the choice of the
  step.
\<close>

section \<open>The request\<close>

text \<open>\<open>f"{model}"\<close>: the text of a value that is no string is Python's.\<close>

definition display :: "env \<Rightarrow> json \<Rightarrow> string" where
  "display e v = (case v of JStr t \<Rightarrow> t | _ \<Rightarrow> json_text e v)"

definition no_live_cluster :: "env \<Rightarrow> json \<Rightarrow> exn" where
  "no_live_cluster e v = not_found_error
     (''No live cluster available for model '' @ [CHR 0x27] @ display e v @ [CHR 0x27] @ ''.'')"

text \<open>Up to \<open>await request.json()\<close>.\<close>

definition chat_admit :: "env \<Rightarrow> string option \<Rightarrow> (pool, chat_entry) act" where
  "chat_admit e authorization =
     bnd (asks (api_key e authorization)) (\<lambda>(account_id, scope, key_id).
     if scope \<noteq> ''user'' then throw (forbidden_error ''Only a user key can send inference requests.'')
     else bnd (gets (can_use e account_id)) (\<lambda>allowed.
     if \<not> allowed then throw (forbidden_error ''This account is not permitted to use inference.'')
     else
       let p = \<lparr>ce_account_id = account_id, ce_key_id = key_id\<rparr> in
       seqa (puts (\<lambda>s. s\<lparr>admitted := admitted s @ [p]\<rparr>)) (ret p)))"

text \<open>From the body on, with the account and the key that were admitted; they are not looked at again.\<close>

definition route_call :: "env \<Rightarrow> chat_entry \<Rightarrow> string \<Rightarrow> (pool, call) act" where
  "route_call e p body =
     (case json_loads e body of None \<Rightarrow> throw ValueError
     | Some b \<Rightarrow>
         bnd (lift_result (json_get ''model'' b)) (\<lambda>m.
         let model = (case m of None \<Rightarrow> JNull | Some v \<Rightarrow> v) in
         if \<not> truthy model
         then throw (bad_request_error (''Missing '' @ [CHR 0x27] @ ''model'' @ [CHR 0x27] @ '' in request body.''))
         else
           bnd (gets (\<lambda>s. case model of JStr name \<Rightarrow> find_live_cluster name s | _ \<Rightarrow> None)) (\<lambda>r.
           case r of None \<Rightarrow> throw (no_live_cluster e model)
           | Some cluster \<Rightarrow>
           (case head_url e cluster of None \<Rightarrow> throw (not_found_error ''Cluster has no head to route to.'')
            | Some url \<Rightarrow>
                bnd (lift_result (json_get ''stream'' b)) (\<lambda>st.
                bnd (new_id ''req'') (\<lambda>request_id.
                let c = \<lparr>ca_request_id = request_id, ca_account_id = ce_account_id p, ca_key_id = ce_key_id p,
                         ca_model = display e model, ca_cluster_id = c_cluster_id cluster,
                         ca_target = url @ ''/v1/chat/completions'', ca_body = b,
                         ca_stream = (case st of None \<Rightarrow> False | Some v \<Rightarrow> truthy v)\<rparr> in
                seqa (puts (\<lambda>s. s\<lparr>calls := calls s @ [c]\<rparr>)) (ret c)))))))"

definition chat_route :: "env \<Rightarrow> chat_entry \<Rightarrow> string \<Rightarrow> (pool, call) act" where
  "chat_route e p body = seqa (puts (\<lambda>s. s\<lparr>admitted := remove1 p (admitted s)\<rparr>)) (route_call e p body)"

section \<open>The answer\<close>

text \<open>
  What the head did: no answer (\<open>httpx.HTTPError\<close>), a status with a whole body, a body that was
  cut off (an abrupt close, a timeout, or the client went away), or any other exception of httpx, which
  nobody catches.
\<close>

datatype reply = Unreachable string | Answered nat string | CutOff string string | Raised exn

text \<open>What the client gets: a JSON answer, or an event stream, whose status is 200.\<close>

datatype chat_answer = JsonAnswer nat json | EventStream nat string

definition logged_request :: "call \<Rightarrow> int \<Rightarrow> int \<Rightarrow> rat \<Rightarrow> request_rec" where
  "logged_request c prompt completion now = \<lparr>q_request_id = ca_request_id c, q_account_id = ca_account_id c,
     q_key_id = ca_key_id c, q_model = ca_model c, q_cluster_id = ca_cluster_id c,
     q_prompt_tokens = prompt, q_completion_tokens = completion, q_created_at = now\<rparr>"

text \<open>\<open>_log_usage\<close>: accounting is best effort.\<close>

definition log_usage :: "call \<Rightarrow> int \<Rightarrow> int \<Rightarrow> (pool, unit) act" where
  "log_usage c prompt completion =
     try_with (bnd (gets clock) (\<lambda>now. record_request (logged_request c prompt completion now))) (\<lambda>_. ret ())"

text \<open>The counts of a plain answer: \<open>usage = data.get("usage") or {}\<close>, then \<open>int\<close> of each.\<close>

definition answer_counts :: "json \<Rightarrow> exn + int \<times> int" where
  "answer_counts data =
     (case json_get ''usage'' data of Inl x \<Rightarrow> Inl x
      | Inr u \<Rightarrow>
     (case (case u of Some v \<Rightarrow> if truthy v then v else JObj [] | None \<Rightarrow> JObj []) of
        JObj usage \<Rightarrow>
          (case count_of usage ''prompt_tokens'' 0 of Inl x \<Rightarrow> Inl x
           | Inr p \<Rightarrow> (case count_of usage ''completion_tokens'' 0 of Inl x \<Rightarrow> Inl x | Inr c \<Rightarrow> Inr (p, c)))
      | _ \<Rightarrow> Inl AttributeError))"

definition upstream_error :: "string \<Rightarrow> exn" where
  "upstream_error detail = Problem \<lparr>p_class = ProblemError, p_status = 502,
     p_type = error_type ''upstream_error'', p_title = ''Upstream Error'',
     p_detail = Some (''Failed to reach cluster head: '' @ detail), p_instance = None\<rparr>"

text \<open>
  The last part. A plain call turns a failure into a 502; a streamed call has already been answered
  with a 200, so a failure to connect ends the response with an exception that nobody translates
  (a \<open>RuntimeError\<close> here), and the status of the head is never looked at. A plain answer is logged
  before it is written out again, which fails for a number that JSON does not have.
\<close>

definition stream_answer :: "env \<Rightarrow> call \<Rightarrow> string \<Rightarrow> (pool, chat_answer) act" where
  "stream_answer e c body =
     bnd (lift_result (parse_sse_usage (json_loads e) body)) (\<lambda>u.
     seqa (case u of None \<Rightarrow> ret () | Some (p, q) \<Rightarrow> log_usage c p q) (ret (EventStream 200 body)))"

definition json_answer :: "env \<Rightarrow> call \<Rightarrow> nat \<Rightarrow> string \<Rightarrow> (pool, chat_answer) act" where
  "json_answer e c status body =
     (case json_loads e body of None \<Rightarrow> throw ValueError
      | Some data \<Rightarrow>
          bnd (lift_result (answer_counts data)) (\<lambda>(p, q).
          seqa (log_usage c p q)
            (if finite_json data then ret (JsonAnswer status data) else throw ValueError)))"

definition answer_call :: "env \<Rightarrow> call \<Rightarrow> reply \<Rightarrow> (pool, chat_answer) act" where
  "answer_call e c r =
     (case r of
        Unreachable detail \<Rightarrow> throw (if ca_stream c then RuntimeError detail else upstream_error detail)
      | Answered status body \<Rightarrow> if ca_stream c then stream_answer e c body else json_answer e c status body
      | CutOff body detail \<Rightarrow> if ca_stream c then stream_answer e c body else throw (upstream_error detail)
      | Raised x \<Rightarrow> throw x)"

definition chat_finish :: "env \<Rightarrow> call \<Rightarrow> reply \<Rightarrow> (pool, chat_answer) act" where
  "chat_finish e c r = seqa (puts (\<lambda>s. s\<lparr>calls := remove1 c (calls s)\<rparr>)) (answer_call e c r)"

section \<open>What the halves do\<close>

definition recordable :: "call \<Rightarrow> int \<Rightarrow> int \<Rightarrow> 'z db_scheme \<Rightarrow> bool" where
  "recordable c p q s \<longleftrightarrow> sql_int p \<and> sql_int q \<and> ca_request_id c \<notin> q_request_id ` set (requests s) \<and>
     ca_account_id c \<in> account_ids s \<and> ca_key_id c \<in> key_ids s \<and> ca_cluster_id c \<in> cluster_ids s"

lemma log_usage_wp:
  "wp (log_usage c p q)
    (\<lambda>_ t. t = (if recordable c p q s then s\<lparr>requests := requests s @ [logged_request c p q (clock s)]\<rparr> else s))
    (\<lambda>_ _. False) s"
  by (simp add: log_usage_def wp_simps wp_funs) (auto simp: wp_def record_request_def logged_request_def recordable_def)

text \<open>A user key of an account that is not banned and may use the pool.\<close>

definition admissible :: "env \<Rightarrow> chat_entry \<Rightarrow> pool \<Rightarrow> bool" where
  "admissible e p s \<longleftrightarrow> not_banned (ce_account_id p) s \<and> can_use e (ce_account_id p) s \<and>
     (\<exists>r \<in> set (api_keys s). k_key_id r = ce_key_id p \<and> k_account_id r = ce_account_id p \<and> k_scope r = ''user'')"

text \<open>A call for the caller, to the head of a cluster of the model that is live and complete.\<close>

definition routed :: "env \<Rightarrow> chat_entry \<Rightarrow> call \<Rightarrow> pool \<Rightarrow> bool" where
  "routed e p c s \<longleftrightarrow> ca_account_id c = ce_account_id p \<and> ca_key_id c = ce_key_id p \<and>
     (\<exists>d ip. get_cluster (ca_cluster_id c) s = Some d \<and> c_model d = ca_model c \<and> c_status d = live \<and>
        c_ready d = set (c_members d) \<and> map_of (c_ips d) (hd (c_members d)) = Some ip \<and>
        ca_target c = ''http://'' @ ip @ '':'' @ str_int (api_port (cfg e)) @ ''/v1/chat/completions'')"

lemma chat_admit_wp:
  assumes "keys_ok s"
  shows "wp (chat_admit e auth) (\<lambda>p t. admissible e p s \<and> t = s\<lparr>admitted := admitted s @ [p]\<rparr>) (\<lambda>_ t. t = s) s"
proof (cases "api_key e auth s")
  case (Inr k)
  obtain a scope kid where k: "k = (a, scope, kid)" by (cases k) auto
  show ?thesis
    using api_key_ok [OF assms, of e auth a scope kid] Inr k
    by (auto simp: chat_admit_def wp_simps Let_def admissible_def)
qed (simp add: chat_admit_def wp_simps)

text \<open>The part before the head is asked, on every branch.\<close>

lemma route_call_wp:
  assumes "store_ok s"
  shows "wp (route_call e p body)
    (\<lambda>c t. routed e p c s \<and> json_loads e body = Some (ca_body c) \<and>
       t = s\<lparr>rnd_used := Suc (rnd_used s), calls := calls s @ [c]\<rparr>)
    (\<lambda>_ t. t = s) s"
proof (cases "json_loads e body")
  case b: (Some b)
  show ?thesis
  proof (cases "json_get ''model'' b")
    case (Inl x)
    then show ?thesis using b by (simp add: route_call_def wp_simps)
  next
    case m: (Inr m)
    then obtain d where d: "b = JObj d" by (auto simp: json_get_def split: json.splits)
    let ?model = "case m of None \<Rightarrow> JNull | Some v \<Rightarrow> v"
    let ?found = "case ?model of JStr name \<Rightarrow> find_live_cluster name s | _ \<Rightarrow> None"
    show ?thesis
    proof (cases "truthy ?model \<and> ?found \<noteq> None")
      case False
      then show ?thesis using b m by (cases "truthy ?model") (simp_all add: route_call_def wp_simps Let_def)
    next
      case found: True
      then obtain name c where c: "?model = JStr name" "find_live_cluster name s = Some c" by (cases ?model) auto
      obtain ip where r: "get_cluster (c_cluster_id c) s = Some c" "c_model c = name" "c_status c = live"
        "c_ready c = set (c_members c)" "map_of (c_ips c) (hd (c_members c)) = Some ip"
        "head_url e c = Some (''http://'' @ ip @ '':'' @ str_int (api_port (cfg e)))"
        using live_route [OF assms c(2), of e] by blast
      have "display e ?model = name" using c(1) by (simp add: display_def)
      then show ?thesis
        using b m found c r d
        by (auto simp: route_call_def wp_simps Let_def new_id_def json_get_def routed_def)
    qed
  qed
qed (simp add: route_call_def wp_simps)

lemma chat_route_wp:
  assumes "store_ok s"
  shows "wp (chat_route e p body)
    (\<lambda>c t. routed e p c s \<and> json_loads e body = Some (ca_body c) \<and>
       t = s\<lparr>rnd_used := Suc (rnd_used s), admitted := remove1 p (admitted s), calls := calls s @ [c]\<rparr>)
    (\<lambda>_ t. t = s\<lparr>admitted := remove1 p (admitted s)\<rparr>) s"
proof -
  let ?s = "s\<lparr>admitted := remove1 p (admitted s)\<rparr>"
  have st: "same_tables s ?s" by (simp add: same_tables_def)
  have "routed e p c ?s = routed e p c s" for c
    by (simp add: routed_def same_tables_get_cluster [OF st])
  then show ?thesis
    unfolding chat_route_def wp_seqa wp_puts
    using route_call_wp [of ?s e p body] same_tables_store_ok [OF st] assms by (auto elim!: wp_conseq)
qed

section \<open>Properties\<close>

definition chat_pool :: pool where
  "chat_pool = live_pool\<lparr>api_keys := api_keys auth_pool\<rparr>"

definition chat_env :: env where
  "chat_env = demo_env\<lparr>json_loads := (\<lambda>t. if t = ''body'' then Some (JObj [(''model'', JStr ''m'')]) else None)\<rparr>"

lemma chat_pool_ok: "store_ok chat_pool"
proof -
  have "schema_ok chat_pool"
    using live_pool_ok auth_pool_schema unfolding store_ok_def
    by (simp add: schema_ok_def table_oks id_sets chat_pool_def)
      (simp add: live_pool_def auth_pool_def seated_pool_def demo_pool_def demo_worker_def demo_account_def
        assigned_worker_def demo_cluster_def fk_def)
  then show ?thesis
    using live_pool_ok ring_ok_cong [of chat_pool live_pool] by (simp add: store_ok_def chat_pool_def)
qed

text \<open>A caller of this pool is admitted, and its request finds a head.\<close>

lemma chat_pool_runs:
  "chat_admit chat_env (Some ''Bearer sk-user-1'') chat_pool =
     (Inr \<lparr>ce_account_id = ''acc_1'', ce_key_id = ''key_1''\<rparr>, chat_pool\<lparr>admitted := [\<lparr>ce_account_id = ''acc_1'', ce_key_id = ''key_1''\<rparr>]\<rparr>)"
  "\<exists>c t. chat_route chat_env p ''body'' (chat_pool\<lparr>admitted := ps\<rparr>) = (Inr c, t)"
proof -
  have tables: "accounts chat_pool = [demo_account]" "clusters chat_pool = clusters live_pool"
    "cluster_members chat_pool = cluster_members live_pool" "api_keys chat_pool = api_keys auth_pool" "admitted chat_pool = []"
    by (simp_all add: chat_pool_def live_pool_def seated_pool_def demo_pool_def)
  have key: "resolve_api_key demo_crypto ''sk-user-1'' chat_pool = resolve_api_key demo_crypto ''sk-user-1'' auth_pool"
    by (simp add: resolve_api_key_def tables)
  have env: "prim chat_env = demo_crypto" "cfg chat_env = cfg demo_env"
    "json_loads chat_env ''body'' = Some (JObj [(''model'', JStr ''m'')])"
    by (simp_all add: chat_env_def demo_env_def)
  have "bearer (Some ''Bearer sk-user-1'') = Some ''sk-user-1''"
    using bearer_token [of "''sk-user-1''"] by (simp add: strip_def is_space_def)
  then have api: "api_key chat_env (Some ''Bearer sk-user-1'') chat_pool = Inr (''acc_1'', ''user'', ''key_1'')"
    using auth_pool_keys(2) by (simp add: api_key_def env key get_account_def tables demo_account_def)
  have use: "can_use chat_env ''acc_1'' chat_pool"
    by (simp add: can_use_def get_account_def tables demo_account_def)
  show "chat_admit chat_env (Some ''Bearer sk-user-1'') chat_pool =
     (Inr \<lparr>ce_account_id = ''acc_1'', ce_key_id = ''key_1''\<rparr>, chat_pool\<lparr>admitted := [\<lparr>ce_account_id = ''acc_1'', ce_key_id = ''key_1''\<rparr>]\<rparr>)"
    by (simp add: chat_admit_def act_defs api use Let_def tables)
  let ?s = "chat_pool\<lparr>admitted := remove1 p ps\<rparr>"
  have same: "load_cluster_members i ?s = load_cluster_members i live_pool" for i
    using get_cluster_cong [of ?s live_pool i] tables by (simp add: get_cluster_def)
  have route: "find_live_cluster ''m'' ?s =
      Some (demo_cluster\<lparr>c_status := live, c_ready := {''a'', ''b''}, c_layer_windows := Some []\<rparr>)"
    using live_pool_route by (simp add: find_live_cluster_def list_clusters_def same tables)
  show "\<exists>c t. chat_route chat_env p ''body'' (chat_pool\<lparr>admitted := ps\<rparr>) = (Inr c, t)"
    by (simp add: chat_route_def route_call_def act_defs new_id_def draw_def env route json_get_def Let_def head_url_def head_ip_def
        demo_cluster_def)
qed

text \<open>What an answer of the head amounts to: the answer of the proxy, \<open>None\<close> when the call fails, and the
  counts that are to be logged.\<close>

definition upstream_result :: "env \<Rightarrow> call \<Rightarrow> reply \<Rightarrow> chat_answer option \<times> (int \<times> int) option" where
  "upstream_result e c r =
     (let stream = (\<lambda>body. case parse_sse_usage (json_loads e) body of Inl _ \<Rightarrow> (None, None)
         | Inr u \<Rightarrow> (Some (EventStream 200 body), u)) in
      case r of Unreachable _ \<Rightarrow> (None, None)
      | Raised _ \<Rightarrow> (None, None)
      | CutOff body _ \<Rightarrow> if ca_stream c then stream body else (None, None)
      | Answered status body \<Rightarrow>
          if ca_stream c then stream body
          else (case json_loads e body of None \<Rightarrow> (None, None)
            | Some data \<Rightarrow> (case answer_counts data of Inl _ \<Rightarrow> (None, None)
                | Inr u \<Rightarrow> (if finite_json data then Some (JsonAnswer status data) else None, Some u))))"

definition accounted :: "call \<Rightarrow> (int \<times> int) option \<Rightarrow> pool \<Rightarrow> pool" where
  "accounted c u s = (case u of None \<Rightarrow> s
     | Some (p, q) \<Rightarrow> if recordable c p q s then s\<lparr>requests := requests s @ [logged_request c p q (clock s)]\<rparr> else s)"

lemma chat_finish_wp:
  "wp (chat_finish e c r)
    (\<lambda>a t. \<exists>u. upstream_result e c r = (Some a, u) \<and> t = accounted c u (s\<lparr>calls := remove1 c (calls s)\<rparr>))
    (\<lambda>_ t. \<exists>u. upstream_result e c r = (None, u) \<and> t = accounted c u (s\<lparr>calls := remove1 c (calls s)\<rparr>)) s"
proof -
  let ?s = "s\<lparr>calls := remove1 c (calls s)\<rparr>"
  have log: "wp (seqa (log_usage c p q) m) Q E ?s = wp m Q E (accounted c (Some (p, q)) ?s)" for m Q E p q
  proof -
    have "wp (log_usage c p q) (\<lambda>_ t. t = accounted c (Some (p, q)) ?s) (\<lambda>_ _. False) ?s"
      by (rule wp_conseq [OF log_usage_wp]) (simp_all add: accounted_def)
    then have "log_usage c p q ?s = (Inr (), accounted c (Some (p, q)) ?s)"
      by (simp add: wp_def split: prod.splits sum.splits)
    then show ?thesis unfolding wp_seqa by (simp add: wp_def [of "log_usage c p q"])
  qed
  have stream: "wp (stream_answer e c body) Q E ?s = (case parse_sse_usage (json_loads e) body of Inl x \<Rightarrow> E x ?s
      | Inr u \<Rightarrow> Q (EventStream 200 body) (accounted c u ?s))" for body Q E
  proof (cases "parse_sse_usage (json_loads e) body")
    case (Inr u)
    have "wp (seqa (log_usage c p q) (ret (EventStream 200 body))) Q E ?s = Q (EventStream 200 body) (accounted c (Some (p, q)) ?s)" for p q
      by (simp add: log wp_ret)
    then show ?thesis
      by (cases u) (auto simp: stream_answer_def wp_bnd wp_lift_result Inr wp_seqa [of "ret _"] wp_ret accounted_def)
  qed (simp add: stream_answer_def wp_simps)
  have json: "wp (json_answer e c status body) Q E ?s = (case json_loads e body of None \<Rightarrow> E ValueError ?s
      | Some data \<Rightarrow> (case answer_counts data of Inl x \<Rightarrow> E x ?s
          | Inr u \<Rightarrow> if finite_json data then Q (JsonAnswer status data) (accounted c (Some u) ?s)
              else E ValueError (accounted c (Some u) ?s)))" for status body Q E
  proof (cases "json_loads e body")
    case (Some data)
    show ?thesis
    proof (cases "answer_counts data")
      case (Inr u)
      obtain p q where u: "u = (p, q)" by fastforce
      show ?thesis by (simp add: json_answer_def wp_bnd wp_lift_result Inr Some u log wp_ret wp_throw)
    qed (simp add: json_answer_def wp_simps Some)
  qed (simp add: json_answer_def wp_simps)
  show ?thesis
    unfolding chat_finish_def wp_seqa wp_puts
    by (cases r) (auto simp: answer_call_def upstream_result_def stream json wp_throw Let_def accounted_def
        split: sum.split option.split)
qed


end
