(* ===== verification/Pool_UsageApi.thy ===== *)
theory Pool_UsageApi
  imports Pool_Chat
begin

text \<open>
  What an account can read about itself: the usage handlers of app.py (request logs, statistics per
  window, the worker-attributed logs and statistics) and the dashboard (dashboard.py). They only read.
  Window bounds are exact numbers; NaN and the infinities, which a query may carry, are left out.
\<close>

section \<open>Answers\<close>

record request_log_entry =
  rl_request_id :: string
  rl_model :: string
  rl_cluster_id :: string
  rl_prompt_tokens :: int
  rl_completion_tokens :: int
  rl_created_at :: rat

definition request_log_entry_of :: "request_rec \<Rightarrow> request_log_entry" where
  "request_log_entry_of r = \<lparr>rl_request_id = q_request_id r, rl_model = q_model r, rl_cluster_id = q_cluster_id r,
     rl_prompt_tokens = q_prompt_tokens r, rl_completion_tokens = q_completion_tokens r, rl_created_at = q_created_at r\<rparr>"

section \<open>Request logs and statistics\<close>

text \<open>The check that every usage handler starts with.\<close>

definition own_usage :: "env \<Rightarrow> string \<Rightarrow> string option \<Rightarrow> 'z db_scheme \<Rightarrow> exn + unit" where
  "own_usage e account_id authorization s =
     (case user_credential e authorization s of Inl x \<Rightarrow> Inl x
      | Inr a \<Rightarrow> if a \<noteq> account_id then Inl (forbidden_error (''Cannot view another account'' @ [CHR 0x27] @ ''s usage.''))
          else Inr ())"

definition bad_limit :: exn where
  "bad_limit = bad_request_error ([CHR 0x27] @ ''limit'' @ [CHR 0x27] @ '' must be at least 1.'')"

definition bad_window :: exn where
  "bad_window = bad_request_error
     ([CHR 0x27] @ ''begin'' @ [CHR 0x27] @ '' must be before '' @ [CHR 0x27] @ ''end'' @ [CHR 0x27] @ ''.'')"

definition bad_windows :: exn where
  "bad_windows = bad_request_error (''Each window'' @ [CHR 0x27] @ ''s '' @ [CHR 0x27] @ ''begin'' @ [CHR 0x27] @
     '' must be before its '' @ [CHR 0x27] @ ''end'' @ [CHR 0x27] @ ''.'')"

definition account_usage_logs ::
  "env \<Rightarrow> string \<Rightarrow> rat \<Rightarrow> rat \<Rightarrow> int \<Rightarrow> string option \<Rightarrow> 'z db_scheme \<Rightarrow> exn + request_log_entry list" where
  "account_usage_logs e account_id b en limit authorization s =
     (case own_usage e account_id authorization s of Inl x \<Rightarrow> Inl x
      | Inr _ \<Rightarrow>
          if b \<ge> en then Inl bad_window
          else if limit < 1 then Inl bad_limit
          else map_sum id (map request_log_entry_of) (list_requests_in_range account_id b en limit s))"

definition account_usage_logs_latest ::
  "env \<Rightarrow> string \<Rightarrow> int \<Rightarrow> string option \<Rightarrow> 'z db_scheme \<Rightarrow> exn + request_log_entry list" where
  "account_usage_logs_latest e account_id limit authorization s =
     (case own_usage e account_id authorization s of Inl x \<Rightarrow> Inl x
      | Inr _ \<Rightarrow>
          if limit < 1 then Inl bad_limit
          else map_sum id (map request_log_entry_of) (list_requests_for_account account_id limit s))"

text \<open>The loop over the windows: the first bad or failing window ends the answer.\<close>

fun per_window :: "(rat \<Rightarrow> rat \<Rightarrow> exn + 'a) \<Rightarrow> (rat \<times> rat) list \<Rightarrow> exn + 'a list" where
  "per_window f [] = Inr []"
| "per_window f ((b, en) # ws) =
     (if b \<ge> en then Inl bad_windows
      else (case f b en of Inl x \<Rightarrow> Inl x
        | Inr v \<Rightarrow> (case per_window f ws of Inl x \<Rightarrow> Inl x | Inr vs \<Rightarrow> Inr (v # vs))))"

definition account_usage_stats ::
  "env \<Rightarrow> string \<Rightarrow> (rat \<times> rat) list \<Rightarrow> string option \<Rightarrow> 'z db_scheme \<Rightarrow> exn + usage dict list" where
  "account_usage_stats e account_id windows authorization s =
     (case own_usage e account_id authorization s of Inl x \<Rightarrow> Inl x
      | Inr _ \<Rightarrow> per_window (\<lambda>b en. usage_stats_in_range account_id b en s) windows)"

section \<open>Worker logs and statistics\<close>

definition account_worker_logs ::
  "env \<Rightarrow> string \<Rightarrow> rat \<Rightarrow> rat \<Rightarrow> int \<Rightarrow> string option \<Rightarrow> 'z db_scheme \<Rightarrow> exn + worker_log_entry list" where
  "account_worker_logs e account_id b en limit authorization s =
     (case own_usage e account_id authorization s of Inl x \<Rightarrow> Inl x
      | Inr _ \<Rightarrow>
          if b \<ge> en then Inl bad_window
          else if limit < 1 then Inl bad_limit
          else map_sum id (map attribution_entry) (worker_attribution account_id b en None (Some limit) s))"

definition account_worker_logs_latest ::
  "env \<Rightarrow> string \<Rightarrow> int \<Rightarrow> string option \<Rightarrow> 'z db_scheme \<Rightarrow> exn + worker_log_entry list" where
  "account_worker_logs_latest e account_id limit authorization s =
     (case own_usage e account_id authorization s of Inl x \<Rightarrow> Inl x
      | Inr _ \<Rightarrow>
          if limit < 1 then Inl bad_limit
          else map_sum id (map attribution_entry) (worker_logs_latest account_id limit s))"

definition account_worker_stats ::
  "env \<Rightarrow> string \<Rightarrow> (rat \<times> rat) list \<Rightarrow> string list option \<Rightarrow> string option \<Rightarrow> 'z db_scheme \<Rightarrow> exn + model_tally dict list" where
  "account_worker_stats e account_id windows only authorization s =
     (case own_usage e account_id authorization s of Inl x \<Rightarrow> Inl x
      | Inr _ \<Rightarrow> per_window (\<lambda>b en. map_sum id tally_rows (worker_attribution account_id b en only None s)) windows)"

section \<open>The dashboard\<close>

record worker_overview =
  wo_worker_id :: string
  wo_model :: string
  wo_status :: string
  wo_online :: bool
  wo_memory_mb :: int
  wo_cluster_id :: "string option"

record account_overview =
  ov_account_id :: string
  ov_username :: "string option"
  ov_is_admin :: bool
  ov_can_work :: bool
  ov_can_use :: bool
  ov_banned :: bool
  ov_workers :: "worker_overview list"
  ov_keys :: "(string \<times> string \<times> string) list"

definition worker_overview_of :: "worker_rec \<Rightarrow> worker_overview" where
  "worker_overview_of w = \<lparr>wo_worker_id = w_worker_id w, wo_model = w_model w,
     wo_status = worker_status_value (w_status w), wo_online = w_online w,
     wo_memory_mb = w_memory_allocated_mb w, wo_cluster_id = w_cluster_id w\<rparr>"

definition build_account_overview :: "string \<Rightarrow> 'z db_scheme \<Rightarrow> account_overview" where
  "build_account_overview account_id s =
     (let flag = (\<lambda>f. case get_account account_id s of None \<Rightarrow> False | Some a \<Rightarrow> f a) in
      \<lparr>ov_account_id = account_id, ov_username = map_option a_username (get_account account_id s),
       ov_is_admin = flag a_is_admin, ov_can_work = flag a_can_work, ov_can_use = flag a_can_use,
       ov_banned = flag a_banned,
       ov_workers = map worker_overview_of (list_workers_for_account account_id s),
       ov_keys = map (\<lambda>k. (k_key_id k, k_name k, k_scope k)) (list_api_keys account_id s)\<rparr>)"

definition account_dashboard :: "env \<Rightarrow> string \<Rightarrow> string option \<Rightarrow> 'z db_scheme \<Rightarrow> exn + account_overview" where
  "account_dashboard e account_id authorization s =
     (case session_account e authorization s of Inl x \<Rightarrow> Inl x
      | Inr a \<Rightarrow> if a \<noteq> account_id then Inl (forbidden_error (''Cannot view another account'' @ [CHR 0x27] @ ''s dashboard.''))
          else Inr (build_account_overview account_id s))"

section \<open>Requests about one's own data\<close>

text \<open>The seven handlers as one: a query and its answer.\<close>

datatype query =
    UsageLogs rat rat int
  | UsageLatest int
  | UsageStats "(rat \<times> rat) list"
  | WorkerLogs rat rat int
  | WorkerLatest int
  | WorkerStats "(rat \<times> rat) list" "string list option"
  | Dashboard

datatype query_answer =
    LogEntries "request_log_entry list"
  | ModelStats "usage dict list"
  | WorkerEntries "worker_log_entry list"
  | WorkerTallies "model_tally dict list"
  | Overview account_overview

definition answer_query :: "env \<Rightarrow> string \<Rightarrow> query \<Rightarrow> string option \<Rightarrow> 'z db_scheme \<Rightarrow> exn + query_answer" where
  "answer_query e account_id q authorization s =
     (case q of
        UsageLogs b en limit \<Rightarrow> map_sum id LogEntries (account_usage_logs e account_id b en limit authorization s)
      | UsageLatest limit \<Rightarrow> map_sum id LogEntries (account_usage_logs_latest e account_id limit authorization s)
      | UsageStats ws \<Rightarrow> map_sum id ModelStats (account_usage_stats e account_id ws authorization s)
      | WorkerLogs b en limit \<Rightarrow> map_sum id WorkerEntries (account_worker_logs e account_id b en limit authorization s)
      | WorkerLatest limit \<Rightarrow> map_sum id WorkerEntries (account_worker_logs_latest e account_id limit authorization s)
      | WorkerStats ws only \<Rightarrow> map_sum id WorkerTallies (account_worker_stats e account_id ws only authorization s)
      | Dashboard \<Rightarrow> map_sum id Overview (account_dashboard e account_id authorization s))"

section \<open>Properties\<close>

definition own_credential :: "env \<Rightarrow> string \<Rightarrow> query \<Rightarrow> string option \<Rightarrow> 'z db_scheme \<Rightarrow> bool" where
  "own_credential e account_id q authorization s \<longleftrightarrow>
     (if q = Dashboard then session_account e authorization s else user_credential e authorization s) = Inr account_id"

text \<open>The rows of one account are the same in two states; the rows of all others are free.\<close>

definition same_account_data :: "string \<Rightarrow> 'z db_scheme \<Rightarrow> 'z db_scheme \<Rightarrow> bool" where
  "same_account_data account_id s t \<longleftrightarrow>
     filter (\<lambda>a. a_account_id a = account_id) (accounts t) = filter (\<lambda>a. a_account_id a = account_id) (accounts s) \<and>
     filter (\<lambda>k. k_account_id k = account_id) (api_keys t) = filter (\<lambda>k. k_account_id k = account_id) (api_keys s) \<and>
     filter (\<lambda>w. w_account_id w = account_id) (workers t) = filter (\<lambda>w. w_account_id w = account_id) (workers s) \<and>
     filter (\<lambda>q. q_account_id q = account_id) (requests t) = filter (\<lambda>q. q_account_id q = account_id) (requests s)"

fun reads_own_rows :: "query \<Rightarrow> bool" where
  "reads_own_rows (WorkerLogs _ _ _) = False"
| "reads_own_rows (WorkerLatest _) = False"
| "reads_own_rows (WorkerStats _ _) = False"
| "reads_own_rows _ = True"

lemma own_usage_ok: "own_usage e a auth s = Inr u \<longleftrightarrow> user_credential e auth s = Inr a"
  by (cases "user_credential e auth s") (simp_all add: own_usage_def)

lemmas query_defs = answer_query_def account_usage_logs_def account_usage_logs_latest_def account_usage_stats_def
  account_worker_logs_def account_worker_logs_latest_def account_worker_stats_def account_dashboard_def

text \<open>Nobody reads the data of another account: each of the seven handlers answers only when the presented
  credential, a user key or a session token (a session token for the dashboard), authenticates the very
  account whose data is asked for; whatever else is presented gets an error.\<close>

theorem query_needs_owner:
  "own_credential e a q auth s \<or> (\<exists>x. answer_query e a q auth s = Inl x)"
proof (cases "q = Dashboard")
  case True
  then show ?thesis
    by (cases "session_account e auth s") (auto simp: answer_query_def account_dashboard_def own_credential_def)
next
  case False
  show ?thesis
  proof (cases "own_usage e a auth s")
    case (Inl x)
    then show ?thesis using False by (cases q) (simp_all add: query_defs)
  next
    case (Inr u)
    then show ?thesis using False by (simp add: own_credential_def own_usage_ok)
  qed
qed

lemma find_filter: "find P xs = (case filter P xs of [] \<Rightarrow> None | x # _ \<Rightarrow> Some x)"
  by (induction xs) auto

text \<open>C27: What an account reads about itself (its requests and statistics, and its dashboard with its keys and
  workers) does not depend on anybody else's data: two states that agree on the rows of the account, and
  both accept the presented credential as the account's, give the same answers, whatever the other
  accounts, their keys, workers and requests, the clusters and the connections are. (The
  worker-attributed views are excepted, which show requests of others that the account's workers
  served.)\<close>

theorem usage_isolated:
  assumes "same_account_data a s t" and "reads_own_rows q"
    and "own_credential e a q auth s" and "own_credential e a q auth t"
  shows "answer_query e a q auth t = answer_query e a q auth s"
proof -
  have eq: "filter (\<lambda>x. a_account_id x = a) (accounts t) = filter (\<lambda>x. a_account_id x = a) (accounts s)"
    "filter (\<lambda>k. k_account_id k = a) (api_keys t) = filter (\<lambda>k. k_account_id k = a) (api_keys s)"
    "filter (\<lambda>w. w_account_id w = a) (workers t) = filter (\<lambda>w. w_account_id w = a) (workers s)"
    "filter (\<lambda>q. q_account_id q = a) (requests t) = filter (\<lambda>q. q_account_id q = a) (requests s)"
    using assms(1) by (simp_all add: same_account_data_def)
  have window: "filter (\<lambda>q. q_account_id q = a \<and> in_window b en q) (requests t) =
      filter (\<lambda>q. q_account_id q = a \<and> in_window b en q) (requests s)" for b en
  proof -
    have "filter (\<lambda>q. q_account_id q = a \<and> in_window b en q) xs = filter (in_window b en) (filter (\<lambda>q. q_account_id q = a) xs)" for xs
      by (simp add: conj_commute)
    then show ?thesis using eq(4) by metis
  qed
  have own: "own_usage e a auth t = own_usage e a auth s" if "q \<noteq> Dashboard"
    using assms(3,4) that unfolding own_credential_def own_usage_def by simp
  have session: "session_account e auth t = session_account e auth s" if "q = Dashboard"
    using assms(3,4) that unfolding own_credential_def by simp
  have dash: "build_account_overview a t = build_account_overview a s"
    using eq by (simp add: build_account_overview_def get_account_def find_filter list_workers_for_account_def list_api_keys_def)
  have reads: "list_requests_in_range a b en n t = list_requests_in_range a b en n s"
    "list_requests_for_account a n t = list_requests_for_account a n s"
    "usage_stats_in_range a b en t = usage_stats_in_range a b en s" for b en n
    by (simp_all only: list_requests_in_range_def list_requests_for_account_def usage_stats_in_range_def window eq)
  show ?thesis
  proof (cases "q = Dashboard")
    case True
    show ?thesis unfolding True answer_query_def query.case account_dashboard_def session [OF True] dash ..
  next
    case False
    then show ?thesis
      using assms(2) by (cases q) (simp_all only: query_defs query.case reads_own_rows.simps own [OF False] reads simp_thms)
  qed
qed

text \<open>The second state has another account with a key, and a request of its own.\<close>

theorem usage_isolated_witness:
  "answer_query demo_env ''acc_1'' (UsageLatest 5) (Some ''Bearer sk-user-1'')
     (auth_pool\<lparr>accounts := [demo_account, demo_account\<lparr>a_account_id := ''acc_2'', a_username := ''bob''\<rparr>],
        api_keys := api_keys auth_pool @ [\<lparr>k_key_id = ''key_9'', k_account_id = ''acc_2'', k_name = ''n'', k_scope = ''user'',
          k_key_hash = ''other'', k_created_at = 7, k_worker_id = None\<rparr>],
        requests := [demo_request ''r1'' 12 50, (demo_request ''r2'' 4 60)\<lparr>q_account_id := ''acc_2''\<rparr>]\<rparr>) =
   answer_query demo_env ''acc_1'' (UsageLatest 5) (Some ''Bearer sk-user-1'')
     (auth_pool\<lparr>requests := [demo_request ''r1'' 12 50]\<rparr>)" (is "answer_query _ _ _ _ ?t = answer_query _ _ _ _ ?s")
proof -
  have "bearer (Some ''Bearer sk-user-1'') = Some ''sk-user-1''"
    using bearer_token [of "''sk-user-1''"] by (simp add: strip_def is_space_def)
  moreover obtain r where r: "find (\<lambda>r. k_key_hash r = hash_api_key demo_crypto ''sk-user-1'') (api_keys auth_pool) = Some r"
    "k_account_id r = ''acc_1''" "k_scope r = ''user''"
    using auth_pool_keys(2) by (auto simp: resolve_api_key_def)
  moreover have "find P (xs @ ys) = Some r" if "find P xs = Some r" for P :: "api_key_rec \<Rightarrow> bool" and xs ys r
    using that by (induction xs) auto
  moreover have "prim demo_env = demo_crypto" by (simp add: demo_env_def)
  ultimately have own: "own_credential demo_env ''acc_1'' (UsageLatest 5) (Some ''Bearer sk-user-1'') ?s"
    "own_credential demo_env ''acc_1'' (UsageLatest 5) (Some ''Bearer sk-user-1'') ?t"
    by (simp_all add: own_credential_def user_credential_def resolve_api_key_def assert_not_banned_def get_account_def
        auth_pool_tables demo_account_def)
  have "same_account_data ''acc_1'' ?s ?t"
    by (simp add: same_account_data_def demo_request_def auth_pool_tables demo_account_def)
  from usage_isolated [OF this _ own] show ?thesis by simp
qed

end
