(* ===== verification/Pool_Invariants.thy ===== *)
theory Pool_Invariants
  imports Pool_UsageApi
begin

text \<open>
  The invariants of the running server. \<open>good\<close>: the tables keep the schema, the rings and the seats
  (\<open>pool_ok\<close>), a key is only bound to a worker of its own account, no account has more workers than
  the cap or two workers for one device, and the hub has one socket per worker. \<open>history\<close>: relative
  to an earlier state, clusters only evolve and the pool does not lose its last admin. Each operation
  of the store and the scheduler is shown to keep them.
\<close>

section \<open>The invariants\<close>

text \<open>At most the cap, one worker per device, and none in the unused status \<open>registered\<close>.\<close>

definition quota_ok :: "env \<Rightarrow> 'z db_scheme \<Rightarrow> bool" where
  "quota_ok e s \<longleftrightarrow>
     (\<forall>a. int (length (list_workers_for_account a s)) \<le> max 0 (max_workers_per_account (cfg e)) \<and>
        distinct (map w_wg_pubkey (list_workers_for_account a s))) \<and>
     list_all (\<lambda>w. w_status w \<noteq> registered) (workers s)"

definition good :: "env \<Rightarrow> pool \<Rightarrow> bool" where
  "good e s \<longleftrightarrow> pool_ok s \<and> bindings_ok s \<and> quota_ok e s \<and> conns_ok s"

definition history :: "pool \<Rightarrow> pool \<Rightarrow> bool" where
  "history s0 s \<longleftrightarrow> since s0 s \<and> (0 < count_admins s0 \<longrightarrow> 0 < count_admins s)"

text \<open>A state with the same tables, in which the hub still has one socket per worker.\<close>

definition frame_ok :: "pool \<Rightarrow> pool \<Rightarrow> bool" where
  "frame_ok s t \<longleftrightarrow> same_tables s t \<and> (conns_ok s \<longrightarrow> conns_ok t)"

text \<open>The binding of key \<open>k\<close> to worker \<open>i\<close> stays within one account.\<close>

definition binds :: "string \<Rightarrow> string \<Rightarrow> pool \<Rightarrow> bool" where
  "binds k i s \<longleftrightarrow> (\<exists>w. get_worker i s = Some w \<and>
     (\<forall>r. get_api_key k s = Some r \<longrightarrow> k_account_id r = w_account_id w))"

text \<open>The change of flags that the guard of the last admin lets through.\<close>

definition spares_last_admin :: "string \<Rightarrow> bool option \<Rightarrow> pool \<Rightarrow> bool" where
  "spares_last_admin i adm s \<longleftrightarrow> adm \<noteq> Some False \<or> 1 < count_admins s \<or>
     (\<exists>a. get_account i s = Some a \<and> \<not> a_is_admin a) \<or> get_account i s = None"

section \<open>What each part depends on\<close>

lemma good_parts: "good e s \<Longrightarrow> pool_ok s \<and> bindings_ok s \<and> quota_ok e s \<and> conns_ok s \<and> schema_ok s"
  by (simp add: good_def pool_ok_def store_ok_def)

lemma idents_lookup: "map_option (\<lambda>w. (w_account_id w, w_wg_pubkey w)) (get_worker i s) = map_of (idents s) i"
proof -
  have "map_option (\<lambda>w. (w_account_id w, w_wg_pubkey w)) (find (\<lambda>w. w_worker_id w = i) ws) =
      map_of (map (\<lambda>w. (w_worker_id w, w_account_id w, w_wg_pubkey w)) ws) i" for ws
    by (induction ws) auto
  then show ?thesis by (simp add: get_worker_def idents_def)
qed

lemma idents_account:
  assumes "idents t = idents s" and "get_worker i s = Some w"
  shows "\<exists>w'. get_worker i t = Some w' \<and> w_account_id w' = w_account_id w"
proof -
  have "map_option (\<lambda>w. (w_account_id w, w_wg_pubkey w)) (get_worker i t) = Some (w_account_id w, w_wg_pubkey w)"
    using idents_lookup [of i t] idents_lookup [of i s] assms by simp
  then show ?thesis by auto
qed

lemma idents_quota:
  "map (\<lambda>w. (w_worker_id w, w_account_id w, w_wg_pubkey w)) (list_workers_for_account a s) =
   filter (\<lambda>x. fst (snd x) = a) (idents s)"
  by (simp add: list_workers_for_account_def idents_def filter_map comp_def)

lemma quota_pubkeys: "map w_wg_pubkey (list_workers_for_account a s) = map (snd \<circ> snd) (filter (\<lambda>x. fst (snd x) = a) (idents s))"
  by (simp flip: idents_quota)

lemma quota_length: "length (list_workers_for_account a s) = length (filter (\<lambda>x. fst (snd x) = a) (idents s))"
  by (simp flip: idents_quota)

lemma quota_idents:
  assumes "quota_ok e s" and "idents t = idents s" and "list_all (\<lambda>w. w_status w \<noteq> registered) (workers t)"
  shows "quota_ok e t"
  using assms unfolding quota_ok_def quota_pubkeys quota_length by simp

lemma bindings_idents:
  assumes "bindings_ok s" and "idents t = idents s" and "api_keys t = api_keys s"
  shows "bindings_ok t"
  unfolding bindings_ok_def assms(3)
proof (intro ballI allI impI)
  fix r i
  assume "r \<in> set (api_keys s)" and "k_worker_id r = Some i"
  then obtain w where "get_worker i s = Some w" "w_account_id w = k_account_id r"
    using assms(1) by (auto simp: bindings_ok_def)
  then show "\<exists>w. get_worker i t = Some w \<and> w_account_id w = k_account_id r"
    using idents_account [OF assms(2)] by metis
qed

lemma idents_workers: "workers t = workers s \<Longrightarrow> idents t = idents s"
  by (simp add: idents_def)

text \<open>The pool stays consistent when workers without a seat come or workers go.\<close>

lemma pool_ok_workers:
  assumes "pool_ok s" and "schema_ok t" and "clusters t = clusters s" and "cluster_members t = cluster_members s"
    and "\<And>w. w \<in> set (workers t) \<Longrightarrow> w \<in> set (workers s) \<or> w_cluster_id w = None \<and> w_status w \<noteq> assigned"
  shows "pool_ok t"
proof -
  have g: "get_cluster i t = get_cluster i s" for i by (rule get_cluster_cong [OF assms(3,4)])
  have "seat_ok t w" if "w \<in> set (workers t)" for w
    using assms(1) assms(5) [OF that] unfolding seat_ok_def g by (auto simp: pool_ok_def assign_ok_def seat_ok_def)
  then show ?thesis
    using assms(1,2) ring_ok_cong [OF assms(3,4)] g
    by (simp add: pool_ok_def store_ok_def assign_ok_def subnets_ok_def)
qed

lemma since_cong: "since s0 s \<Longrightarrow> (\<And>i. get_cluster i t = get_cluster i s) \<Longrightarrow> since s0 t"
  by (simp add: since_def)

lemma history_clusters:
  assumes "history s0 s" and "clusters t = clusters s" and "cluster_members t = cluster_members s"
    and "0 < count_admins s \<Longrightarrow> 0 < count_admins t"
  shows "history s0 t"
  using assms since_cong get_cluster_cong [OF assms(2,3)] unfolding history_def by metis

lemma count_admins_accounts: "accounts t = accounts s \<Longrightarrow> count_admins t = count_admins s"
  by (simp add: count_admins_def)

lemma history_evolves: "history s0 s \<Longrightarrow> evolves s t \<Longrightarrow> accounts t = accounts s \<Longrightarrow> history s0 t"
  unfolding history_def using since_evolves count_admins_accounts by metis

section \<open>Accounts and keys\<close>

lemma good_same_workers:
  assumes "good e s" and "schema_ok t" and "bindings_ok t" and "workers t = workers s" and "clusters t = clusters s"
    and "cluster_members t = cluster_members s" and "conns_ok t"
  shows "good e t"
proof -
  have g: "pool_ok s" "quota_ok e s" using assms(1) by (simp_all add: good_def)
  have "pool_ok t" using pool_ok_workers [OF g(1) assms(2,5,6)] assms(4) by simp
  moreover have "quota_ok e t"
    using g(2) by (rule quota_idents) (use g(2) in \<open>simp_all add: idents_workers [OF assms(4)] assms(4) quota_ok_def\<close>)
  ultimately show ?thesis using assms(3,7) by (simp add: good_def)
qed

lemma good_frame:
  assumes "good e s" and "frame_ok s t"
  shows "good e t"
proof -
  have st: "same_tables s t" and c: "conns_ok t" using assms by (simp_all add: frame_ok_def good_def)
  have "schema_ok t"
    using same_tables_pool_ok [OF st] good_parts [OF assms(1)] by (simp add: pool_ok_def store_ok_def)
  moreover have "bindings_ok t"
    by (rule bindings_idents [of s]) (use good_parts [OF assms(1)] st in \<open>simp_all add: same_tables_def idents_def\<close>)
  ultimately show ?thesis
    using st c by (intro good_same_workers [OF assms(1)]) (simp_all add: same_tables_def)
qed

lemma history_frame: "history s0 s \<Longrightarrow> frame_ok s t \<Longrightarrow> history s0 t"
  by (erule history_clusters) (simp_all add: frame_ok_def same_tables_def count_admins_def)

lemma good_accounts:
  assumes "good e s" and "schema_ok (s\<lparr>accounts := as\<rparr>)"
  shows "good e (s\<lparr>accounts := as\<rparr>)"
proof -
  have "bindings_ok (s\<lparr>accounts := as\<rparr>)"
    by (rule bindings_idents [of s]) (use good_parts [OF assms(1)] in \<open>simp_all add: idents_def\<close>)
  then show ?thesis
    using assms good_parts [OF assms(1)] by (intro good_same_workers [OF assms(1)]) (simp_all add: conns_ok_def)
qed

lemma good_insert_account: "keeps (good e) (insert_account a)"
proof (rule keepsI)
  fix s
  assume ok: "good e s"
  then show "wp (insert_account a) (\<lambda>_. good e) (\<lambda>_. good e) s"
    using keeps_wpD [OF keeps_schema_insert_account [of a], of s] good_parts [OF ok] good_accounts
    by (simp add: wp_simps)
qed

lemma history_insert_account: "keeps (history s0) (insert_account a)"
  by (rule keepsI) (auto simp: wp_simps count_admins_def elim: history_clusters)

lemma good_update_accounts:
  assumes "\<And>a. a_account_id (f a) = a_account_id a" and "\<And>a. a_username (f a) = a_username a"
  shows "keeps (good e) (update_accounts i f)"
proof (rule keepsI)
  fix s
  assume ok: "good e s"
  then show "wp (update_accounts i f) (\<lambda>_. good e) (\<lambda>_. good e) s"
    using keeps_wpD [OF keeps_schema_update_accounts [OF assms], of s i] good_parts [OF ok] good_accounts
    by (simp add: wp_simps)
qed

lemma good_set_password: "keeps (good e) (set_password i h)"
  unfolding set_password_def by (rule good_update_accounts) simp_all

lemma good_permissions: "keeps (good e) (update_account_permissions i adm w u b)"
  unfolding update_account_permissions_def by (intro keeps_intros good_update_accounts) simp_all

lemma count_admins_pos: "0 < count_admins s \<longleftrightarrow> (\<exists>a \<in> set (accounts s). a_is_admin a)"
  by (auto simp: count_admins_def filter_empty_conv)

lemma history_set_password: "keeps (history s0) (set_password i h)"
proof (rule keepsI)
  fix s
  assume "history s0 s"
  then have "history s0 (s\<lparr>accounts := map (\<lambda>a. if a_account_id a = i then a\<lparr>a_password_hash := h\<rparr> else a) (accounts s)\<rparr>)"
    by (rule history_clusters) (simp_all add: count_admins_def filter_map comp_def if_distrib cong: if_cong)
  then show "wp (set_password i h) (\<lambda>_. history s0) (\<lambda>_. history s0) s" by (simp add: set_password_def wp_simps)
qed

lemma history_permissions:
  assumes "accounts_ok s" and "history s0 s" and "spares_last_admin i adm s"
  shows "wp (update_account_permissions i adm w u b) (\<lambda>_. history s0) (\<lambda>_. history s0) s"
proof -
  let ?f = "\<lambda>a. a\<lparr>a_is_admin := set_flag adm (a_is_admin a), a_can_work := set_flag w (a_can_work a),
        a_can_use := set_flag u (a_can_use a), a_banned := set_flag b (a_banned a)\<rparr>"
  let ?t = "s\<lparr>accounts := map (\<lambda>a. if a_account_id a = i then ?f a else a) (accounts s)\<rparr>"
  have "\<exists>a \<in> set (accounts s). a_is_admin a \<and> (a_account_id a \<noteq> i \<or> adm \<noteq> Some False)" if pos: "0 < count_admins s"
  proof (cases "1 < count_admins s")
    case True
    let ?as = "filter a_is_admin (accounts s)"
    have d: "distinct (map a_account_id ?as)" using assms(1) by (simp add: accounts_ok_def distinct_map_filter)
    obtain x y zs where as: "?as = x # y # zs"
      using True by (cases ?as rule: list.exhaust [case_product list.exhaust, of _ "tl ?as"]) (auto simp: count_admins_def)
    then have "a_account_id x \<noteq> a_account_id y" using d by simp
    moreover have "x \<in> set ?as" "y \<in> set ?as" unfolding as by simp_all
    then have "x \<in> set (accounts s)" "a_is_admin x" "y \<in> set (accounts s)" "a_is_admin y" by simp_all
    ultimately show ?thesis by metis
  next
    case False
    obtain a where a: "a \<in> set (accounts s)" "a_is_admin a" using pos by (auto simp: count_admins_pos)
    have "get_account (a_account_id a) s = Some a" using account_table.get_row [of s a] a(1) assms(1) by (simp add: accounts_ok_def)
    then show ?thesis using a False assms(3) by (auto simp: spares_last_admin_def intro!: bexI [of _ a])
  qed
  note some_admin = this
  have "0 < count_admins ?t" if pos: "0 < count_admins s"
  proof -
    obtain a where a: "a \<in> set (accounts s)" "a_is_admin a" "a_account_id a \<noteq> i \<or> adm \<noteq> Some False"
      using some_admin [OF pos] by blast
    then have "a_is_admin (if a_account_id a = i then ?f a else a)"
      by (auto simp: set_flag_def split: option.split)
    moreover have "(if a_account_id a = i then ?f a else a) \<in> set (accounts ?t)" using a(1) by simp
    ultimately show ?thesis unfolding count_admins_pos by blast
  qed
  then have "history s0 ?t" by (intro history_clusters [OF assms(2)]) simp_all
  then show ?thesis using assms(2) by (simp add: update_account_permissions_def wp_simps)
qed

lemma good_insert_api_key: "keeps (good e) (insert_api_key r)"
proof (rule keepsI)
  fix s
  assume ok: "good e s"
  let ?t = "s\<lparr>api_keys := api_keys s @ [r\<lparr>k_worker_id := None\<rparr>]\<rparr>"
  have "schema_ok ?t \<Longrightarrow> good e ?t"
    using ok good_parts [OF ok] by (intro good_same_workers [OF ok])
      (auto simp: bindings_ok_def get_worker_def conns_ok_def)
  then show "wp (insert_api_key r) (\<lambda>_. good e) (\<lambda>_. good e) s"
    using keeps_wpD [OF keeps_schema_insert_api_key [of r], of s] good_parts [OF ok] ok by (simp add: wp_simps split: if_splits)
qed

lemma good_revoke: "keeps (good e) (revoke_api_key i)"
proof (rule keepsI)
  fix s
  assume ok: "good e s"
  let ?t = "s\<lparr>api_keys := filter (\<lambda>r. k_key_id r \<noteq> i) (api_keys s),
     requests := (if i \<in> key_ids s then filter (\<lambda>q. q_key_id q \<noteq> i) (requests s) else requests s)\<rparr>"
  have "schema_ok ?t"
    using keeps_wpD [OF keeps_schema_revoke [of i], of s] good_parts [OF ok] by (simp add: wp_simps)
  then have "good e ?t"
    using ok good_parts [OF ok] by (intro good_same_workers [OF ok])
      (auto simp: bindings_ok_def get_worker_def conns_ok_def)
  then show "wp (revoke_api_key i) (\<lambda>_. good e) (\<lambda>_. good e) s" by (simp add: wp_simps)
qed

lemma good_bound:
  assumes ok: "good e s" and b: "binds k i s"
  shows "good e (bound_to k i s)"
proof -
  have keys: "keys_ok s" using good_parts [OF ok] by (simp add: schema_ok_def)
  obtain w where w: "get_worker i s = Some w" "\<And>r. get_api_key k s = Some r \<Longrightarrow> k_account_id r = w_account_id w"
    using b by (auto simp: binds_def)
  have "i \<in> worker_ids s" using worker_table.get_in [OF w(1)] by (auto simp: worker_ids_def)
  then have "schema_ok (bound_to k i s)"
    using keeps_wpD [OF keeps_schema_bind [of k i], of s] good_parts [OF ok] by (simp add: wp_simps bound_to_def)
  moreover have "bindings_ok (bound_to k i s)"
    unfolding bindings_ok_def
  proof (intro ballI allI impI)
    fix r j
    assume r: "r \<in> set (api_keys (bound_to k i s))" and j: "k_worker_id r = Some j"
    obtain r0 where r0: "r0 \<in> set (api_keys s)" "r = (if k_key_id r0 = k then r0\<lparr>k_worker_id := Some i\<rparr> else r0)"
      using r by (auto simp: bound_to_def)
    have g: "get_worker j (bound_to k i s) = get_worker j s" by (simp add: get_worker_def bound_to_def)
    show "\<exists>w. get_worker j (bound_to k i s) = Some w \<and> w_account_id w = k_account_id r"
    proof (cases "k_key_id r0 = k")
      case True
      have "get_api_key (k_key_id r0) s = Some r0" using key_table.get_row [of s r0] r0(1) keys by (simp add: keys_ok_def)
      then show ?thesis using True r0(2) j w g by auto
    next
      case False
      then show ?thesis using r0 j g good_parts [OF ok] by (auto simp: bindings_ok_def)
    qed
  qed
  ultimately show ?thesis
    using good_parts [OF ok] by (intro good_same_workers [OF ok]) (simp_all add: bound_to_def conns_ok_def)
qed

lemma history_bound: "history s0 s \<Longrightarrow> history s0 (bound_to k i s)"
  by (erule history_clusters) (simp_all add: bound_to_def count_admins_def)

section \<open>Workers\<close>

text \<open>Operations that keep who the workers are and who the keys belong to.\<close>

lemma good_idents:
  assumes "good e s" and "pool_ok t" and "idents t = idents s" and "api_keys t = api_keys s" and "conns t = conns s"
    and "\<And>w. w \<in> set (workers t) \<Longrightarrow> w_status w \<noteq> registered"
  shows "good e t"
proof -
  have p: "bindings_ok s" "quota_ok e s" "conns_ok s" using assms(1) by (simp_all add: good_def)
  have "bindings_ok t" by (rule bindings_idents [OF p(1) assms(3,4)])
  moreover have "quota_ok e t" by (rule quota_idents [OF p(2) assms(3)]) (simp add: list_all_iff assms(6))
  ultimately show ?thesis using assms(2,5) p(3) by (simp add: good_def conns_ok_def)
qed

lemma good_status: "good e s \<Longrightarrow> w \<in> set (workers s) \<Longrightarrow> w_status w \<noteq> registered"
  by (simp add: good_def quota_ok_def list_all_iff)

lemma map_same: "(\<And>x. x \<in> set xs \<Longrightarrow> g (f x) = g x) \<Longrightarrow> map g (map f xs) = map g xs"
  by simp

lemma idents_with_worker:
  assumes "get_worker (w_worker_id w) s = Some w0" and "same_seat w0 w" and "workers_ok s"
  shows "idents (with_worker w s) = idents s"
proof -
  have w0: "w0 \<in> set (workers s)" "w_worker_id w0 = w_worker_id w" using worker_table.get_in [OF assms(1)] by simp_all
  have "x = w0" if "x \<in> set (workers s)" "w_worker_id x = w_worker_id w" for x
    using that w0 assms(3) distinct_key_eq [of w_worker_id "workers s" x w0] by (simp add: workers_ok_def)
  note one = this
  have "(w_worker_id y, w_account_id y, w_wg_pubkey y) = (w_worker_id x, w_account_id x, w_wg_pubkey x)"
    if x: "x \<in> set (workers s)" "y = (if w_worker_id x = w_worker_id w then w else x)" for x y
  proof (cases "w_worker_id x = w_worker_id w")
    case True
    have "x = w0" by (rule one [OF x(1) True])
    then show ?thesis using assms(2) w0(2) x(2) by (simp add: same_seat_def)
  qed (use x(2) in simp)
  note same = this [OF _ refl]
  have "map (\<lambda>w. (w_worker_id w, w_account_id w, w_wg_pubkey w))
      (map (\<lambda>x. if w_worker_id x = w_worker_id w then w else x) (workers s)) =
    map (\<lambda>w. (w_worker_id w, w_account_id w, w_wg_pubkey w)) (workers s)"
    by (rule map_same) (rule same)
  then show ?thesis by (simp add: idents_def with_worker_def del: map_map)
qed

lemma good_with_worker:
  assumes "good e s" and "get_worker (w_worker_id w) s = Some w0" and "same_seat w0 w"
    and "sql_int (w_memory_allocated_mb w)"
  shows "good e (with_worker w s)"
proof (rule good_idents [OF assms(1)])
  have ok: "pool_ok s" "workers_ok s" using good_parts [OF assms(1)] by (simp_all add: schema_ok_def)
  show "pool_ok (with_worker w s)" by (rule pool_ok_with_worker [OF ok(1) assms(2-4)])
  show "idents (with_worker w s) = idents s" by (rule idents_with_worker [OF assms(2,3) ok(2)])
  have "w_status w0 \<noteq> registered" using good_status [OF assms(1)] worker_table.get_in [OF assms(2)] by simp
  then show "w_status x \<noteq> registered" if "x \<in> set (workers (with_worker w s))" for x
    using that assms(3) good_status [OF assms(1)] by (auto simp: with_worker_def same_seat_def split: if_splits)
qed (simp_all add: with_worker_def)

lemma history_with_worker: "history s0 s \<Longrightarrow> history s0 (with_worker w s)"
  by (erule history_clusters) (simp_all add: with_worker_def count_admins_def)

lemma good_admit:
  assumes ok: "good e s" and r: "w_cluster_id r = None" "w_status r = waitlisted"
  shows "wp (create_worker_if_available r (max_workers_per_account (cfg e))) (\<lambda>_. good e) (\<lambda>_. good e) s"
proof -
  let ?ex = "list_workers_for_account (w_account_id r) s"
  let ?t = "s\<lparr>workers := workers s @ [r]\<rparr>"
  have p: "pool_ok s" "bindings_ok s" "quota_ok e s" "conns_ok s" "schema_ok s" using good_parts [OF ok] by simp_all
  have new: "good e ?t"
    if cap: "int (length ?ex) < max_workers_per_account (cfg e)"
      and dev: "\<forall>w \<in> set ?ex. w_wg_pubkey w = w_wg_pubkey r \<longrightarrow> w_status w = registered"
      and ins: "wp (create_worker r) (\<lambda>_. schema_ok) (\<lambda>_ _. False) s"
  proof -
    have row: "w_worker_id r \<notin> worker_ids s" "schema_ok ?t"
      using ins by (simp_all add: wp_simps split: if_splits)
    have "pool_ok ?t" by (rule pool_ok_workers [OF p(1) row(2)]) (use r in auto)
    moreover have "get_worker i ?t = Some w" if "get_worker i s = Some w" for i w
    proof -
      have "find P (xs @ ys) = Some x" if "find P xs = Some x" for P :: "worker_rec \<Rightarrow> bool" and xs ys x
        using that by (induction xs) auto
      then show ?thesis using that by (simp add: get_worker_def)
    qed
    then have "bindings_ok ?t" using p(2) unfolding bindings_ok_def by (simp, blast)
    moreover have "w_wg_pubkey r \<notin> w_wg_pubkey ` set ?ex"
      using dev good_status [OF ok] by (auto simp: list_workers_for_account_def)
    then have "quota_ok e ?t"
      using p(3) cap r(2) by (auto simp: quota_ok_def list_workers_for_account_def)
    ultimately show ?thesis using p(4) by (simp add: good_def conns_ok_def)
  qed
  have ins: "wp (create_worker r) (\<lambda>_. schema_ok) (\<lambda>_ t. t = s) s"
    using keeps_wpD [OF keeps_schema_create_worker p(5), of r] by (simp add: wp_simps split: if_splits)
  show ?thesis
    using new ok ins
    by (auto simp: create_worker_if_available_def wp_simps not_le split: if_splits)
qed

lemma history_admit: "keeps (history s0) (create_worker_if_available r n)"
proof -
  have "keeps (history s0) (create_worker r)"
    by (rule keepsI) (auto simp: wp_simps count_admins_def elim: history_clusters)
  then show ?thesis unfolding create_worker_if_available_def by (intro keeps_intros)
qed

lemma good_delete: "keeps (good e) (delete_worker i)"
proof (rule keepsI)
  fix s
  assume ok: "good e s"
  let ?t = "s\<lparr>workers := filter (\<lambda>w. w_worker_id w \<noteq> i) (workers s),
        api_keys := map (\<lambda>r. if k_worker_id r = Some i then r\<lparr>k_worker_id := None\<rparr> else r) (api_keys s)\<rparr>"
  have p: "pool_ok s" "bindings_ok s" "quota_ok e s" "conns_ok s" "schema_ok s" using good_parts [OF ok] by simp_all
  have "schema_ok ?t" using keeps_wpD [OF keeps_schema_delete_worker [of i] p(5)] by (simp add: wp_simps)
  then have "pool_ok ?t" by (rule pool_ok_workers [OF p(1)]) auto
  moreover have "find P (filter Q xs) = find P xs" if "\<And>x. P x \<Longrightarrow> Q x" for P Q :: "worker_rec \<Rightarrow> bool" and xs
    using that by (induction xs) auto
  then have g: "get_worker j ?t = get_worker j s" if "j \<noteq> i" for j
    using that by (simp add: get_worker_def)
  have "bindings_ok ?t"
    unfolding bindings_ok_def
  proof (intro ballI allI impI)
    fix r j
    assume "r \<in> set (api_keys ?t)" and j: "k_worker_id r = Some j"
    then obtain r0 where "r0 \<in> set (api_keys s)" "r0 = r" "j \<noteq> i" by (auto split: if_splits)
    then show "\<exists>w. get_worker j ?t = Some w \<and> w_account_id w = k_account_id r"
      using p(2) g j by (auto simp: bindings_ok_def)
  qed
  moreover have "quota_ok e ?t"
    unfolding quota_ok_def
  proof (intro conjI allI)
    fix a
    have l: "list_workers_for_account a ?t = filter (\<lambda>w. w_worker_id w \<noteq> i) (list_workers_for_account a s)"
      by (simp add: list_workers_for_account_def conj_commute)
    have "int (length (filter (\<lambda>w. w_worker_id w \<noteq> i) (list_workers_for_account a s))) \<le> int (length (list_workers_for_account a s))"
      using length_filter_le of_nat_mono by blast
    moreover have "int (length (list_workers_for_account a s)) \<le> max 0 (max_workers_per_account (cfg e))"
      using p(3) by (simp add: quota_ok_def)
    ultimately show "int (length (list_workers_for_account a ?t)) \<le> max 0 (max_workers_per_account (cfg e))"
      unfolding l by linarith
    show "distinct (map w_wg_pubkey (list_workers_for_account a ?t))"
      unfolding l using p(3) by (simp add: quota_ok_def distinct_map_filter)
  next
    show "list_all (\<lambda>w. w_status w \<noteq> registered) (workers ?t)" using p(3) by (simp add: quota_ok_def list_all_iff)
  qed
  ultimately show "wp (delete_worker i) (\<lambda>_. good e) (\<lambda>_. good e) s"
    using p(4) by (simp add: wp_simps good_def conns_ok_def)
qed

lemma history_delete: "keeps (history s0) (delete_worker i)"
  by (rule keepsI) (auto simp: wp_simps count_admins_def elim: history_clusters)

section \<open>Formation and dissolution\<close>

lemma idents_write_all:
  assumes "workers_ok s" and "\<And>r. r \<in> set rs \<Longrightarrow>
      \<exists>x \<in> set (workers s). w_worker_id x = w_worker_id r \<and> w_account_id x = w_account_id r \<and> w_wg_pubkey x = w_wg_pubkey r"
    and "workers t = write_all rs (workers s)"
  shows "idents t = idents s"
proof -
  have "(w_worker_id y, w_account_id y, w_wg_pubkey y) = (w_worker_id x, w_account_id x, w_wg_pubkey x)"
    if x: "x \<in> set (workers s)" and y: "y = (case find (\<lambda>r. w_worker_id r = w_worker_id x) rs of None \<Rightarrow> x | Some r \<Rightarrow> r)" for x y
  proof (cases "find (\<lambda>r. w_worker_id r = w_worker_id x) rs")
    case (Some r)
    then have r: "r \<in> set rs" "w_worker_id r = w_worker_id x" using find_Some_in [OF Some] by simp_all
    obtain z where z: "z \<in> set (workers s)" "w_worker_id z = w_worker_id r" "w_account_id z = w_account_id r"
      "w_wg_pubkey z = w_wg_pubkey r" using assms(2) [OF r(1)] by blast
    have "z = x" using z(1,2) r(2) x assms(1) distinct_key_eq [of w_worker_id "workers s" z x] by (simp add: workers_ok_def)
    then show ?thesis using z r Some y by simp
  qed (use y in simp)
  note same = this [OF _ refl]
  have "map (\<lambda>w. (w_worker_id w, w_account_id w, w_wg_pubkey w)) (write_all rs (workers s)) =
      map (\<lambda>w. (w_worker_id w, w_account_id w, w_wg_pubkey w)) (workers s)"
    unfolding write_all_def by (rule map_same) (rule same)
  then show ?thesis by (simp add: idents_def assms(3))
qed

lemma good_formed:
  assumes "good e s" and "formed e model s c t"
  shows "good e t"
proof -
  have ok: "pool_ok s" "workers_ok s" using good_parts [OF assms(1)] by (simp_all add: schema_ok_def)
  obtain md chosen tot ips where md: "map_of (models (cfg e)) model = Some md"
    and f: "choose_members (md_required_memory_mb md) 0 (waitlist model (md_gguf_sha256 md) s) = (chosen, tot)"
    "workers t = write_all (map (assigned_worker (c_cluster_id c) ips) (List.enumerate 0 chosen)) (workers s)"
    "api_keys t = api_keys s" "conns t = conns s"
    using assms(2) unfolding formed_def same_sessions_def by blast
  have row: "\<exists>x \<in> set (workers s). w_worker_id x = w_worker_id r \<and> w_account_id x = w_account_id r \<and>
      w_wg_pubkey x = w_wg_pubkey r \<and> w_status r = assigned"
    if r: "r \<in> set (map (assigned_worker (c_cluster_id c) ips) (List.enumerate 0 chosen))" for r
  proof -
    from r obtain i x where x: "(i, x) \<in> set (List.enumerate 0 chosen)" "r = assigned_worker (c_cluster_id c) ips (i, x)" by auto
    obtain rest where "waitlist model (md_gguf_sha256 md) s = chosen @ rest" using choose_prefix [OF f(1)] by blast
    moreover have "x \<in> set chosen" using x(1) by (auto simp: in_set_enumerate_eq)
    ultimately have "x \<in> set (waitlist model (md_gguf_sha256 md) s)" by simp
    then have "x \<in> set (workers s)" by (simp add: waitlist_in)
    then show ?thesis using x(2) by (auto simp: assigned_worker_def)
  qed
  show ?thesis
  proof (rule good_idents [OF assms(1) formed_pool_ok [OF ok(1) assms(2)] idents_write_all [OF ok(2) _ f(2)] f(3,4)])
    show "w_status w \<noteq> registered" if "w \<in> set (workers t)" for w
      using in_write_all [OF that [unfolded f(2)]] row [of w] good_status [OF assms(1), of w] by force
  qed (use row in blast)
qed

lemma good_form: "keeps (good e) (form_cluster e model)"
proof (rule keepsI)
  fix s
  assume ok: "good e s"
  then have "good e (s\<lparr>rnd_used := n\<rparr>)" for n
    by (rule good_frame) (simp add: frame_ok_def same_tables_def conns_ok_def)
  then show "wp (form_cluster e model) (\<lambda>_. good e) (\<lambda>_. good e) s"
    using ok good_formed [OF ok] good_parts [OF ok]
    by (intro wp_conseq [OF form_cluster_wp]) (auto split: option.splits)
qed

lemma history_form: "pool_ok s \<Longrightarrow> history s0 s \<Longrightarrow> wp (form_cluster e model) (\<lambda>_. history s0) (\<lambda>_. history s0) s"
proof -
  assume ok: "pool_ok s" and h: "history s0 s"
  from h have "history s0 (s\<lparr>rnd_used := n\<rparr>)" for n
    by (rule history_frame) (simp add: frame_ok_def same_tables_def conns_ok_def)
  moreover have "history s0 t" if f: "formed e model s c t" for c t
  proof -
    have "accounts t = accounts s" using f unfolding formed_def same_sessions_def by blast
    then show ?thesis using h formed_since [OF _ f] count_admins_accounts [of t s] by (simp add: history_def)
  qed
  ultimately show ?thesis
    using h by (intro wp_conseq [OF form_cluster_wp [OF ok]]) (auto split: option.splits)
qed

lemma good_dissolve:
  assumes ok: "good e s" and c: "get_cluster cid s = Some c"
  shows "wp (dissolve_cluster e' c reason) (\<lambda>_. good e) (\<lambda>_. good e) s"
proof (rule wp_conseq [OF dissolve_wp [OF _ c]])
  have p: "pool_ok s" using good_parts [OF ok] by simp
  then show "store_ok s" by (simp add: pool_ok_def)
  fix x t
  assume t: "dissolved s c reason t"
  show "good e t"
  proof (rule good_idents [OF ok])
    show "pool_ok t" by (rule dissolved_pool_ok [OF _ c t]) (use p in \<open>simp_all add: pool_ok_def assign_ok_def\<close>)
    show "w_status w \<noteq> registered" if "w \<in> set (workers t)" for w
      using that t good_status [OF ok] by (auto simp: dissolved_def same_sessions_def)
  qed (use t in \<open>simp_all add: dissolved_def same_sessions_def idents_def\<close>)
qed simp

lemma history_dissolve:
  assumes "pool_ok s" and "history s0 s" and c: "get_cluster cid s = Some c"
  shows "wp (dissolve_cluster e c reason) (\<lambda>_. history s0) (\<lambda>_. history s0) s"
  by (rule wp_conseq [OF dissolve_wp [OF _ c]])
    (use assms(1) history_evolves [OF assms(2)] in \<open>auto simp: pool_ok_def dissolved_def\<close>)

section \<open>Reports, the request log, the sweep\<close>

definition same_people :: "pool \<Rightarrow> pool \<Rightarrow> bool" where
  "same_people s t \<longleftrightarrow> accounts t = accounts s \<and> api_keys t = api_keys s \<and> workers t = workers s \<and> conns t = conns s"

lemma people_members: "keeps (same_people s) (update_members P f)"
  by (rule keepsI) (simp add: wp_simps same_people_def)

lemma people_rows: "keeps (same_people s) (update_cluster_rows cid f)"
  by (rule keepsI) (simp add: wp_simps same_people_def)

lemma people_window: "keeps (same_people s) (set_member_window cid wid n)"
  by (rule keepsI) (simp add: wp_simps same_people_def)

lemma people_gate: "keeps (same_people s) (evaluate_gate cid)"
  unfolding evaluate_gate_def by (intro keeps_intros people_rows)

lemma people_ready: "keeps (same_people s) (mark_member_ready cid wid)"
  unfolding mark_member_ready_def by (intro keeps_intros people_gate people_members)

lemma people_distribution: "keeps (same_people s) (set_cluster_distribution cid lw)"
  unfolding set_cluster_distribution_def by (intro keeps_intros people_gate people_members people_rows people_window)

text \<open>A report leaves the ring of an active cluster in place, and never terminates it.\<close>

definition spares :: "'z db_scheme \<Rightarrow> 'z db_scheme \<Rightarrow> bool" where
  "spares s t \<longleftrightarrow> evolves s t \<and> (\<forall>i. active i s \<longrightarrow> active i t)"

lemma spares_one:
  assumes "same_clusters_but cid s t" and "get_cluster cid t = map_option f (get_cluster cid s)"
    and "\<And>c. evolve_rec c (f c)" and "\<And>c. c_status c \<noteq> terminated \<Longrightarrow> c_status (f c) \<noteq> terminated"
  shows "spares s t"
proof -
  have "rel_option evolve_rec (get_cluster cid s) (get_cluster cid t)"
    using assms(2,3) by (cases "get_cluster cid s") simp_all
  then have "evolves s t" by (rule evolves_one [OF assms(1)])
  moreover have "active i t" if "active i s" for i
    using that assms(1,2,4) by (cases "i = cid") (auto simp: active_def same_clusters_but_get)
  ultimately show ?thesis by (simp add: spares_def)
qed

lemma spares_same: "(\<And>i. get_cluster i t = get_cluster i s) \<Longrightarrow> spares s t"
  by (simp add: spares_def evolves_same active_def)

lemma ready_alive: "c_status (ready_spec wid c) = terminated \<longleftrightarrow> c_status c = terminated"
  by (simp add: ready_spec_def go_live_def)

lemma distribution_alive: "c_status (distribution_spec lw c) = terminated \<longleftrightarrow> c_status c = terminated"
  by (simp add: distribution_spec_def go_live_def)

lemma ready_spares: "wp (mark_member_ready cid wid) (\<lambda>_. spares s) (\<lambda>_. spares s) s"
proof (rule wp_conseq [OF mark_member_ready_wp])
  fix r t
  assume "r = map_option (ready_spec wid) (get_cluster cid s) \<and> get_cluster cid t = r \<and> same_clusters_but cid s t"
  then show "spares s t"
    by (intro spares_one [of cid s t "ready_spec wid"]) (simp_all add: evolve_ready_spec ready_alive)
qed simp

lemma distribution_spares:
  assumes "report_ok lw"
  shows "wp (set_cluster_distribution cid (Some lw)) (\<lambda>_. spares s) (\<lambda>_. spares s) s"
proof (cases "get_cluster cid s")
  case None
  then show ?thesis
    by (simp add: set_cluster_distribution_def wp_simps get_cluster_def spares_same split: option.split)
next
  case (Some c)
  show ?thesis
  proof (rule wp_conseq [OF set_cluster_distribution_any [OF assms Some]])
    fix r t
    assume "r = Some (distribution_spec (Some lw) c) \<and> get_cluster cid t = r \<and> same_clusters_but cid s t"
    then show "spares s t"
      by (intro spares_one [of cid s t "distribution_spec (Some lw)"])
        (simp_all add: Some evolve_distribution_spec distribution_alive)
  qed (simp add: spares_same)
qed

lemma spares_pool_ok:
  assumes "pool_ok s" and "same_people s t" and "store_ok t" and "spares s t"
  shows "pool_ok t"
proof -
  have ev: "evolves s t" using assms(4) by (simp add: spares_def)
  have "seat_ok t w" if w: "w \<in> set (workers t)" for w
  proof -
    have seat: "seat_ok s w" using assms(1,2) w by (simp add: same_people_def pool_ok_def assign_ok_def)
    have "\<exists>d. get_cluster cid t = Some d \<and> c_status d \<noteq> terminated \<and> c_members d = c_members c \<and> c_ips d = c_ips c"
      if c: "get_cluster cid s = Some c" "c_status c \<noteq> terminated" for cid c
    proof -
      obtain d where "get_cluster cid t = Some d" "evolve_rec c d" using evolves_Some [OF ev c(1)] by blast
      moreover have "active cid t" using assms(4) c by (simp add: spares_def active_def)
      ultimately show ?thesis by (auto simp: active_def evolve_rec_def)
    qed
    note moved = this
    show ?thesis
      unfolding seat_ok_def
    proof (intro conjI allI impI)
      fix cid
      assume "w_cluster_id w = Some cid"
      then obtain c i where c: "cid \<noteq> []" "get_cluster cid s = Some c" "c_status c \<noteq> terminated" "i < length (c_members c)"
        "c_members c ! i = w_worker_id w" "w_ring_position w = Some i" "w_assigned_ip w = map_of (c_ips c) (w_worker_id w)"
        using seat unfolding seat_ok_def by blast
      obtain d where "get_cluster cid t = Some d" "c_status d \<noteq> terminated" "c_members d = c_members c" "c_ips d = c_ips c"
        using moved [OF c(2,3)] by blast
      then show "cid \<noteq> []" "\<exists>d i. get_cluster cid t = Some d \<and> c_status d \<noteq> terminated \<and> i < length (c_members d) \<and>
          c_members d ! i = w_worker_id w \<and> w_ring_position w = Some i \<and> w_assigned_ip w = map_of (c_ips d) (w_worker_id w)"
        using c by auto
    qed (use seat in \<open>simp add: seat_ok_def\<close>)
  qed
  moreover have "subnets_ok t" using assms(1) ev subnets_evolves by (auto simp: pool_ok_def)
  ultimately show ?thesis using assms(3) by (simp add: pool_ok_def assign_ok_def)
qed

lemma good_report:
  assumes "good e s" and "same_people s t" and "store_ok t" and "spares s t"
  shows "good e t"
  by (rule good_idents [OF assms(1) spares_pool_ok [OF _ assms(2-4)]])
    (use assms(1,2) good_parts [OF assms(1)] good_status [OF assms(1)] in \<open>auto simp: same_people_def idents_def\<close>)

lemma report_wp:
  assumes "pool_ok s" and "keeps store_ok m" and "keeps (same_people s) m" and "wp m (\<lambda>_. spares s) (\<lambda>_. spares s) s"
  shows "wp m (\<lambda>_ t. same_people s t \<and> store_ok t \<and> spares s t) (\<lambda>_ t. same_people s t \<and> store_ok t \<and> spares s t) s"
proof -
  have "store_ok s" "same_people s s" using assms(1) by (simp_all add: pool_ok_def same_people_def)
  from wp_conj [OF keeps_wpD [OF assms(3) this(2)] wp_conj [OF keeps_wpD [OF assms(2) this(1)] assms(4)]]
  show ?thesis by (rule wp_conseq) simp_all
qed

lemma ready_report:
  "pool_ok s \<Longrightarrow> wp (mark_member_ready cid wid) (\<lambda>_ t. same_people s t \<and> store_ok t \<and> spares s t)
     (\<lambda>_ t. same_people s t \<and> store_ok t \<and> spares s t) s"
  by (rule report_wp [OF _ keeps_store_mark_member_ready people_ready ready_spares])

lemma distribution_report:
  "pool_ok s \<Longrightarrow> report_ok lw \<Longrightarrow>
   wp (set_cluster_distribution cid (Some lw)) (\<lambda>_ t. same_people s t \<and> store_ok t \<and> spares s t)
     (\<lambda>_ t. same_people s t \<and> store_ok t \<and> spares s t) s"
  by (rule report_wp [OF _ keeps_store_set_cluster_distribution people_distribution distribution_spares])
    (auto simp: report_ok_def list_all_iff)

lemma good_ready: "keeps (good e) (mark_member_ready cid wid)"
  by (rule keepsI, rule wp_conseq [OF ready_report]) (auto dest: good_parts intro: good_report)

lemma good_distribution: "report_ok lw \<Longrightarrow> keeps (good e) (set_cluster_distribution cid (Some lw))"
  by (rule keepsI, rule wp_conseq [OF distribution_report]) (auto dest: good_parts intro: good_report)

lemma history_report: "history s0 s \<Longrightarrow> same_people s t \<Longrightarrow> spares s t \<Longrightarrow> history s0 t"
  by (rule history_evolves) (simp_all add: spares_def same_people_def)

lemma history_ready: "pool_ok s \<Longrightarrow> history s0 s \<Longrightarrow> wp (mark_member_ready cid wid) (\<lambda>_. history s0) (\<lambda>_. history s0) s"
  by (rule wp_conseq [OF ready_report]) (auto intro: history_report)

lemma history_distribution:
  "pool_ok s \<Longrightarrow> report_ok lw \<Longrightarrow> history s0 s \<Longrightarrow>
   wp (set_cluster_distribution cid (Some lw)) (\<lambda>_. history s0) (\<lambda>_. history s0) s"
  by (rule wp_conseq [OF distribution_report]) (auto intro: history_report)

lemma good_log: "keeps (good e) (record_request q)"
proof (rule keepsI)
  fix s
  assume ok: "good e s"
  let ?t = "s\<lparr>requests := requests s @ [q]\<rparr>"
  have "bindings_ok ?t"
    by (rule bindings_idents [of s]) (use good_parts [OF ok] in \<open>simp_all add: idents_def\<close>)
  then have "schema_ok ?t \<Longrightarrow> good e ?t"
    using good_parts [OF ok] by (intro good_same_workers [OF ok]) (simp_all add: conns_ok_def)
  then show "wp (record_request q) (\<lambda>_. good e) (\<lambda>_. good e) s"
    using good_parts [OF ok] ok by (auto simp: record_request_def wp_def schema_ok_def table_oks id_sets)
qed

lemma history_log: "keeps (history s0) (record_request q)"
  by (rule keepsI) (auto simp: record_request_def wp_def count_admins_def elim: history_clusters)

lemma swept_status:
  assumes "swept s ds t" and "good e s" and w: "w \<in> set (workers t)"
  shows "w_status w \<noteq> registered"
proof -
  have id: "map w_worker_id (workers t) = map w_worker_id (workers s)"
  proof -
    have "map fst (idents t) = map fst (idents s)" using assms(1) by (simp add: swept_def)
    then show ?thesis by (simp add: idents_def comp_def)
  qed
  have "w_worker_id w \<in> w_worker_id ` set (workers s)"
    using w arg_cong [OF id, of set] by (metis image_eqI set_map)
  then obtain x where x: "x \<in> set (workers s)" "w_worker_id x = w_worker_id w" by auto
  obtain b where b: "get_worker (w_worker_id x) t = Some (let x' = (if x \<in> set ds then x\<lparr>w_online := False\<rparr> else x) in
      if b then release x' else x')"
    using assms(1) x(1) unfolding swept_def Let_def by blast
  have "get_worker (w_worker_id w) t = Some w"
    using assms(1) w by (intro get_worker_eq) (simp_all add: swept_def pool_ok_def store_ok_def schema_ok_def)
  from trans [OF this [symmetric] b [unfolded x(2)]]
  have "w = (let x' = (if x \<in> set ds then x\<lparr>w_online := False\<rparr> else x) in if b then release x' else x')"
    by (rule option.inject [THEN iffD1])
  then show ?thesis using good_status [OF assms(2) x(1)] by (simp add: Let_def split: if_splits)
qed

lemma good_sweep: "keeps (good e) (check e')"
proof (rule keepsI)
  fix s
  assume ok: "good e s"
  have p: "pool_ok s" using good_parts [OF ok] by simp
  show "wp (check e') (\<lambda>_. good e) (\<lambda>_. good e) s"
  proof (rule wp_conseq [OF check_wp [OF p]])
    fix x t
    assume t: "swept s (filter (expired e' (clock s)) (workers s)) t"
    show "good e t"
      by (rule good_idents [OF ok _ _ _ _ swept_status [OF t ok]]) (use t in \<open>simp_all add: swept_def\<close>)
  qed simp
qed

lemma history_sweep: "pool_ok s \<Longrightarrow> history s0 s \<Longrightarrow> wp (check e) (\<lambda>_. history s0) (\<lambda>_. history s0) s"
proof (rule wp_conseq [OF check_wp])
  fix x t
  let ?ds = "filter (expired e (clock s)) (workers s)"
  assume h: "history s0 s" and t: "swept s ?ds t"
  have "evolves s t"
    unfolding evolves_def
  proof
    fix cid
    show "rel_option evolve_rec (get_cluster cid s) (get_cluster cid t)"
      using t unfolding swept_def by (cases "get_cluster cid s") (auto simp: evolve_rec_def)
  qed
  then show "history s0 t" by (rule history_evolves [OF h]) (use t in \<open>simp add: swept_def\<close>)
qed simp_all

end
