(* ===== verification/Pool_Kept.thy ===== *)
theory Pool_Kept
  imports Pool_Invariants
begin

text \<open>
  What an invariant needs so that the whole server keeps it. The locale \<open>steady\<close> is the contract between
  the handlers and an invariant of the pool: a predicate that implies the consistency of the tables,
  does not depend on anything but the tables and the hub, and is kept by each operation of the store
  and the scheduler under the guard that the handlers provide. Inside it every handler, the monitor's
  pass and the notification tasks are shown to keep the predicate. Only the operations that change an
  account that is already there are left to its extension \<open>kept\<close>.
\<close>

locale steady =
  fixes e :: env and I :: "pool \<Rightarrow> bool"
  assumes sound: "I s \<Longrightarrow> pool_ok s \<and> bindings_ok s"
    and framed: "I s \<Longrightarrow> frame_ok s t \<Longrightarrow> I t"
    and account: "\<not> a_is_admin a \<Longrightarrow> keeps I (insert_account a)"
    and key: "keeps I (insert_api_key r)"
    and revoked: "keeps I (revoke_api_key i)"
    and bound: "I s \<Longrightarrow> binds k i s \<Longrightarrow> I (bound_to k i s)"
    and admitted: "I s \<Longrightarrow> w_cluster_id wr = None \<Longrightarrow> w_status wr = waitlisted \<Longrightarrow>
      wp (create_worker_if_available wr (max_workers_per_account (cfg e))) (\<lambda>_. I) (\<lambda>_. I) s"
    and written: "I s \<Longrightarrow> get_worker (w_worker_id wr) s = Some w0 \<Longrightarrow> same_seat w0 wr \<Longrightarrow>
      sql_int (w_memory_allocated_mb wr) \<Longrightarrow> I (with_worker wr s)"
    and deleted: "keeps I (delete_worker i)"
    and forming: "keeps I (form_cluster e model)"
    and dissolving: "I s \<Longrightarrow> get_cluster cid s = Some c \<Longrightarrow> wp (dissolve_cluster e c reason) (\<lambda>_. I) (\<lambda>_. I) s"
    and reporting_ready: "keeps I (mark_member_ready cid wid)"
    and reporting_windows: "report_ok lw \<Longrightarrow> keeps I (set_cluster_distribution cid (Some lw))"
    and logged: "keeps I (record_request q)"
    and sweeping: "keeps I (check e)"

locale kept = steady +
  assumes password: "keeps I (set_password i h)"
    and permissions: "I s \<Longrightarrow> spares_last_admin i adm s \<Longrightarrow>
      wp (update_account_permissions i adm w u b) (\<lambda>_. I) (\<lambda>_. I) s"

context steady
begin

section \<open>Steps outside the tables\<close>

lemma frame_puts: "(\<And>s. frame_ok s (f s)) \<Longrightarrow> keeps I (puts f)"
  using framed by (intro keeps_puts) blast

lemma wp_then: "wp m (\<lambda>_. I) (\<lambda>_. I) s \<Longrightarrow> (\<And>x. keeps I (f x)) \<Longrightarrow> wp (bnd m f) (\<lambda>_. I) (\<lambda>_. I) s"
  unfolding wp_bnd by (erule wp_conseq) (simp_all add: keeps_wp)

lemma wp_next: "wp m (\<lambda>_. I) (\<lambda>_. I) s \<Longrightarrow> keeps I n \<Longrightarrow> wp (seqa m n) (\<lambda>_. I) (\<lambda>_. I) s"
  unfolding wp_seqa by (erule wp_conseq) (simp_all add: keeps_wp)

lemma keeps_draw: "keeps I draw"
proof (rule keepsI)
  fix s
  assume "I s"
  then have "I (s\<lparr>rnd_used := Suc (rnd_used s)\<rparr>)" by (rule framed) (simp add: frame_ok_def same_tables_def conns_ok_def)
  then show "wp draw (\<lambda>_. I) (\<lambda>_. I) s" by (simp add: draw_def wp_def)
qed

lemma keeps_new_id: "keeps I (new_id p)"
  unfolding new_id_def by (intro keeps_intros keeps_draw)

lemma wg_frame:
  assumes "\<And>s. keeps (same_but_wg s) m"
  shows "keeps I m"
proof (rule keepsI)
  fix s
  assume ok: "I s"
  have "same_but_wg s s" by (simp add: same_defs)
  from keeps_wpD [OF assms this] show "wp m (\<lambda>_. I) (\<lambda>_. I) s"
    by (rule wp_conseq) (auto intro!: framed [OF ok] simp: same_defs frame_ok_def same_tables_def conns_ok_def)
qed

lemma keeps_hub_disconnect: "keeps I (hub_disconnect wid)"
  unfolding hub_disconnect_def
  by (rule frame_puts) (simp add: frame_ok_def same_tables_def conns_ok_def distinct_map_filter)

lemma keeps_hub_connect: "keeps I (hub_connect wid ws)"
  unfolding hub_connect_def
  by (rule frame_puts) (simp add: frame_ok_def same_tables_def conns_ok_def distinct_dict_set)

lemma keeps_sent: "keeps I (puts (\<lambda>s. s\<lparr>sent := f s\<rparr>))"
  by (rule frame_puts) (simp add: frame_ok_def same_tables_def conns_ok_def)

lemma keeps_socks: "keeps I (puts (\<lambda>s. s\<lparr>socks := f s\<rparr>))"
  by (rule frame_puts) (simp add: frame_ok_def same_tables_def conns_ok_def)

lemma keeps_accepting: "keeps I (puts (\<lambda>s. s\<lparr>accepting := f s\<rparr>))"
  by (rule frame_puts) (simp add: frame_ok_def same_tables_def conns_ok_def)

lemma keeps_flights: "keeps I (puts (\<lambda>s. s\<lparr>flights := f s\<rparr>))"
  by (rule frame_puts) (simp add: frame_ok_def same_tables_def conns_ok_def)

lemma keeps_admitted: "keeps I (puts (\<lambda>s. s\<lparr>admitted := f s\<rparr>))"
  by (rule frame_puts) (simp add: frame_ok_def same_tables_def conns_ok_def)

lemma keeps_calls: "keeps I (puts (\<lambda>s. s\<lparr>calls := f s\<rparr>))"
  by (rule frame_puts) (simp add: frame_ok_def same_tables_def conns_ok_def)

lemma keeps_hub_send: "keeps I m \<Longrightarrow> keeps I (hub_send wid f rest m)"
  unfolding hub_send_def by (intro keeps_intros keeps_flights)

lemma keeps_proceed: "keeps I (proceed js)"
  by (induction js rule: proceed.induct)
    (auto intro!: keeps_intros keeps_hub_send keeps_socks)

lemma keeps_hub_sent: "keeps I (hub_sent fl ok)"
  unfolding hub_sent_def by (intro keeps_intros keeps_flights keeps_sent keeps_hub_disconnect keeps_proceed)

lemma keeps_task: "keeps I (run_task t)"
proof (cases t)
  case (NotifyAssigned wid f)
  then show ?thesis by (simp add: run_task_def broadcast_cluster_assigned_def keeps_proceed del: proceed.simps)
next
  case (NotifyDissolved ids f)
  then show ?thesis
    by (cases f) (simp_all add: run_task_def broadcast_cluster_dissolved_def Let_def keeps_proceed keeps_ret)
qed

lemma keeps_next_task: "keeps I run_next_task"
proof -
  have pop: "keeps I (puts (\<lambda>s. s\<lparr>tasks := rest\<rparr>))" for rest
    by (rule frame_puts) (simp add: frame_ok_def same_tables_def conns_ok_def)
  show ?thesis
    unfolding run_next_task_def by (intro keeps_intros) (simp add: keeps_ret keeps_seqa [OF pop keeps_task] split: list.split)
qed

lemma keeps_monitor_pass: "keeps I (monitor_pass e)"
  unfolding monitor_pass_def by (intro keeps_intros sweeping)

section \<open>New accounts, keys and the views of administration\<close>

lemma keeps_hash: "keeps I (hash_password (prim e) p)"
  unfolding hash_password_def by (intro keeps_intros keeps_draw)

lemma keeps_create_account: "keeps I (create_account (prim e) u p)"
  unfolding create_account_def by (intro keeps_intros keeps_new_id keeps_hash account) simp

lemma keeps_register_account: "keeps I (register_account e u p)"
  unfolding register_account_def by (intro keeps_intros keeps_create_account)

lemma keeps_login: "keeps I (login e u p)"
  unfolding login_def by (intro keeps_intros)

lemma keeps_own_account: "keeps I (own_account e i msg auth)"
  unfolding own_account_def by (intro keeps_intros)

lemma keeps_create_key: "keeps I (create_key e i n sc auth)"
  unfolding create_key_def create_api_key_def new_api_key_def
  by (intro keeps_intros keeps_own_account keeps_new_id keeps_draw key)

lemma keeps_list_keys: "keeps I (list_keys e i auth)"
  unfolding list_keys_def by (intro keeps_intros keeps_own_account)

lemma keeps_revoke_key: "keeps I (revoke_key e i k auth)"
  unfolding revoke_key_def by (intro keeps_intros keeps_own_account revoked)

lemma keeps_admin_reads: "keeps I (admin_permission_state e auth) \<and> keeps I (admin_list_accounts e auth)"
  unfolding admin_permission_state_def admin_list_accounts_def by (intro conjI keeps_intros)

section \<open>Credentials and bindings\<close>

lemma parts: "I s \<Longrightarrow> pool_ok s \<and> bindings_ok s \<and> schema_ok s \<and> keys_ok s \<and> workers_ok s"
  using sound by (auto simp: pool_ok_def store_ok_def schema_ok_def)

lemma bind_own:
  assumes ok: "I s" and own: "own_key a kid s" and w: "get_worker i s = Some w" "w_account_id w = a"
  shows "wp (try_bind kid i) (\<lambda>_. I) (\<lambda>_. I) s \<and>
    wp (case kid of None \<Rightarrow> ret () | Some k \<Rightarrow> if k = [] then ret () else bind_api_key_to_worker k i) (\<lambda>_. I) (\<lambda>_. I) s"
proof -
  have "I (bound_to k i s)" if "kid = Some k" for k
    using own w that by (intro bound [OF ok]) (auto simp: binds_def own_key_def)
  then show ?thesis
    using ok by (auto simp: try_bind_def wp_simps bound_to_def split: option.split)
qed

lemma own_binds:
  "own_key a (Some k) s \<Longrightarrow> get_worker i s = Some w \<Longrightarrow> w_account_id w = a \<Longrightarrow> binds k i s"
  by (auto simp: binds_def own_key_def)

lemma worker_from_key_keeps:
  assumes ok: "I s"
  shows "wp (worker_from_key e auth i) (\<lambda>w t. I t \<and> get_worker i t = Some w) (\<lambda>_. I) s"
proof -
  have keys: "keys_ok s" using parts [OF ok] by simp
  have moved: "I (bound_to k i s) \<and> get_worker i (bound_to k i s) = Some w"
    if "own_key (w_account_id w) (Some k) s" "get_worker i s = Some w" for k w
    using bound [OF ok own_binds [OF that refl]] that(2) by (simp add: get_worker_def bound_to_def)
  show ?thesis
    by (rule wp_conseq [OF worker_from_key_wp [OF keys]]) (use ok moved in auto)
qed

lemma bound_worker_keeps:
  assumes ok: "I s"
  shows "wp (bound_worker e auth cid) (\<lambda>w t. I t) (\<lambda>_. I) s"
proof -
  have p: "keys_ok s" "bindings_ok s" "workers_ok s" using parts [OF ok] by simp_all
  have moved: "I (bound_to k (w_worker_id w) s)"
    if "own_key (w_account_id w) (Some k) s" "get_worker (w_worker_id w) s = Some w" for k w
    by (rule bound [OF ok own_binds [OF that refl]])
  show ?thesis
    by (rule wp_conseq [OF bound_worker_wp [OF p]]) (use ok moved in auto)
qed

lemma keeps_worker_from_key: "keeps I (worker_from_key e auth i)"
  by (rule keepsI, rule wp_conseq [OF worker_from_key_keeps]) auto

lemma keeps_bound_worker: "keeps I (bound_worker e auth cid)"
  by (rule keepsI) (rule bound_worker_keeps)

section \<open>Workers\<close>

lemma write_back:
  assumes "I s" and "get_worker (w_worker_id w) s = Some w0" and "same_seat w0 w"
  shows "wp (update_worker w) (\<lambda>_ t. I t \<and> t = with_worker w s) (\<lambda>_. I) s"
  using assms written [OF assms] by (simp add: wp_simps with_worker_def)

lemma keeps_dissolve_of: "keeps I (dissolve_of e reason w)"
proof (rule keepsI)
  fix s
  assume "I s"
  then show "wp (dissolve_of e reason w) (\<lambda>_. I) (\<lambda>_. I) s"
    using dissolving by (auto simp: dissolve_of_def wp_ret wp_bnd wp_gets split: option.split)
qed

lemma keeps_check_and_form: "keeps I (check_and_form e)"
  unfolding check_and_form_def by (intro keeps_intros forming)

lemma keeps_revoke_worker: "keeps I (revoke_worker e i auth)"
  unfolding revoke_worker_def on_worker_leave_def
  by (intro keeps_intros keeps_worker_from_key keeps_dissolve_of deleted)

lemma keeps_worker_state: "keeps I (get_worker_state e i auth)"
  unfolding get_worker_state_def by (intro keeps_intros keeps_worker_from_key)

lemma keeps_heartbeat: "keeps I (heartbeat e i auth)"
proof (rule keepsI)
  fix s
  assume ok: "I s"
  have rest: "wp (seqa (update_worker (beat e now w)) (seqa (check_and_form e) (ret v))) (\<lambda>_. I) (\<lambda>_. I) t"
    if t: "I t" "get_worker i t = Some w" for w t now v
  proof -
    have "get_worker (w_worker_id (beat e now w)) t = Some w" using worker_table.get_in [OF t(2)] t(2) by simp
    from write_back [OF t(1) this same_seat_beat]
    show ?thesis unfolding wp_seqa [of "update_worker _"]
      by (rule wp_conseq) (auto intro!: keeps_wpD [OF keeps_seqa [OF keeps_check_and_form keeps_ret]])
  qed
  show "wp (heartbeat e i auth) (\<lambda>_. I) (\<lambda>_. I) s"
    unfolding heartbeat_def wp_bnd [of "worker_from_key _ _ _"]
    by (rule wp_conseq [OF worker_from_key_keeps [OF ok]]) (auto simp: wp_bnd [of "gets _"] wp_gets rest)
qed

lemma created_wp:
  "wp (create_worker_if_available r n)
     (\<lambda>b t. api_keys t = api_keys s \<and> (b \<longrightarrow> get_worker (w_worker_id r) t = Some r) \<and> (\<not> b \<longrightarrow> t = s)) (\<lambda>_ t. t = s) s"
proof -
  have "find (\<lambda>w. w_worker_id w = w_worker_id r) (ws @ [r]) = Some r" if "w_worker_id r \<notin> w_worker_id ` set ws" for ws
    using that by (induction ws) auto
  then show ?thesis
    by (auto simp: create_worker_if_available_def wp_simps get_worker_def worker_ids_def)
qed

lemma reregister_keeps:
  assumes ok: "I s" and own: "own_key a kid s"
    and prev: "find (\<lambda>w. w_wg_pubkey w = k) (list_workers_for_account a s) = Some prev"
  shows "wp (seqa (update_worker (reregistered ep b prev))
             (seqa (case kid of None \<Rightarrow> ret ()
                    | Some k \<Rightarrow> if k = [] then ret () else bind_api_key_to_worker k (w_worker_id prev))
                   (ret (w_worker_id prev)))) (\<lambda>_. I) (\<lambda>_. I) s"
proof -
  let ?r = "reregistered ep b prev"
  have "prev \<in> set (list_workers_for_account a s)" using find_Some_in [OF prev] by simp
  then have p: "prev \<in> set (workers s)" "w_account_id prev = a" by (simp_all add: list_workers_for_account_def)
  have row: "get_worker (w_worker_id prev) s = Some prev"
    using worker_table.get_row [of s prev] p(1) parts [OF ok] by (simp add: workers_ok_def)
  have moved: "get_worker (w_worker_id prev) (with_worker ?r s) = Some ?r"
    using row get_worker_update [of "with_worker ?r s" ?r s] by (simp add: with_worker_def)
  have own': "own_key a kid (with_worker ?r s)" using own by (simp add: own_key_def get_api_key_def with_worker_def)
  have bind: "wp (seqa (case kid of None \<Rightarrow> ret ()
                    | Some k \<Rightarrow> if k = [] then ret () else bind_api_key_to_worker k (w_worker_id prev))
                   (ret (w_worker_id prev))) (\<lambda>_. I) (\<lambda>_. I) (with_worker ?r s)" if "I (with_worker ?r s)"
    by (rule wp_next [OF conjunct2 [OF bind_own [OF that own' moved]] keeps_ret]) (simp add: p(2))
  show ?thesis
    unfolding wp_seqa [of "update_worker _"]
    by (rule wp_conseq [OF write_back [OF ok _ same_seat_reregistered]]) (use row bind in auto)
qed

lemma admit_keeps:
  assumes ok: "I s" and own: "own_key acc kid s"
  shows "wp (admit_worker e acc kid ep b) (\<lambda>_. I) (\<lambda>_. I) s"
proof -
  let ?s1 = "s\<lparr>rnd_used := Suc (rnd_used s)\<rparr>"
  let ?wid = "''wrk'' @ ''_'' @ rnd s (rnd_used s)"
  let ?new = "new_worker ?wid acc (clock ?s1) ep b"
  let ?rest = "\<lambda>created. if created then seqa (try_bind kid ?wid) (ret ?wid)
     else
       bnd (gets (list_workers_for_account acc)) (\<lambda>existing.
       if int (length existing) \<ge> max_workers_per_account (cfg e)
       then throw (conflict_error ''worker_limit'' ''Worker Limit'' ''Too many workers for this account.'')
       else
         (case find (\<lambda>w. w_wg_pubkey w = rw_wg_pubkey b) existing of
            None \<Rightarrow> throw (conflict_error ''worker_exists'' ''Worker Exists'' ''A worker for this device already exists.'')
          | Some prev \<Rightarrow>
              seqa (update_worker (reregistered ep b prev))
             (seqa (case kid of None \<Rightarrow> ret ()
                    | Some k \<Rightarrow> if k = [] then ret () else bind_api_key_to_worker k (w_worker_id prev))
                   (ret (w_worker_id prev)))))"
  have ok1: "I ?s1" by (rule framed [OF ok]) (simp add: frame_ok_def same_tables_def conns_ok_def)
  have own1: "own_key acc kid ?s1" using own by (simp add: own_key_def get_api_key_def)
  note known = reregister_keeps [OF ok1 own1]
  have new: "w_worker_id ?new = ?wid" "w_account_id ?new = acc" "w_cluster_id ?new = None" "w_status ?new = waitlisted"
    by (simp_all add: new_worker_def)
  have born: "wp (seqa (try_bind kid ?wid) (ret ?wid)) (\<lambda>_. I) (\<lambda>_. I) t"
    if "I t" "api_keys t = api_keys ?s1" "get_worker ?wid t = Some ?new" for t
  proof -
    have "own_key acc kid t" using own1 that(2) by (simp add: own_key_def get_api_key_def)
    from bind_own [OF that(1) this that(3) new(2)] show ?thesis by (intro wp_next keeps_ret) (rule conjunct1)
  qed
  have main: "wp (bnd (create_worker_if_available ?new (max_workers_per_account (cfg e))) ?rest) (\<lambda>_. I) (\<lambda>_. I) ?s1"
    unfolding wp_bnd [of "create_worker_if_available _ _"]
  proof (rule wp_conseq [OF wp_conj [OF admitted [OF ok1 new(3,4)] created_wp]])
    fix created t
    assume t: "I t \<and> api_keys t = api_keys ?s1 \<and> (created \<longrightarrow> get_worker (w_worker_id ?new) t = Some ?new) \<and> (\<not> created \<longrightarrow> t = ?s1)"
    show "wp (?rest created) (\<lambda>_. I) (\<lambda>_. I) t"
    proof (cases created)
      case True
      then show ?thesis using born [of t] t new(1) by simp
    next
      case False
      then have "t = ?s1" using t by blast
      then show ?thesis using False ok1 known
        by (simp add: wp_bnd [of "gets _"] wp_gets wp_throw split: option.split)
    qed
  qed simp
  show ?thesis
    unfolding admit_worker_def new_id_def wp_bnd [of "bnd draw _"] wp_bnd [of draw] wp_draw wp_ret
      wp_bnd [of "gets clock"] wp_gets by (rule main)
qed

lemma presented_key_own:
  assumes "keys_ok s" and "api_key e auth s = Inr (a, scope, k)"
  shows "own_key a (case bearer auth of None \<Rightarrow> None
    | Some secret \<Rightarrow> map_option k_key_id (resolve_api_key (prim e) secret s)) s"
proof -
  have "get_api_key (k_key_id r) s = Some r" if "resolve_api_key (prim e) secret s = Some r" for secret r
    using key_table.get_row [of s r] assms(1) resolve_in [OF that] by (simp add: keys_ok_def)
  then show ?thesis
    using assms(2) by (auto simp: own_key_def api_key_def split: option.splits if_splits)
qed

lemma keeps_register_worker: "keeps I (register_worker e b xff peer auth)"
proof (rule keepsI)
  fix s
  assume ok: "I s"
  have keys: "keys_ok s" using parts [OF ok] by simp
  let ?kid = "case bearer auth of None \<Rightarrow> None
    | Some secret \<Rightarrow> map_option k_key_id (resolve_api_key (prim e) secret s)"
  let ?tail = "\<lambda>wid. seqa (check_and_form e) (bnd (gets (get_worker wid)) (\<lambda>r.
              case r of None \<Rightarrow> throw AttributeError | Some w \<Rightarrow> ret (to_worker w)))"
  have fin: "keeps I (?tail wid)" for wid by (intro keeps_intros keeps_check_and_form)
  have "wp (bnd (admit_worker e a ?kid ep b) ?tail) (\<lambda>_. I) (\<lambda>_. I) s"
    if "api_key e auth s = Inr (a, scope, k)" for a scope k ep
    by (rule wp_then [OF admit_keeps [OF ok presented_key_own [OF keys that]] fin])
  then show "wp (register_worker e b xff peer auth) (\<lambda>_. I) (\<lambda>_. I) s"
    using ok unfolding register_worker_def
    by (auto simp: wp_bnd [of "asks _"] wp_asks wp_bnd [of "gets _"] wp_gets wp_throw split: sum.split option.split)
qed

section \<open>Clusters and the WebSocket\<close>

lemma keeps_record_distribution: "report_ok lw \<Longrightarrow> keeps I (record_distribution cid lw)"
proof -
  assume "report_ok lw"
  then have "keeps I (bnd (on_layer_distribution cid (Some lw)) (\<lambda>_. ret ()))"
    unfolding on_layer_distribution_def by (intro keeps_intros reporting_windows)
  moreover have "keeps I (case x of KeyError _ \<Rightarrow> ret () | _ \<Rightarrow> throw x)" for x
    by (cases x) (simp_all add: keeps_ret keeps_throw)
  ultimately show ?thesis unfolding record_distribution_def by (rule keeps_try_with)
qed

lemma keeps_on_ready: "keeps I (on_ready cid wid)"
  unfolding on_ready_def by (intro keeps_intros reporting_ready)

lemma keeps_cluster_config: "keeps I (get_cluster_config e cid auth)"
proof -
  have "keeps I (build_cluster_config e c)" for c
    unfolding build_cluster_config_def by (intro keeps_intros wg_frame [OF keeps_wg_server_peer])
  then show ?thesis unfolding get_cluster_config_def by (intro keeps_intros keeps_bound_worker)
qed

lemma keeps_report_ready: "keeps I (report_ready e cid windows auth)"
proof -
  have "report_ok (by_worker ms (filter (\<lambda>(k, v). 0 \<le> v) lw))" for ms lw
    by (rule by_worker_report_ok) auto
  then show ?thesis
    unfolding report_ready_def
    by (intro keeps_intros keeps_bound_worker keeps_record_distribution keeps_on_ready)
qed

lemma keeps_ws_frame: "keeps I (handle_ws_frame f wid)"
proof -
  have "report_ok (by_worker ms (case v of Some (JObj d) \<Rightarrow> counts_of d | _ \<Rightarrow> []))" for ms v
    by (rule by_worker_report_ok) (auto split: option.splits json.splits intro: counts_of_nonneg)
  then show ?thesis
    unfolding handle_ws_frame_def by (intro keeps_intros keeps_record_distribution)
qed

lemma keeps_ws_open: "keeps I (ws_open e ws wid q auth)"
  unfolding ws_open_def by (intro keeps_intros keeps_accepting)

lemma keeps_ws_accepted: "keeps I (ws_accepted e ws ok)"
proof -
  have "keeps I (send_hello e wid rest)" for wid rest
    unfolding send_hello_def by (intro keeps_intros keeps_proceed)
  then show ?thesis unfolding ws_accepted_def by (intro keeps_intros keeps_hub_connect keeps_accepting)
qed

lemma keeps_ws_end: "keeps I (ws_end ws wid)"
  unfolding ws_end_def by (intro keeps_intros keeps_socks keeps_hub_disconnect)

lemma keeps_ws_receive: "keeps I (ws_receive e ws msg ok)"
  unfolding ws_receive_def by (intro keeps_intros keeps_ws_end keeps_sent keeps_ws_frame)

lemma keeps_ws_close: "keeps I (ws_close ws)"
  unfolding ws_close_def by (intro keeps_intros keeps_ws_end)

section \<open>Inference calls\<close>

lemma keeps_chat_admit: "keeps I (chat_admit e auth)"
  unfolding chat_admit_def by (intro keeps_intros keeps_admitted)

lemma keeps_chat_route: "keeps I (chat_route e p body)"
  unfolding chat_route_def route_call_def by (intro keeps_intros keeps_new_id keeps_calls keeps_admitted)

lemma keeps_chat_finish: "keeps I (chat_finish e c r)"
proof -
  have log: "keeps I (log_usage c p q)" for p q unfolding log_usage_def by (intro keeps_intros logged)
  have "keeps I (stream_answer e c body)" for body unfolding stream_answer_def by (intro keeps_intros log)
  moreover have "keeps I (json_answer e c status body)" for status body
    unfolding json_answer_def by (intro keeps_intros log)
  ultimately have "keeps I (answer_call e c r)"
    unfolding answer_call_def by (cases r) (simp_all add: keeps_throw)
  then show ?thesis unfolding chat_finish_def by (intro keeps_intros keeps_calls)
qed

end

section \<open>Changes to accounts\<close>

context kept
begin

lemma keeps_change_password: "keeps I (change_password e i cur new auth)"
  unfolding change_password_def by (intro keeps_intros keeps_hash password)

lemma keeps_admin_update: "keeps I (admin_update_account e i adm w u b auth)"
proof (rule keepsI)
  fix s
  assume ok: "I s"
  let ?rest = "\<lambda>_. bnd (gets (get_account i)) (\<lambda>updated. case updated of None \<Rightarrow> throw AttributeError
                | Some a \<Rightarrow> gets (\<lambda>s. admin_account_view e s a))"
  have rest: "keeps I (?rest x)" for x :: bool by (intro keeps_intros)
  have "wp (bnd (update_account_permissions i adm w u b) ?rest) (\<lambda>_. I) (\<lambda>_. I) s"
    if "get_account i s = Some t" "\<not> (adm = Some False \<and> a_is_admin t \<and> count_admins s \<le> 1)" for t
    by (rule wp_then [OF permissions [OF ok] rest]) (use that in \<open>auto simp: spares_last_admin_def\<close>)
  then show "wp (admin_update_account e i adm w u b auth) (\<lambda>_. I) (\<lambda>_. I) s"
    using ok unfolding admin_update_account_def
    by (auto simp: wp_asks wp_bnd [of "asks _"] wp_bnd [of "gets _"] wp_gets wp_throw split: option.split sum.split)
qed

lemma keeps_bootstrap: "keeps I (bootstrap_first_account e)"
proof -
  have "keeps I (update_account_permissions i (Some True) None None None)" for i
    by (rule keepsI) (simp add: permissions spares_last_admin_def)
  then show ?thesis unfolding bootstrap_first_account_def by (intro keeps_intros keeps_create_account)
qed

end

end
