(* ===== verification/Pool_System.thy ===== *)
theory Pool_System
  imports Pool_Kept
begin

text \<open>
  The whole server: the routes of \<open>create_app\<close> as one function \<open>serve\<close>, and the runs of the server as a
  step relation. The event loop switches between coroutines at an await only, so a step is what happens
  between two of them: a handler without an await (all routes but one), the parts of a chat request
  before its body, between its body and the call of the head, and after the answer, the parts of a
  WebSocket before and after its accept, each message, a notification up to its first send, each
  completed send with what follows it, a pass of the monitor, a restart. A run is any interleaving of
  such steps and changes of the clock.
\<close>

section \<open>The routes\<close>

datatype request =
    RegisterAccount string string
  | Login string string
  | ChangePassword string string string "string option"
  | CreateKey string string string "string option"
  | ListKeys string "string option"
  | RevokeKey string string "string option"
  | AdminPermissions "string option"
  | AdminAccounts "string option"
  | AdminUpdate string "bool option" "bool option" "bool option" "bool option" "string option"
  | RegisterWorker register_worker_request "string option" "string option" "string option"
  | RevokeWorker string "string option"
  | WorkerState string "string option"
  | Heartbeat string "string option"
  | ClusterConfig string "string option"
  | ReportReady string "int dict option" "string option"
  | Models
  | WorkerInfo string
  | ClusterInfo string
  | AccountQuery string query "string option"
  | ChatCompletions "string option"

datatype answer =
    NoContent
  | AccountBody account_rec
  | SessionBody "string \<times> int"
  | KeyBody "api_key_rec \<times> string"
  | KeysBody "(string \<times> string \<times> string \<times> rat) list"
  | SwitchesBody "bool \<times> bool"
  | AdminsBody "admin_account list"
  | AdminBody admin_account
  | WorkerBody worker_view
  | StateBody worker_state
  | ConfigBody cluster_config
  | StatusBody cluster_status_response
  | ModelsBody "(string \<times> string \<times> int \<times> bool) list"
  | InfoBody "string \<times> string \<times> int"
  | ClusterBody "string \<times> string \<times> cluster_status \<times> (string \<times> int option) list"
  | QueryBody query_answer
  | Admitted chat_entry

text \<open>A body that does not fit its schema never reaches the handler.\<close>

definition valid_body :: "request \<Rightarrow> bool" where
  "valid_body r = (case r of
     RegisterAccount u p \<Rightarrow> valid_register_account u p
   | ChangePassword _ _ new _ \<Rightarrow> valid_new_password new
   | CreateKey _ n sc _ \<Rightarrow> valid_create_key n sc
   | RegisterWorker b _ _ _ \<Rightarrow> valid_register_worker b
   | _ \<Rightarrow> True)"

definition answering :: "('a \<Rightarrow> answer) \<Rightarrow> (pool, 'a) act \<Rightarrow> (pool, answer) act" where
  "answering f m = bnd m (\<lambda>x. ret (f x))"

definition route :: "env \<Rightarrow> request \<Rightarrow> (pool, answer) act" where
  "route e r = (case r of
     RegisterAccount u p \<Rightarrow> answering AccountBody (register_account e u p)
   | Login u p \<Rightarrow> answering SessionBody (login e u p)
   | ChangePassword i cur new auth \<Rightarrow> answering (\<lambda>_. NoContent) (change_password e i cur new auth)
   | CreateKey i n sc auth \<Rightarrow> answering KeyBody (create_key e i n sc auth)
   | ListKeys i auth \<Rightarrow> answering KeysBody (list_keys e i auth)
   | RevokeKey i k auth \<Rightarrow> answering (\<lambda>_. NoContent) (revoke_key e i k auth)
   | AdminPermissions auth \<Rightarrow> answering SwitchesBody (admin_permission_state e auth)
   | AdminAccounts auth \<Rightarrow> answering AdminsBody (admin_list_accounts e auth)
   | AdminUpdate i adm w u b auth \<Rightarrow> answering AdminBody (admin_update_account e i adm w u b auth)
   | RegisterWorker b xff peer auth \<Rightarrow> answering WorkerBody (register_worker e b xff peer auth)
   | RevokeWorker i auth \<Rightarrow> answering (\<lambda>_. NoContent) (revoke_worker e i auth)
   | WorkerState i auth \<Rightarrow> answering StateBody (get_worker_state e i auth)
   | Heartbeat i auth \<Rightarrow> answering WorkerBody (heartbeat e i auth)
   | ClusterConfig i auth \<Rightarrow> answering ConfigBody (get_cluster_config e i auth)
   | ReportReady i windows auth \<Rightarrow> answering StatusBody (report_ready e i windows auth)
   | Models \<Rightarrow> answering ModelsBody (gets (list_models e))
   | WorkerInfo i \<Rightarrow> answering InfoBody (asks (worker_info i))
   | ClusterInfo i \<Rightarrow> answering ClusterBody (asks (cluster_info i))
   | AccountQuery i q auth \<Rightarrow> answering QueryBody (asks (answer_query e i q auth))
   | ChatCompletions auth \<Rightarrow> answering Admitted (chat_admit e auth))"

definition serve :: "env \<Rightarrow> request \<Rightarrow> (pool, answer) act" where
  "serve e r = (if valid_body r then route e r else throw RequestValidation)"

text \<open>
  A start of the process on the database as it is: the hub, the scheduled tasks, the sockets and all
  suspended coroutines are gone, the WireGuard keys are set up again, which may refuse the configured
  key, and the first account is bootstrapped.
\<close>

definition start_server :: "env \<Rightarrow> (pool, unit) act" where
  "start_server e =
     seqa (puts (\<lambda>s. s\<lparr>tasks := [], conns := [], accepting := [], socks := [], flights := [], admitted := [], calls := []\<rparr>))
    (seqa (wg_init e) (bootstrap_first_account e))"

section \<open>Runs\<close>

inductive step :: "env \<Rightarrow> pool \<Rightarrow> pool \<Rightarrow> bool" for e where
  request: "step e s (run_state (serve e r) s)"
| body: "p \<in> set (admitted s) \<Longrightarrow> step e s (run_state (chat_route e p b) s)"
| reply: "c \<in> set (calls s) \<Longrightarrow> step e s (run_state (chat_finish e c r) s)"
| socket_open: "ws \<notin> fst ` set (accepting s) \<Longrightarrow> ws \<notin> fst ` set (socks s) \<Longrightarrow> ws \<notin> fl_socket ` set (flights s) \<Longrightarrow>
    step e s (run_state (ws_open e ws wid q auth) s)"
| socket_accept: "step e s (run_state (ws_accepted e ws accepted) s)"
| socket_text: "step e s (run_state (ws_receive e ws msg pong_sent) s)"
| socket_close: "step e s (run_state (ws_close ws) s)"
| notify: "step e s (run_state run_next_task s)"
| sent: "fl \<in> set (flights s) \<Longrightarrow> step e s (run_state (hub_sent fl delivered) s)"
| sweep: "step e s (run_state (monitor_pass e) s)"
| restart: "step e s (run_state (start_server e) s)"
| tick: "step e s (s\<lparr>clock := now\<rparr>)"

inductive reachable :: "env \<Rightarrow> pool \<Rightarrow> pool \<Rightarrow> bool" for e s0 where
  initial: "reachable e s0 s0"
| extend: "reachable e s0 s \<Longrightarrow> step e s t \<Longrightarrow> reachable e s0 t"

section \<open>The invariants are kept in every run\<close>

text \<open>The two routes that change an account that is already there.\<close>

definition changes_account :: "request \<Rightarrow> bool" where
  "changes_account r \<longleftrightarrow> (case r of ChangePassword _ _ _ _ \<Rightarrow> True | AdminUpdate _ _ _ _ _ _ \<Rightarrow> True | _ \<Rightarrow> False)"

lemma keeps_answering: "keeps I m \<Longrightarrow> keeps I (answering f m)"
  unfolding answering_def by (intro keeps_intros)

lemma keeps_serve_route: "keeps I (route e r) \<Longrightarrow> keeps I (serve e r)"
  unfolding serve_def by (intro keeps_intros)

context steady
begin

lemmas route_keeps = keeps_register_account keeps_login keeps_create_key keeps_list_keys keeps_revoke_key
  keeps_admin_reads [THEN conjunct1] keeps_admin_reads [THEN conjunct2]
  keeps_register_worker keeps_revoke_worker keeps_worker_state keeps_heartbeat keeps_cluster_config keeps_report_ready
  keeps_chat_admit keeps_gets keeps_asks

lemma keeps_other_requests: "\<not> changes_account r \<Longrightarrow> keeps I (serve e r)"
  by (rule keeps_serve_route, cases r)
    (simp_all add: changes_account_def route_def keeps_answering route_keeps)

end

context kept
begin

lemma keeps_serve: "keeps I (serve e r)"
proof (cases "changes_account r")
  case True
  then show ?thesis
    by (intro keeps_serve_route, cases r)
      (simp_all add: changes_account_def route_def keeps_answering keeps_change_password keeps_admin_update)
qed (rule keeps_other_requests)

lemma keeps_start: "keeps I (start_server e)"
proof -
  have "keeps I (puts (\<lambda>s. s\<lparr>tasks := [], conns := [], accepting := [], socks := [], flights := [], admitted := [], calls := []\<rparr>))"
    by (rule frame_puts) (simp add: frame_ok_def same_tables_def conns_ok_def)
  then show ?thesis unfolding start_server_def by (intro keeps_intros keeps_bootstrap wg_frame [OF keeps_wg_init])
qed

lemmas step_keeps = keeps_serve keeps_chat_route keeps_chat_finish keeps_ws_open keeps_ws_accepted keeps_ws_receive
  keeps_ws_close keeps_next_task keeps_hub_sent keeps_monitor_pass keeps_start

lemma step_kept: "step e s t \<Longrightarrow> I s \<Longrightarrow> I t"
proof (induction rule: step.induct)
  case (tick s now)
  then show ?case by (rule framed) (simp add: frame_ok_def same_tables_def conns_ok_def)
qed (rule keepsD [OF keeps_serve] keepsD [OF keeps_chat_route] keepsD [OF keeps_chat_finish] keepsD [OF keeps_ws_open]
    keepsD [OF keeps_ws_accepted] keepsD [OF keeps_ws_receive] keepsD [OF keeps_ws_close] keepsD [OF keeps_next_task]
    keepsD [OF keeps_hub_sent] keepsD [OF keeps_monitor_pass] keepsD [OF keeps_start], assumption)+

lemma reachable_kept: "reachable e s0 s \<Longrightarrow> I s0 \<Longrightarrow> I s"
  by (induction rule: reachable.induct) (auto intro: step_kept)

end

section \<open>The two invariants\<close>

lemma good_spares: "good e s \<Longrightarrow> wp (update_account_permissions i adm w u b) (\<lambda>_. good e) (\<lambda>_. good e) s"
  by (rule keeps_wpD [OF good_permissions])

interpretation steady_good: kept e "good e" for e
proof unfold_locales
  show "good e s \<Longrightarrow> pool_ok s \<and> bindings_ok s" for s by (simp add: good_def)
qed (simp_all add: good_frame good_insert_account good_insert_api_key good_revoke good_bound good_admit good_with_worker
    good_delete good_form good_dissolve good_ready good_distribution good_log good_sweep good_set_password good_spares)

lemma keeps_both:
  assumes "keeps (good e) m" and "\<And>s. pool_ok s \<Longrightarrow> history s0 s \<Longrightarrow> wp m (\<lambda>_. history s0) (\<lambda>_. history s0) s"
  shows "keeps (\<lambda>s. good e s \<and> history s0 s) m"
proof (rule keepsI)
  fix s
  assume "good e s \<and> history s0 s"
  then show "wp m (\<lambda>_ s. good e s \<and> history s0 s) (\<lambda>_ s. good e s \<and> history s0 s) s"
    using keeps_wpD [OF assms(1)] assms(2) good_parts by (intro wp_conj) blast+
qed

lemma history_keys: "keeps (history s0) (insert_api_key r) \<and> keeps (history s0) (revoke_api_key i)"
  by (intro conjI keepsI) (auto simp: wp_simps count_admins_def elim: history_clusters)

interpretation history: kept e "\<lambda>s. good e s \<and> history s0 s" for e s0
proof (unfold_locales, goal_cases)
  case (1 s) then show ?case by (simp add: good_def)
next
  case (2 s t) then show ?case using good_frame history_frame by blast
next
  case (6 s k i) then show ?case using good_bound history_bound by blast
next
  case (7 s wr) then show ?case using good_admit keeps_wpD [OF history_admit] by (intro wp_conj) blast+
next
  case (8 s wr w0) then show ?case using good_with_worker history_with_worker by blast
next
  case (11 s cid c reason) then show ?case using good_dissolve history_dissolve good_parts by (intro wp_conj) blast+
next
  case (17 s i adm w u b)
  then have "accounts_ok s" using good_parts by (auto simp: schema_ok_def)
  then show ?case using 17 good_spares history_permissions by (intro wp_conj) blast+
next
  case (13 lw cid) then show ?case using good_distribution history_distribution by (intro keeps_both) blast+
qed (rule keeps_conj [OF good_insert_account history_insert_account]
    keeps_conj [OF good_insert_api_key history_keys [THEN conjunct1]] keeps_conj [OF good_revoke history_keys [THEN conjunct2]]
    keeps_conj [OF good_delete history_delete] keeps_conj [OF good_log history_log]
    keeps_conj [OF good_set_password history_set_password] keeps_both [OF good_form history_form]
    keeps_both [OF good_ready history_ready] keeps_both [OF good_sweep history_sweep]; assumption)+

section \<open>Who can change an account\<close>

text \<open>Every account of \<open>s0\<close> is still there as it was, and no new one is an admin.\<close>

definition rows_kept :: "pool \<Rightarrow> pool \<Rightarrow> bool" where
  "rows_kept s0 t \<longleftrightarrow> (\<forall>i a. get_account i s0 = Some a \<longrightarrow> get_account i t = Some a) \<and>
     (\<forall>a \<in> set (accounts t). a_is_admin a \<longrightarrow> get_account (a_account_id a) s0 = Some a)"

lemma rows_kept_refl: "accounts_ok s \<Longrightarrow> rows_kept s s"
  using account_table.get_row [of s] by (simp add: rows_kept_def accounts_ok_def)

lemma rows_kept_same: "rows_kept s0 s \<Longrightarrow> accounts t = accounts s \<Longrightarrow> rows_kept s0 t"
  by (simp add: rows_kept_def get_account_def)

lemma rows_kept_insert: "\<not> a_is_admin a \<Longrightarrow> keeps (rows_kept s0) (insert_account a)"
proof (rule keepsI)
  fix s
  assume a: "\<not> a_is_admin a" and s: "rows_kept s0 s"
  have "find P (xs @ ys) = Some x" if "find P xs = Some x" for P :: "account_rec \<Rightarrow> bool" and xs ys x
    using that by (induction xs) auto
  then have "rows_kept s0 (s\<lparr>accounts := accounts s @ [a]\<rparr>)"
    using s a by (auto simp: rows_kept_def get_account_def)
  then show "wp (insert_account a) (\<lambda>_. rows_kept s0) (\<lambda>_. rows_kept s0) s"
    using s by (simp add: wp_simps)
qed

lemma rows_both:
  assumes "keeps (good e) m" and "\<And>s. pool_ok s \<Longrightarrow> wp m (\<lambda>_ t. accounts t = accounts s) (\<lambda>_ t. accounts t = accounts s) s"
  shows "keeps (\<lambda>s. good e s \<and> rows_kept s0 s) m"
proof (rule keepsI)
  fix s
  assume s: "good e s \<and> rows_kept s0 s"
  have "wp m (\<lambda>_. good e) (\<lambda>_. good e) s" using keeps_wpD [OF assms(1)] s by blast
  moreover have "wp m (\<lambda>_ t. accounts t = accounts s) (\<lambda>_ t. accounts t = accounts s) s"
    using assms(2) s good_parts by blast
  ultimately have "wp m (\<lambda>_ t. good e t \<and> accounts t = accounts s) (\<lambda>_ t. good e t \<and> accounts t = accounts s) s"
    by (rule wp_conj)
  then show "wp m (\<lambda>_ s. good e s \<and> rows_kept s0 s) (\<lambda>_ s. good e s \<and> rows_kept s0 s) s"
    by (rule wp_conseq) (use s rows_kept_same in blast)+
qed

lemma accounts_form: "pool_ok s \<Longrightarrow> wp (form_cluster e m) (\<lambda>_ t. accounts t = accounts s) (\<lambda>_ t. accounts t = accounts s) s"
  by (rule wp_conseq [OF form_cluster_wp]) (auto simp: formed_def split: option.splits)

lemma accounts_dissolve:
  "pool_ok s \<Longrightarrow> get_cluster cid s = Some c \<Longrightarrow>
   wp (dissolve_cluster e c reason) (\<lambda>_ t. accounts t = accounts s) (\<lambda>_ t. accounts t = accounts s) s"
  by (rule wp_conseq [OF dissolve_wp]) (auto simp: dissolved_def pool_ok_def)

lemma accounts_check: "pool_ok s \<Longrightarrow> wp (check e) (\<lambda>_ t. accounts t = accounts s) (\<lambda>_ t. accounts t = accounts s) s"
  by (rule wp_conseq [OF check_wp]) (auto simp: swept_def)

lemma accounts_ready:
  "pool_ok (s :: pool) \<Longrightarrow> wp (mark_member_ready cid wid) (\<lambda>_ t. accounts t = accounts s) (\<lambda>_ t. accounts t = accounts s) s"
  by (rule wp_conseq [OF ready_report]) (auto simp: same_people_def)

lemma accounts_windows:
  "report_ok lw \<Longrightarrow> pool_ok (s :: pool) \<Longrightarrow>
   wp (set_cluster_distribution cid (Some lw)) (\<lambda>_ t. accounts t = accounts s) (\<lambda>_ t. accounts t = accounts s) s"
  by (rule wp_conseq [OF distribution_report]) (auto simp: same_people_def)

lemma accounts_rows:
  "wp (insert_api_key r) (\<lambda>_ t. accounts t = accounts s) (\<lambda>_ t. accounts t = accounts s) s"
  "wp (revoke_api_key i) (\<lambda>_ t. accounts t = accounts s) (\<lambda>_ t. accounts t = accounts s) s"
  "wp (delete_worker i) (\<lambda>_ t. accounts t = accounts s) (\<lambda>_ t. accounts t = accounts s) s"
  "wp (record_request q) (\<lambda>_ t. accounts t = accounts s) (\<lambda>_ t. accounts t = accounts s) s"
  "wp (create_worker_if_available w n) (\<lambda>_ t. accounts t = accounts s) (\<lambda>_ t. accounts t = accounts s) s"
  by (simp_all add: wp_simps create_worker_if_available_def) (simp add: record_request_def wp_def)

interpretation ordinary: steady e "\<lambda>s. good e s \<and> rows_kept s0 s" for e s0
proof (unfold_locales, goal_cases)
  case (1 s) then show ?case by (simp add: good_def)
next
  case (2 s t)
  then have "accounts t = accounts s" by (simp add: frame_ok_def same_tables_def)
  then show ?case using 2 good_frame rows_kept_same by blast
next
  case (3 a) then show ?case by (intro keeps_conj good_insert_account rows_kept_insert)
next
  case (6 s k i)
  have "accounts (bound_to k i s) = accounts s" by (simp add: bound_to_def)
  then show ?case using 6 good_bound rows_kept_same by blast
next
  case (7 s wr)
  from 7 have "wp (create_worker_if_available wr (max_workers_per_account (cfg e))) (\<lambda>_ t. good e t \<and> accounts t = accounts s)
      (\<lambda>_ t. good e t \<and> accounts t = accounts s) s"
    by (intro wp_conj good_admit accounts_rows) blast+
  then show ?case by (rule wp_conseq) (use 7 rows_kept_same in blast)+
next
  case (8 s wr w0)
  have "accounts (with_worker wr s) = accounts s" by (simp add: with_worker_def)
  then show ?case using 8 good_with_worker rows_kept_same by blast
next
  case (11 s cid c reason)
  then have "wp (dissolve_cluster e c reason) (\<lambda>_ t. good e t \<and> accounts t = accounts s) (\<lambda>_ t. good e t \<and> accounts t = accounts s) s"
    using good_parts by (intro wp_conj good_dissolve accounts_dissolve) blast+
  then show ?case by (rule wp_conseq) (use 11 rows_kept_same in blast)+
next
  case (12 cid wid) show ?case by (rule rows_both [OF good_ready accounts_ready])
next
  case (13 lw cid) then show ?case by (intro rows_both good_distribution accounts_windows)
next
  case (14 q) show ?case by (rule rows_both [OF good_log accounts_rows(4)])
next
  case 15 show ?case by (rule rows_both [OF good_sweep accounts_check])
qed (rule rows_both [OF good_insert_api_key accounts_rows(1)] rows_both [OF good_revoke accounts_rows(2)]
    rows_both [OF good_delete accounts_rows(3)] rows_both [OF good_form accounts_form])+

section \<open>Properties of every run\<close>

lemma blank_good:
  assumes "accounts s = []" and "api_keys s = []" and "workers s = []" and "clusters s = []" and "cluster_members s = []"
    and "requests s = []" and "conns s = []"
  shows "good e s"
proof -
  have "get_cluster i s = None" for i by (rule no_clusters) (rule assms)
  then show ?thesis
    using assms by (simp add: good_def pool_ok_def store_ok_def schema_ok_def table_oks ring_ok_def subnets_ok_def
        assign_ok_def bindings_ok_def quota_ok_def list_workers_for_account_def conns_ok_def)
qed

text \<open>What the tables are in every run.\<close>

lemma good_demo: "good demo_env demo_pool"
  using demo_pool_ok by (simp add: good_def bindings_ok_def quota_ok_def conns_ok_def list_workers_for_account_def)
    (simp add: demo_pool_def demo_worker_def demo_env_def demo_settings_def)

lemma good_seated: "good demo_env seated_pool"
  using seated_pool_ok by (simp add: good_def bindings_ok_def quota_ok_def conns_ok_def list_workers_for_account_def)
    (simp add: seated_pool_def demo_pool_def demo_worker_def demo_env_def demo_settings_def assigned_worker_def)

lemma swept_reachable: "reachable e s (run_state (monitor_pass e) (s\<lparr>clock := now\<rparr>))"
  by (rule reachable.extend [OF reachable.extend [OF reachable.initial step.tick] step.sweep])

text \<open>C29: The type of the database holds in every run: from a pool that satisfies it, the empty database
  in particular, whatever requests, replies, WebSocket messages, notifications, monitor passes, restarts
  and clock changes happen in whatever order, ids, user names, key hashes and ring positions stay unique,
  every reference points to a row, the memory sizes, layer windows and token counts, which the clients
  choose, fit into SQLite's 64 bits and windows are not negative, and a key is bound to a worker of its
  own account only.\<close>

theorem reachable_schema:
  assumes "good e s0" and "reachable e s0 s"
  shows "schema_ok s \<and> (\<forall>r \<in> set (api_keys s). \<forall>i. k_worker_id r = Some i \<longrightarrow>
    (\<exists>w. get_worker i s = Some w \<and> w_account_id w = k_account_id r))"
proof -
  have "good e s" by (rule steady_good.reachable_kept [OF assms(2,1)])
  then have "schema_ok s" "bindings_ok s" using good_parts by blast+
  then show ?thesis unfolding bindings_ok_def by simp
qed

theorem reachable_schema_witness: "schema_ok (run_state (monitor_pass demo_env) (seated_pool\<lparr>clock := 500\<rparr>))"
  using reachable_schema [OF good_seated swept_reachable] by blast

text \<open>C3: In every run the seats agree with the rings: a worker that points at a cluster is a member of it,
  at the ring position and with the address that its own row names, and that cluster is not terminated; an
  assigned worker points at a cluster; and two clusters that are not terminated never share a subnet.\<close>

theorem reachable_seats:
  assumes "good e s0" and "reachable e s0 s"
  shows "(\<forall>w \<in> set (workers s). \<forall>cid. w_cluster_id w = Some cid \<longrightarrow>
       (\<exists>c i. get_cluster cid s = Some c \<and> c_status c \<noteq> terminated \<and> i < length (c_members c) \<and>
          c_members c ! i = w_worker_id w \<and> w_ring_position w = Some i \<and> w_assigned_ip w = map_of (c_ips c) (w_worker_id w))) \<and>
    (\<forall>w \<in> set (workers s). w_status w = assigned \<longrightarrow> w_cluster_id w \<noteq> None) \<and>
    (\<forall>i j c d. get_cluster i s = Some c \<and> get_cluster j s = Some d \<and> c_status c \<noteq> terminated \<and>
       c_status d \<noteq> terminated \<and> c_subnet c = c_subnet d \<longrightarrow> i = j)"
proof -
  have "pool_ok s" using steady_good.reachable_kept [OF assms(2,1)] good_parts by blast
  then show ?thesis unfolding pool_ok_def assign_ok_def seat_ok_def subnets_ok_def by blast
qed

theorem reachable_seats_witness:
  "\<exists>c i. get_cluster ''clu_1'' (seated_pool\<lparr>clock := 110\<rparr>) = Some c \<and> i < length (c_members c) \<and>
     c_members c ! i = ''b'' \<and> map_of (c_ips c) ''b'' = Some ''10.23.1.2''"
proof -
  let ?w = "assigned_worker ''clu_1'' [''10.23.1.1'', ''10.23.1.2''] (1, demo_worker ''b'' 1)"
  have "reachable demo_env seated_pool (seated_pool\<lparr>clock := 110\<rparr>)"
    by (rule reachable.extend [OF reachable.initial step.tick])
  note seats = reachable_seats [OF good_seated this, THEN conjunct1, rule_format, of ?w "''clu_1''"]
  have "?w \<in> set (workers (seated_pool\<lparr>clock := 110\<rparr>))" by (simp add: seated_pool_def)
  moreover have "w_cluster_id ?w = Some ''clu_1''" "w_worker_id ?w = ''b''" "w_assigned_ip ?w = Some ''10.23.1.2''"
    by (simp_all add: assigned_worker_def demo_worker_def)
  ultimately show ?thesis using seats by auto
qed

text \<open>C30: In every run no account has more workers than the configured maximum, and no two of its workers
  are the same device; and no worker is ever in the status \<open>registered\<close>.\<close>

theorem reachable_quota:
  assumes "good e s0" and "reachable e s0 s"
  shows "int (length (list_workers_for_account a s)) \<le> max 0 (max_workers_per_account (cfg e)) \<and>
    distinct (map w_wg_pubkey (list_workers_for_account a s)) \<and> (\<forall>w \<in> set (workers s). w_status w \<noteq> registered)"
  using steady_good.reachable_kept [OF assms(2,1)] by (simp add: good_def quota_ok_def list_all_iff)

theorem reachable_quota_witness:
  "int (length (list_workers_for_account ''acc_1'' (run_state (monitor_pass demo_env) (seated_pool\<lparr>clock := 500\<rparr>)))) \<le> 5"
  using conjunct1 [OF reachable_quota [OF good_seated swept_reachable, of "''acc_1''" 500]]
  by (simp add: demo_env_def demo_settings_def)

text \<open>C5: No run loses history: every cluster is still there later, with the same model, subnet, ring and
  addresses, its status only moved forward, its readiness and its reported flag never taken back, and
  frozen once it is terminated. And a pool that has an admin keeps one.\<close>

theorem reachable_history:
  assumes "good e s0" and "reachable e s0 s"
  shows "(\<forall>cid c. get_cluster cid s0 = Some c \<longrightarrow> (\<exists>d. get_cluster cid s = Some d \<and> evolve_rec c d)) \<and>
    (0 < count_admins s0 \<longrightarrow> 0 < count_admins s)"
proof -
  have "history s0 s0" by (simp add: history_def since_refl)
  then have "history s0 s" using history.reachable_kept [OF assms(2)] assms(1) by blast
  then show ?thesis by (simp add: history_def since_def)
qed

theorem reachable_history_witness:
  "\<exists>d. get_cluster ''clu_1'' (run_state (monitor_pass demo_env) (seated_pool\<lparr>clock := 500\<rparr>)) = Some d \<and> evolve_rec demo_cluster d"
  using reachable_history [OF good_seated swept_reachable] get_seated [of "''clu_1''"] by auto

section \<open>Who can change an account: the property\<close>

lemma run_answering [simp]: "run_state (answering f m) s = run_state m s"
  by (simp add: answering_def bnd_def ret_def run_state_def split: prod.split sum.split)

lemma run_serve: "run_state (serve e r) s = (if valid_body r then run_state (route e r) s else s)"
  by (simp add: serve_def run_state_def throw_def)

text \<open>What the two remaining routes do to an account.\<close>

definition account_change :: "env \<Rightarrow> request \<Rightarrow> string \<Rightarrow> account_rec \<Rightarrow> pool \<Rightarrow> bool" where
  "account_change e r i a s \<longleftrightarrow> (case r of
     ChangePassword j cur _ auth \<Rightarrow> j = i \<and> session_account e auth s = Inr i \<and>
       verify_password (prim e) cur (a_password_hash a) = Inr True
   | AdminUpdate j _ _ _ _ auth \<Rightarrow> j = i \<and> (\<exists>x. require_admin e auth s = Inr x)
   | _ \<Rightarrow> False)"

definition authorised :: "env \<Rightarrow> request \<Rightarrow> pool \<Rightarrow> pool \<Rightarrow> bool" where
  "authorised e r s t \<longleftrightarrow> map a_account_id (accounts t) = map a_account_id (accounts s) \<and>
     (\<forall>i a. get_account i s = Some a \<and> get_account i t \<noteq> Some a \<longrightarrow> account_change e r i a s)"

lemma authorised_same: "accounts t = accounts s \<Longrightarrow> authorised e r s t"
  by (simp add: authorised_def get_account_def)

lemma authorised_update:
  assumes "accounts t = map (\<lambda>a. if a_account_id a = j then f a else a) (accounts s)"
    and "\<And>a. a_account_id (f a) = a_account_id a" and "\<And>a. get_account j s = Some a \<Longrightarrow> account_change e r j a s"
  shows "authorised e r s t"
proof -
  have "get_account i t = get_account i s" if "i \<noteq> j" for i
    using account_table.get_update [of t j f s i] assms(1,2) that by simp
  moreover have "map a_account_id (accounts t) = map a_account_id (accounts s)"
    using assms(1,2) by (simp add: map_key_update del: map_map)
  ultimately show ?thesis using assms(3) unfolding authorised_def by metis
qed

lemma password_authorised:
  "wp (change_password e i cur new auth) (\<lambda>_. authorised e (ChangePassword i cur new auth) s)
     (\<lambda>_. authorised e (ChangePassword i cur new auth) s) s"
proof -
  let ?r = "ChangePassword i cur new auth"
  have upd: "authorised e ?r s (s\<lparr>rnd_used := n, accounts := map (\<lambda>a. if a_account_id a = i then a\<lparr>a_password_hash := h\<rparr> else a) (accounts s)\<rparr>)"
    if "session_account e auth s = Inr i" "get_account i s = Some a" "verify_password (prim e) cur (a_password_hash a) = Inr True"
    for a n h
    by (rule authorised_update [where j = i and f = "\<lambda>a. a\<lparr>a_password_hash := h\<rparr>"]) (use that in \<open>simp_all add: account_change_def\<close>)
  have same: "authorised e ?r s (s\<lparr>rnd_used := n\<rparr>)" "authorised e ?r s s" for n by (simp_all add: authorised_same)
  show ?thesis
    unfolding change_password_def
    by (auto simp: wp_simps hash_password_def set_password_def upd same split: sum.split option.split)
qed

lemma admin_authorised:
  "wp (admin_update_account e i adm w u b auth) (\<lambda>_. authorised e (AdminUpdate i adm w u b auth) s)
     (\<lambda>_. authorised e (AdminUpdate i adm w u b auth) s) s"
proof -
  let ?r = "AdminUpdate i adm w u b auth"
  have same: "authorised e ?r s s" by (simp add: authorised_same)
  have upd: "wp (update_account_permissions i adm w u b) (\<lambda>_. authorised e ?r s) (\<lambda>_. authorised e ?r s) s"
    if "require_admin e auth s = Inr x" for x
    unfolding update_account_permissions_def
    using same that by (auto simp: wp_simps account_change_def intro!: authorised_update [where j = i])
  have rest: "keeps (authorised e ?r s) (bnd (gets (get_account i)) (\<lambda>updated. case updated of None \<Rightarrow> throw AttributeError
                | Some a \<Rightarrow> gets (\<lambda>s. admin_account_view e s a)))" by (intro keeps_intros)
  have "wp (bnd (update_account_permissions i adm w u b) (\<lambda>_. bnd (gets (get_account i)) (\<lambda>updated. case updated of None \<Rightarrow> throw AttributeError
                | Some a \<Rightarrow> gets (\<lambda>s. admin_account_view e s a)))) (\<lambda>_. authorised e ?r s) (\<lambda>_. authorised e ?r s) s"
    if "require_admin e auth s = Inr x" for x
    unfolding wp_bnd [of "update_account_permissions _ _ _ _ _"]
    by (rule wp_conseq [OF upd [OF that]]) (erule keeps_wpD [OF rest], assumption)
  then show ?thesis
    using same unfolding admin_update_account_def
    by (auto simp: wp_asks wp_bnd [of "asks _"] wp_bnd [of "gets _"] wp_gets wp_throw split: option.split sum.split)
qed

text \<open>C28: No request escalates: a request only changes an account that is already there when it is the password
  change of that account, with a session of it and its current password, or an update of that account
  with the session of an admin. And no request creates an account that is an admin.\<close>

theorem account_authority:
  assumes "good e s" and "t = run_state (serve e r) s"
  shows "(\<forall>i a. get_account i s = Some a \<and> get_account i t \<noteq> Some a \<longrightarrow>
      (case r of
         ChangePassword j cur _ auth \<Rightarrow> j = i \<and> session_account e auth s = Inr i \<and>
           verify_password (prim e) cur (a_password_hash a) = Inr True
       | AdminUpdate j _ _ _ _ auth \<Rightarrow> j = i \<and> (\<exists>x. require_admin e auth s = Inr x)
       | _ \<Rightarrow> False)) \<and>
    (\<forall>a \<in> set (accounts t). a_is_admin a \<longrightarrow> a_account_id a \<in> account_ids s)"
proof (cases "changes_account r")
  case False
  have "rows_kept s s" using rows_kept_refl good_parts [OF assms(1)] by (simp add: schema_ok_def)
  then have "rows_kept s t"
    using keepsD [OF ordinary.keeps_other_requests [OF False], of e s s] assms by simp
  then have "\<forall>i a. get_account i s = Some a \<longrightarrow> get_account i t = Some a" "\<forall>a \<in> set (accounts t). a_is_admin a \<longrightarrow> get_account (a_account_id a) s = Some a"
    unfolding rows_kept_def by blast+
  moreover have "a_account_id a \<in> account_ids s" if "get_account (a_account_id a) s = Some a" for a
    using account_table.get_in [OF that] by (auto simp: account_ids_def)
  ultimately show ?thesis by blast
next
  case True
  have "wp (route e r) (\<lambda>_. authorised e r s) (\<lambda>_. authorised e r s) s"
    using True unfolding wp_state
    by (cases r) (simp_all add: changes_account_def route_def password_authorised admin_authorised flip: wp_state)
  then have "authorised e r s t" using assms(2) authorised_same by (simp add: run_serve wp_state)
  then have ids: "map a_account_id (accounts t) = map a_account_id (accounts s)"
    and ch: "\<forall>i a. get_account i s = Some a \<and> get_account i t \<noteq> Some a \<longrightarrow> account_change e r i a s"
    unfolding authorised_def by blast+
  have "account_ids t = account_ids s" using arg_cong [OF ids, of set] by (simp add: account_ids_def)
  then show ?thesis using ch unfolding account_change_def account_ids_def by blast
qed

theorem account_authority_witness:
  "get_account ''acc_1'' (run_state (serve demo_env (RegisterAccount ''bob'' ''long password'')) demo_pool) = Some demo_account"
proof -
  have "get_account ''acc_1'' demo_pool = Some demo_account"
    by (simp add: get_account_def demo_pool_def demo_account_def)
  then show ?thesis
    using account_authority [OF good_demo refl, of "RegisterAccount ''bob'' ''long password''", THEN conjunct1, rule_format,
        of "''acc_1''" demo_account] by auto
qed

section \<open>Who reaches a head\<close>


lemma good_chat_pool: "good chat_env chat_pool"
proof -
  have get: "get_worker i chat_pool = get_worker i seated_pool" "workers chat_pool = workers seated_pool" for i
    by (simp_all add: get_worker_def chat_pool_def live_pool_def)
  have ids: "cluster_ids chat_pool = {''clu_1''}"
    by (simp add: chat_pool_def live_pool_def cluster_ids_def cluster_to_row_def demo_cluster_def)
  have "get_cluster ''clu_1'' live_pool =
      Some (demo_cluster\<lparr>c_status := live, c_ready := {''a'', ''b''}, c_layer_windows := Some []\<rparr>)"
    using live_route [OF live_pool_ok live_pool_route] by (simp add: demo_cluster_def)
  moreover have "get_cluster i chat_pool = get_cluster i live_pool" for i
    by (rule get_cluster_cong) (simp_all add: chat_pool_def)
  ultimately have clu: "get_cluster ''clu_1'' chat_pool =
      Some (demo_cluster\<lparr>c_status := live, c_ready := {''a'', ''b''}, c_layer_windows := Some []\<rparr>)" by simp
  have "assign_ok chat_pool"
    unfolding assign_ok_def seat_ok_def get
    by (simp add: seated_pool_def demo_pool_def assigned_worker_def demo_worker_def clu) (simp add: demo_cluster_def)
  moreover have "i = ''clu_1''" if "get_cluster i chat_pool = Some c" for i c
    by (rule get_cluster_row [OF that]) (use ids in \<open>auto simp: cluster_ids_def\<close>)
  then have "subnets_ok chat_pool" unfolding subnets_ok_def by blast
  ultimately show ?thesis
    using chat_pool_ok by (simp add: good_def pool_ok_def bindings_ok_def quota_ok_def conns_ok_def list_workers_for_account_def)
      (simp add: chat_pool_def live_pool_def seated_pool_def demo_pool_def demo_worker_def chat_env_def demo_env_def
        demo_settings_def assigned_worker_def auth_pool_def get_worker_def)
qed


section \<open>Formation comes to an end\<close>

lemma eligible_less:
  assumes "\<And>w. w \<in> set ws \<Longrightarrow> P (f w) \<Longrightarrow> P w" and "w \<in> set ws" and "P w" and "\<not> P (f w)"
  shows "length (filter P (map f ws)) < length (filter P ws)"
proof -
  have le: "length (filter P (map f xs)) \<le> length (filter P xs)" if "set xs \<subseteq> set ws" for xs
    using that assms(1) by (induction xs) auto
  obtain xs ys where ws: "ws = xs @ w # ys" using assms(2) by (meson split_list)
  then have "length (filter P (map f xs)) \<le> length (filter P xs)" "length (filter P (map f ys)) \<le> length (filter P ys)"
    by (intro le; auto)+
  then show ?thesis using ws assms(3,4) by simp
qed

lemma formed_waitlist:
  assumes f: "formed e model s c t" and md: "map_of (models (cfg e)) model = Some md"
  shows "length (waitlist model (md_gguf_sha256 md) t) < length (waitlist model (md_gguf_sha256 md) s)"
proof -
  obtain chosen tot ips where ch: "choose_members (md_required_memory_mb md) 0 (waitlist model (md_gguf_sha256 md) s) = (chosen, tot)"
    and ne: "chosen \<noteq> []"
    and ws: "workers t = write_all (map (assigned_worker (c_cluster_id c) ips) (List.enumerate 0 chosen)) (workers s)"
    and now: "clock t = clock s"
    using f md unfolding formed_def same_sessions_def by auto
  let ?rs = "map (assigned_worker (c_cluster_id c) ips) (List.enumerate 0 chosen)"
  let ?f = "\<lambda>w. case find (\<lambda>r. w_worker_id r = w_worker_id w) ?rs of None \<Rightarrow> w | Some r \<Rightarrow> r"
  let ?P = "eligible model (md_gguf_sha256 md) (clock s)"
  have taken: "w_status r = assigned" if "r \<in> set ?rs" for r using that by (auto simp: assigned_worker_def)
  have same: "?f w = w \<or> \<not> ?P (?f w)" for w
  proof (cases "find (\<lambda>r. w_worker_id r = w_worker_id w) ?rs")
    case (Some r)
    then show ?thesis using find_Some_in [OF Some] taken [of r] by (simp add: eligible_def)
  qed simp
  obtain w cs where w: "chosen = w # cs" using ne by (cases chosen) auto
  obtain rest where "waitlist model (md_gguf_sha256 md) s = chosen @ rest" using choose_prefix [OF ch] by blast
  then have "w \<in> set (waitlist model (md_gguf_sha256 md) s)" using w by simp
  then have win: "w \<in> set (workers s)" "?P w" using waitlist_in by blast+
  have "find (\<lambda>r. w_worker_id r = w_worker_id w) ?rs = Some (assigned_worker (c_cluster_id c) ips (0, w))"
    by (simp add: w assigned_worker_def)
  then have out: "\<not> ?P (?f w)" by (simp add: eligible_def assigned_worker_def)
  have "length (filter ?P (map ?f (workers s))) < length (filter ?P (workers s))"
  proof (rule eligible_less [where w = w])
    fix x
    assume "?P (?f x)"
    then show "?P x" using same [of x] by metis
  qed (rule win out)+
  then show ?thesis using ws now by (simp add: waitlist_def list_workers_def write_all_def)
qed

text \<open>C31: Forming clusters of a model comes to an end: each formation takes at least one worker off the
  waitlist, so after at most as many formations as there are workers waiting for the model, the next
  attempt forms nothing.\<close>

theorem formation_settles:
  assumes "pool_ok s" and "map_of (models (cfg e)) model = Some md"
  shows "\<exists>n \<le> length (waitlist model (md_gguf_sha256 md) s).
    \<forall>c. fst (form_cluster e model ((run_state (form_cluster e model) ^^ n) s)) \<noteq> Inr (Some c)"
  using assms(1)
proof (induction "length (waitlist model (md_gguf_sha256 md) s)" arbitrary: s rule: less_induct)
  case (less s)
  let ?t = "run_state (form_cluster e model) s"
  show ?case
  proof (cases "\<exists>c. fst (form_cluster e model s) = Inr (Some c)")
    case True
    then obtain c where "form_cluster e model s = (Inr (Some c), ?t)"
      by (metis prod.collapse run_state_def)
    from wp_Inr_D [OF form_cluster_wp [OF less.prems] this] have f: "formed e model s c ?t" by simp
    have "length (waitlist model (md_gguf_sha256 md) ?t) < length (waitlist model (md_gguf_sha256 md) s)"
      by (rule formed_waitlist [OF f assms(2)])
    moreover obtain n where "n \<le> length (waitlist model (md_gguf_sha256 md) ?t)"
      "\<forall>c. fst (form_cluster e model ((run_state (form_cluster e model) ^^ n) ?t)) \<noteq> Inr (Some c)"
      using less.hyps [OF calculation formed_pool_ok [OF less.prems f]] by blast
    ultimately show ?thesis by (intro exI [of _ "Suc n"]) (simp add: funpow_swap1)
  qed (auto intro!: exI [of _ 0])
qed

theorem formation_settles_witness:
  "\<exists>n \<le> 3. \<forall>c. fst (form_cluster demo_env ''m'' ((run_state (form_cluster demo_env ''m'') ^^ n) demo_pool)) \<noteq> Inr (Some c)"
proof -
  let ?md = "\<lparr>md_slug = ''m'', md_gguf_sha256 = ''h'', md_required_memory_mb = 16\<rparr>"
  have "map_of (models (cfg demo_env)) ''m'' = Some ?md" by (simp add: demo_env_def demo_settings_def)
  from formation_settles [OF demo_pool_ok this] show ?thesis by (simp add: demo_waitlist numeral_3_eq_3)
qed

end
