(* ===== verification/Pool_Migration.thy ===== *)
theory Pool_Migration
  imports Pool_Rings
begin

text \<open>
  store.py: \<open>_migrate_schema\<close>, which brings an existing database up to date. The catalogue is a list of
  column names per table; the four JSON columns that version 0.6 replaces by the junction table are
  kept beside the rows, by cluster id. What \<open>json.loads\<close> makes of a text is the content of the column:
  the columns hold lists of strings, and objects from strings to strings or to counts.
\<close>

section \<open>The old database\<close>

text \<open>
  A column that is NULL (or, where \<open>or\<close> replaces it, empty), the text \<open>null\<close>, a text that is not JSON (an
  empty \<open>layer_windows_json\<close> is one), a document.
\<close>

datatype 'a doc = Absent | Null_text | Broken | Doc 'a

record old_db = db +
  account_cols :: "string list"
  key_cols :: "string list"
  cluster_cols :: "string list"
  members_json :: "string \<Rightarrow> string list doc"
  ready_json :: "string \<Rightarrow> string list doc"
  ips_json :: "string \<Rightarrow> string dict doc"
  layer_windows_json :: "string \<Rightarrow> int option dict doc"

definition json_columns :: "string list" where
  "json_columns = [''members_json'', ''ready_json'', ''ips_json'', ''layer_windows_json'']"

section \<open>From JSON to rows\<close>

text \<open>\<open>enumerate(members)\<close>: the document \<open>null\<close> cannot be iterated.\<close>

definition members_of :: "string list doc \<Rightarrow> exn + string list" where
  "members_of d = (case d of Null_text \<Rightarrow> Inl TypeError | Doc ms \<Rightarrow> Inr ms | _ \<Rightarrow> Inr [])"

definition content :: "'a \<Rightarrow> 'a doc \<Rightarrow> 'a" where
  "content dflt d = (case d of Doc x \<Rightarrow> x | _ \<Rightarrow> dflt)"

definition windows_doc :: "int option dict doc \<Rightarrow> int option dict option" where
  "windows_doc d = (case d of Doc w \<Rightarrow> Some w | _ \<Rightarrow> None)"

text \<open>
  \<open>INSERT OR IGNORE INTO cluster_members\<close>: a row that violates the primary key, the unique ring position or
  the check on the window is skipped; a missing cluster or a number out of range is not ignored.
\<close>

definition insert_or_ignore :: "member_row \<Rightarrow> ('z db_scheme, unit) act" where
  "insert_or_ignore m = (\<lambda>s.
     if \<not> (case cm_layer_window m of None \<Rightarrow> True | Some n \<Rightarrow> sql_int n) then (Inl OverflowError, s)
     else if \<not> (case cm_layer_window m of None \<Rightarrow> True | Some n \<Rightarrow> 0 \<le> n)
        \<or> (\<exists>x \<in> set (cluster_members s). same_member x m \<or>
              cm_cluster_id x = cm_cluster_id m \<and> cm_ring_position x = cm_ring_position m)
     then (Inr (), s)
     else if cm_cluster_id m \<notin> cluster_ids s then (Inl IntegrityError, s)
     else (Inr (), s\<lparr>cluster_members := cluster_members s @ [m]\<rparr>))"

definition legacy_member ::
  "string \<Rightarrow> string list \<Rightarrow> string dict \<Rightarrow> int option dict option \<Rightarrow> nat \<times> string \<Rightarrow> member_row" where
  "legacy_member cid ready ips lw = (\<lambda>(i, wid). \<lparr>cm_cluster_id = cid, cm_worker_id = wid, cm_ring_position = i,
     cm_assigned_ip = map_of ips wid, cm_ready = (wid \<in> set ready),
     cm_layer_window = (case lw of None \<Rightarrow> None
       | Some d \<Rightarrow> (case map_of d wid of None \<Rightarrow> None | Some n \<Rightarrow> n))\<rparr>)"

definition populate_row :: "string \<Rightarrow> (old_db, unit) act" where
  "populate_row cid =
     bnd (gets (\<lambda>s. content [] (ready_json s cid))) (\<lambda>ready.
     bnd (gets (\<lambda>s. content [] (ips_json s cid))) (\<lambda>ips.
     bnd (gets (\<lambda>s. windows_doc (layer_windows_json s cid))) (\<lambda>lw.
     bnd (asks (\<lambda>s. members_of (members_json s cid))) (\<lambda>members.
     seqa (for_each (\<lambda>p. insert_or_ignore (legacy_member cid ready ips lw p)) (List.enumerate 0 members))
       (if lw \<noteq> None then update_cluster_rows cid (\<lambda>r. r\<lparr>cr_distribution_reported := True\<rparr>) else ret ())))))"

text \<open>The SELECT names all four columns.\<close>

definition populate_cluster_members :: "(old_db, unit) act" where
  "populate_cluster_members =
     bnd (gets cluster_cols) (\<lambda>cols.
     if \<not> set json_columns \<subseteq> set cols then throw OperationalError
     else bnd (gets clusters) (\<lambda>rs. for_each (\<lambda>r. populate_row (cr_cluster_id r)) rs))"

definition drop_json_columns :: "(old_db, unit) act" where
  "drop_json_columns = puts (\<lambda>s. s\<lparr>cluster_cols := filter (\<lambda>c. c \<notin> set json_columns) (cluster_cols s),
     members_json := (\<lambda>_. Absent), ready_json := (\<lambda>_. Absent), ips_json := (\<lambda>_. Absent),
     layer_windows_json := (\<lambda>_. Absent)\<rparr>)"

section \<open>The steps of the migration\<close>

text \<open>Version 0.4: \<open>api_keys.worker_id\<close>.\<close>

definition migrate_keys :: "(old_db, unit) act" where
  "migrate_keys = bnd (gets key_cols) (\<lambda>cols.
     if ''worker_id'' \<in> set cols then ret ()
     else puts (\<lambda>s. s\<lparr>key_cols := key_cols s @ [''worker_id''],
            api_keys := map (\<lambda>r. r\<lparr>k_worker_id := None\<rparr>) (api_keys s)\<rparr>))"

text \<open>\<open>UPDATE clusters SET layer_windows_json = '{}' WHERE status = 'live' AND layer_windows_json IS NULL\<close>.\<close>

definition backfill_live :: "(old_db, unit) act" where
  "backfill_live = puts (\<lambda>s. s\<lparr>layer_windows_json := (\<lambda>cid.
     if layer_windows_json s cid = Absent \<and> (\<exists>r \<in> set (clusters s). cr_cluster_id r = cid \<and> cr_status r = live)
     then Doc [] else layer_windows_json s cid)\<rparr>)"

text \<open>
  Versions 0.5 and 0.6: the layer windows, then the junction table. The UPDATE opens the transaction of the
  connection: from there on a failure rolls everything back, a column added before it stays.
\<close>

definition migrate_clusters :: "(old_db, unit) act" where
  "migrate_clusters = bnd (gets cluster_cols) (\<lambda>cols.
     if ''members_json'' \<notin> set cols then ret ()
     else
       seqa (if ''layer_windows_json'' \<in> set cols then ret ()
             else puts (\<lambda>s. s\<lparr>cluster_cols := cluster_cols s @ [''layer_windows_json''],
                    layer_windows_json := (\<lambda>_. Absent)\<rparr>))
      (atomic (seqa backfill_live
      (seqa (if ''distribution_reported'' \<in> set cols then ret ()
             else puts (\<lambda>s. s\<lparr>cluster_cols := cluster_cols s @ [''distribution_reported''],
                    clusters := map (\<lambda>r. r\<lparr>cr_distribution_reported := False\<rparr>) (clusters s)\<rparr>))
      (seqa populate_cluster_members drop_json_columns)))))"

text \<open>Version 0.7: the four flags of an account, with the defaults of an open pool.\<close>

definition add_account_column :: "string \<Rightarrow> (account_rec \<Rightarrow> account_rec) \<Rightarrow> string list \<Rightarrow> (old_db, unit) act" where
  "add_account_column c f cols =
     (if c \<in> set cols then ret ()
      else puts (\<lambda>s. s\<lparr>account_cols := account_cols s @ [c], accounts := map f (accounts s)\<rparr>))"

definition migrate_accounts :: "(old_db, unit) act" where
  "migrate_accounts = bnd (gets account_cols) (\<lambda>cols.
     seqa (add_account_column ''is_admin'' (\<lambda>a. a\<lparr>a_is_admin := False\<rparr>) cols)
    (seqa (add_account_column ''can_work'' (\<lambda>a. a\<lparr>a_can_work := True\<rparr>) cols)
    (seqa (add_account_column ''can_use'' (\<lambda>a. a\<lparr>a_can_use := True\<rparr>) cols)
          (add_account_column ''banned'' (\<lambda>a. a\<lparr>a_banned := False\<rparr>) cols))))"

text \<open>\<open>_row_to_account\<close>: a reader that tolerates the missing columns.\<close>

definition row_to_account :: "string list \<Rightarrow> account_rec \<Rightarrow> account_rec" where
  "row_to_account cols a = a\<lparr>
     a_is_admin := (if ''is_admin'' \<in> set cols then a_is_admin a else False),
     a_can_work := (if ''can_work'' \<in> set cols then a_can_work a else True),
     a_can_use := (if ''can_use'' \<in> set cols then a_can_use a else True),
     a_banned := (if ''banned'' \<in> set cols then a_banned a else False)\<rparr>"

definition migrate_schema :: "(old_db, unit) act" where
  "migrate_schema = seqa migrate_keys (seqa migrate_clusters migrate_accounts)"

section \<open>Running it again\<close>

definition up_to_date :: "old_db \<Rightarrow> bool" where
  "up_to_date s \<longleftrightarrow> ''worker_id'' \<in> set (key_cols s) \<and> ''members_json'' \<notin> set (cluster_cols s) \<and>
     {''is_admin'', ''can_work'', ''can_use'', ''banned''} \<subseteq> set (account_cols s)"

lemma up_to_date_noop: "up_to_date s \<Longrightarrow> migrate_schema s = (Inr (), s)"
  by (simp add: up_to_date_def migrate_schema_def migrate_keys_def migrate_clusters_def migrate_accounts_def
      add_account_column_def act_defs)

lemma cols_insert: "keeps (\<lambda>s. P (key_cols s) (account_cols s)) (insert_or_ignore m)"
  by (rule keepsI) (simp add: insert_or_ignore_def wp_def)

lemma cols_populate: "keeps (\<lambda>s. P (key_cols s) (account_cols s)) populate_cluster_members"
proof -
  have "keeps (\<lambda>s. P (key_cols s) (account_cols s)) (update_cluster_rows cid f :: (old_db, unit) act)" for cid f
    unfolding update_cluster_rows_def by (rule keeps_puts) simp
  then show ?thesis
    unfolding populate_cluster_members_def populate_row_def by (intro keeps_intros cols_insert)
qed

lemma migrate_keys_wp: "wp migrate_keys (\<lambda>_ t. ''worker_id'' \<in> set (key_cols t)) (\<lambda>_ _. False) s"
  by (simp add: migrate_keys_def wp_simps)

lemma migrate_clusters_wp:
  assumes "''worker_id'' \<in> set (key_cols s)"
  shows "wp migrate_clusters (\<lambda>_ t. ''worker_id'' \<in> set (key_cols t) \<and> ''members_json'' \<notin> set (cluster_cols t)) (\<lambda>_ _. True) s"
proof -
  have "wp populate_cluster_members (\<lambda>_ t. wp drop_json_columns
      (\<lambda>_ t. ''worker_id'' \<in> set (key_cols t) \<and> ''members_json'' \<notin> set (cluster_cols t)) (\<lambda>_ _. True) t) (\<lambda>_ _. True) u"
    if "''worker_id'' \<in> set (key_cols u)" for u
    by (rule wp_conseq [OF keeps_wpD [OF cols_populate [of "\<lambda>k _. ''worker_id'' \<in> set k"]]])
      (use that in \<open>simp_all add: drop_json_columns_def wp_puts json_columns_def\<close>)
  then show ?thesis
    using assms by (simp add: migrate_clusters_def wp_bnd wp_gets wp_ret wp_seqa wp_puts wp_atomic backfill_live_def)
qed

lemma migrate_accounts_wp:
  assumes "''worker_id'' \<in> set (key_cols s)" and "''members_json'' \<notin> set (cluster_cols s)"
  shows "wp migrate_accounts (\<lambda>_. up_to_date) (\<lambda>_ _. False) s"
  using assms by (simp add: migrate_accounts_def add_account_column_def wp_simps up_to_date_def)

text \<open>The migration runs once: whatever database it was applied to, if it went through, applying it
  again (on the next start) changes nothing.\<close>

lemma migration_idempotent:
  "wp migrate_schema (\<lambda>_ t. migrate_schema t = (Inr (), t)) (\<lambda>_ _. True) s"
proof -
  have acc: "wp migrate_accounts (\<lambda>_ t. migrate_schema t = (Inr (), t)) (\<lambda>_ _. True) u"
    if "''worker_id'' \<in> set (key_cols u) \<and> ''members_json'' \<notin> set (cluster_cols u)" for u
    by (rule wp_conseq [OF migrate_accounts_wp]) (use that up_to_date_noop in auto)
  have "wp migrate_clusters (\<lambda>_ t. wp migrate_accounts (\<lambda>_ t. migrate_schema t = (Inr (), t)) (\<lambda>_ _. True) t) (\<lambda>_ _. True) u"
    if "''worker_id'' \<in> set (key_cols u)" for u
    by (rule wp_conseq [OF migrate_clusters_wp [OF that]]) (use acc in auto)
  then show ?thesis
    unfolding migrate_schema_def [of] wp_seqa
    by (intro wp_conseq [OF migrate_keys_wp]) (simp_all flip: migrate_schema_def)
qed

section \<open>The schema is kept\<close>

lemma keeps_schema_insert_or_ignore: "keeps schema_ok (insert_or_ignore m)"
proof (rule keepsI)
  fix s :: "'z db_scheme"
  assume ok: "schema_ok s"
  have "schema_ok (s\<lparr>cluster_members := cluster_members s @ [m]\<rparr>)"
    if "\<not> (\<exists>x \<in> set (cluster_members s). same_member x m \<or> cm_cluster_id x = cm_cluster_id m \<and> cm_ring_position x = cm_ring_position m)"
      and "case cm_layer_window m of None \<Rightarrow> True | Some n \<Rightarrow> 0 \<le> n \<and> sql_int n" and "cm_cluster_id m \<in> cluster_ids s"
    using ok that by (auto simp: schema_ok_def table_oks id_sets same_member_def)
  then show "wp (insert_or_ignore m) (\<lambda>_. schema_ok) (\<lambda>_. schema_ok) s"
    using ok by (cases "cm_layer_window m") (auto simp: insert_or_ignore_def wp_def)
qed

text \<open>A statement that rewrites columns without references, or no table at all.\<close>

lemma keeps_schema_columns:
  fixes f :: "'z db_scheme \<Rightarrow> 'z db_scheme"
  assumes "\<And>s. account_ids (f s) = account_ids s \<and> map a_username (accounts (f s)) = map a_username (accounts s) \<and>
      map a_account_id (accounts (f s)) = map a_account_id (accounts s)"
    and "\<And>s. map k_key_id (api_keys (f s)) = map k_key_id (api_keys s) \<and> map k_key_hash (api_keys (f s)) = map k_key_hash (api_keys s) \<and>
      (keys_ok s \<longrightarrow> keys_ok (f s))"
    and "\<And>s. map cr_cluster_id (clusters (f s)) = map cr_cluster_id (clusters s)"
    and "\<And>s. workers (f s) = workers s \<and> cluster_members (f s) = cluster_members s \<and> requests (f s) = requests s"
  shows "keeps schema_ok (puts f)"
proof (rule keeps_puts)
  fix s :: "'z db_scheme"
  assume ok: "schema_ok s"
  have ids: "cluster_ids (f s) = cluster_ids s" "key_ids (f s) = key_ids s"
    unfolding cluster_ids_def key_ids_def by (metis assms(3) list.set_map) (metis assms(2) list.set_map)
  show "schema_ok (f s)"
    using ok assms(1) [of s] assms(2) [of s] assms(3) [of s] assms(4) [of s] ids
    by (simp add: schema_ok_def accounts_ok_def workers_ok_def clusters_ok_def members_ok_def requests_ok_def)
qed

lemma keeps_schema_populate: "keeps schema_ok populate_cluster_members"
  unfolding populate_cluster_members_def populate_row_def
  by (intro keeps_intros keeps_schema_insert_or_ignore keeps_schema_update_cluster_rows) simp

lemma keeps_schema_migrate: "keeps schema_ok migrate_schema"
proof -
  have key: "keeps schema_ok (puts (\<lambda>s. s\<lparr>key_cols := key_cols s @ [''worker_id''],
            api_keys := map (\<lambda>r. r\<lparr>k_worker_id := None\<rparr>) (api_keys s)\<rparr>) :: (old_db, unit) act)"
    by (rule keeps_schema_columns) (auto simp: account_ids_def keys_ok_def comp_def fk_def)
  have acc: "keeps schema_ok (puts (\<lambda>s. s\<lparr>account_cols := account_cols s @ [c], accounts := map f (accounts s)\<rparr>) :: (old_db, unit) act)"
    if f: "\<And>a. a_account_id (f a) = a_account_id a \<and> a_username (f a) = a_username a" for c f
    by (rule keeps_schema_columns) (auto simp: account_ids_def keys_ok_def comp_def f image_image worker_ids_def)
  have flag: "keeps schema_ok (puts (\<lambda>s. s\<lparr>cluster_cols := cluster_cols s @ [''distribution_reported''],
       clusters := map (\<lambda>r. r\<lparr>cr_distribution_reported := False\<rparr>) (clusters s)\<rparr>) :: (old_db, unit) act)"
    by (rule keeps_schema_columns) (auto simp: account_ids_def keys_ok_def worker_ids_def comp_def)
  have json: "keeps schema_ok (puts f :: (old_db, unit) act)"
    if f: "\<And>s. accounts (f s) = accounts s \<and> api_keys (f s) = api_keys s \<and> workers (f s) = workers s \<and> clusters (f s) = clusters s \<and>
       cluster_members (f s) = cluster_members s \<and> requests (f s) = requests s" for f
    by (rule keeps_schema_columns) (auto simp: f account_ids_def keys_ok_def worker_ids_def)
  show ?thesis
    unfolding migrate_schema_def migrate_keys_def migrate_clusters_def migrate_accounts_def add_account_column_def
      backfill_live_def drop_json_columns_def
    by (intro keeps_intros keeps_schema_populate key acc flag) (auto intro: json)
qed

section \<open>Nothing is lost\<close>

text \<open>
  The old database holds the clusters \<open>cs\<close> in its JSON columns. A live cluster without a distribution
  counts as one whose distribution is unknown.
\<close>

definition plain_row :: "cluster_rec \<Rightarrow> cluster_row" where
  "plain_row c = (cluster_to_row c)\<lparr>cr_distribution_reported := False\<rparr>"

definition upgraded :: "cluster_rec \<Rightarrow> cluster_rec" where
  "upgraded c = (if c_status c = live \<and> c_layer_windows c = None then c\<lparr>c_layer_windows := Some []\<rparr> else c)"

definition windows_json_of :: "int dict option \<Rightarrow> int option dict doc" where
  "windows_json_of lw = (case lw of None \<Rightarrow> Absent | Some d \<Rightarrow> Doc (map (\<lambda>(k, n). (k, Some n)) d))"

definition documented :: "(cluster_rec \<Rightarrow> int option dict doc) \<Rightarrow> cluster_rec list \<Rightarrow> old_db \<Rightarrow> bool" where
  "documented w cs s \<longleftrightarrow> (\<forall>c \<in> set cs.
     members_json s (c_cluster_id c) = Doc (c_members c) \<and>
     (\<exists>rs. ready_json s (c_cluster_id c) = Doc rs \<and> set rs = c_ready c) \<and>
     ips_json s (c_cluster_id c) = Doc (c_ips c) \<and>
     layer_windows_json s (c_cluster_id c) = w c)"

definition holds_legacy :: "cluster_rec list \<Rightarrow> old_db \<Rightarrow> bool" where
  "holds_legacy cs s \<longleftrightarrow> clusters s = map plain_row cs \<and> cluster_members s = [] \<and>
     distinct (map c_cluster_id cs) \<and> list_all cluster_wf cs \<and>
     {''members_json'', ''ready_json'', ''ips_json''} \<subseteq> set (cluster_cols s) \<and>
     (''layer_windows_json'' \<in> set (cluster_cols s) \<or> list_all (\<lambda>c. c_layer_windows c = None) cs) \<and>
     documented (\<lambda>c. windows_json_of (c_layer_windows c)) cs s"

lemma upgraded_simps [simp]:
  "c_cluster_id (upgraded c) = c_cluster_id c" "c_members (upgraded c) = c_members c" "c_ready (upgraded c) = c_ready c"
  "c_ips (upgraded c) = c_ips c" "c_status (upgraded c) = c_status c"
  by (simp_all add: upgraded_def)

lemma plain_row_simps [simp]:
  "cr_cluster_id (plain_row c) = c_cluster_id c" "cr_status (plain_row c) = c_status c"
  by (simp_all add: plain_row_def cluster_to_row_def)

lemma member_windows_Nil: "member_windows [] ms = []"
  by (induction ms) (simp_all add: member_windows_def List.map_filter_simps)

lemma upgraded_wf: "cluster_wf c \<Longrightarrow> cluster_wf (upgraded c)"
  by (auto simp: upgraded_def cluster_wf_def record_windows_ok_def windows_valid_def member_windows_Nil)

lemma map_of_Some_values: "map_of (map (\<lambda>(k, n). (k, Some n)) d) x = map_option Some (map_of d x)"
  by (induction d) auto

lemma legacy_member_row:
  assumes "set rs = c_ready c" and "windows_doc (windows_json_of (c_layer_windows c)) = lw"
  shows "legacy_member (c_cluster_id c) rs (c_ips c) lw = member_row_of c"
  using assms by (auto simp: fun_eq_iff legacy_member_def member_row_of_def windows_json_of_def windows_doc_def
      map_of_Some_values split: option.splits)

lemma wp_insert_legacy:
  assumes "record_windows_ok c" and "c_cluster_id c \<in> cluster_ids s" and "distinct ws"
    and "\<And>m. m \<in> set (cluster_members s) \<Longrightarrow> cm_cluster_id m = c_cluster_id c \<Longrightarrow>
        cm_ring_position m < n \<and> cm_worker_id m \<notin> set ws"
  shows "wp (for_each (\<lambda>p. insert_or_ignore (member_row_of c p)) (List.enumerate n ws)) Q E s =
    Q () (s\<lparr>cluster_members := cluster_members s @ map (member_row_of c) (List.enumerate n ws)\<rparr>)"
  using assms(2-)
proof (induction ws arbitrary: n s)
  case (Cons w ws)
  let ?m = "member_row_of c (n, w)"
  let ?s1 = "s\<lparr>cluster_members := cluster_members s @ [?m]\<rparr>"
  have win: "case cm_layer_window ?m of None \<Rightarrow> True | Some n \<Rightarrow> sql_int n"
    "case cm_layer_window ?m of None \<Rightarrow> True | Some n \<Rightarrow> 0 \<le> n"
    using record_window [OF assms(1), of "(n, w)"] by (auto split: option.split)
  have free: "\<not> (\<exists>x \<in> set (cluster_members s). same_member x ?m \<or>
      cm_cluster_id x = cm_cluster_id ?m \<and> cm_ring_position x = cm_ring_position ?m)"
    using Cons.prems(3) by (fastforce simp: same_member_def)
  have cid: "cm_cluster_id ?m \<in> cluster_ids s" using Cons.prems(1) by simp
  have "insert_or_ignore ?m s = (Inr (), ?s1)"
    using cid by (simp only: insert_or_ignore_def win free simp_thms if_False if_True)
  then have one: "wp (insert_or_ignore ?m) Q' E' s = Q' () ?s1" for Q' E' by (simp add: wp_def)
  have "wp (for_each (\<lambda>p. insert_or_ignore (member_row_of c p)) (List.enumerate (Suc n) ws)) Q E ?s1 =
    Q () (?s1\<lparr>cluster_members := cluster_members ?s1 @ map (member_row_of c) (List.enumerate (Suc n) ws)\<rparr>)"
  proof (rule Cons.IH)
    show "c_cluster_id c \<in> cluster_ids ?s1" using Cons.prems(1) by (simp add: cluster_ids_def)
    show "distinct ws" using Cons.prems(2) by simp
    show "cm_ring_position m < Suc n \<and> cm_worker_id m \<notin> set ws"
      if "m \<in> set (cluster_members ?s1)" "cm_cluster_id m = c_cluster_id c" for m
      using that Cons.prems(2,3) by (fastforce simp: less_Suc_eq)
  qed
  then show ?case by (simp add: wp_for_each_Cons wp_seqa one del: member_row_of_simps)
qed (simp add: wp_simps)

text \<open>The tables when the clusters \<open>ds\<close> have been copied and \<open>rest\<close> have not.\<close>

definition rows_for :: "cluster_rec \<Rightarrow> member_row list" where
  "rows_for c = map (member_row_of c) (List.enumerate 0 (c_members c))"

definition copied :: "cluster_rec list \<Rightarrow> cluster_rec list \<Rightarrow> old_db \<Rightarrow> bool" where
  "copied ds rest s \<longleftrightarrow> clusters s = map cluster_to_row ds @ map plain_row rest \<and>
     cluster_members s = concat (map rows_for ds) \<and>
     documented (\<lambda>c. windows_json_of (c_layer_windows c)) rest s"

lemma in_rows_for: "m \<in> set (rows_for c) \<Longrightarrow> cm_cluster_id m = c_cluster_id c"
  by (auto simp: rows_for_def)

lemma populate_row_wp:
  assumes "copied ds (c # rest) s" and "distinct (map c_cluster_id (ds @ c # rest))" and "cluster_wf c"
  shows "wp (populate_row (c_cluster_id c)) (\<lambda>_. copied (ds @ [c]) rest) (\<lambda>_ _. False) s"
proof -
  let ?cid = "c_cluster_id c"
  let ?lw = "windows_doc (windows_json_of (c_layer_windows c))"
  obtain rs where d: "members_json s ?cid = Doc (c_members c)" "ready_json s ?cid = Doc rs" "set rs = c_ready c"
    "ips_json s ?cid = Doc (c_ips c)" "layer_windows_json s ?cid = windows_json_of (c_layer_windows c)"
    using assms(1) by (auto simp: copied_def documented_def)
  have tabs: "clusters s = map cluster_to_row ds @ plain_row c # map plain_row rest" "cluster_members s = concat (map rows_for ds)"
    using assms(1) by (simp_all add: copied_def)
  have "?cid \<notin> c_cluster_id ` (set ds \<union> set rest)" using assms(2) by auto
  then have other: "c_cluster_id x \<noteq> ?cid" if x: "x \<in> set ds \<or> x \<in> set rest" for x
    using x by (metis UnI1 UnI2 imageI)
  let ?s1 = "s\<lparr>cluster_members := cluster_members s @ rows_for c\<rparr>"
  have "c_cluster_id c \<in> cluster_ids s" by (simp add: cluster_ids_def tabs plain_row_def cluster_to_row_def)
  moreover have "\<not> (m \<in> set (cluster_members s) \<and> cm_cluster_id m = ?cid)" for m
    using other in_rows_for unfolding tabs(2) by fastforce
  ultimately have loop: "wp (for_each (\<lambda>p. insert_or_ignore (member_row_of c p)) (List.enumerate 0 (c_members c))) Q E s = Q () ?s1" for Q E
    unfolding rows_for_def using assms(3) by (intro wp_insert_legacy) (auto simp: cluster_wf_def)
  let ?mark = "map (\<lambda>r. if cr_cluster_id r = ?cid then r\<lparr>cr_distribution_reported := True\<rparr> else r)"
  have "?mark (map cluster_to_row ds) = map cluster_to_row ds" "?mark (map plain_row rest) = map plain_row rest"
    using other by (simp_all add: cluster_to_row_def plain_row_def)
  then have mark: "?mark (clusters s) = map cluster_to_row ds @ (plain_row c)\<lparr>cr_distribution_reported := True\<rparr> # map plain_row rest"
    by (simp add: tabs plain_row_def cluster_to_row_def)
  have flag: "?lw \<noteq> None \<longleftrightarrow> c_layer_windows c \<noteq> None" by (simp add: windows_doc_def windows_json_of_def split: option.split)
  have row: "(if ?lw \<noteq> None then (plain_row c)\<lparr>cr_distribution_reported := True\<rparr> else plain_row c) = cluster_to_row c"
    using flag by (auto simp: plain_row_def cluster_to_row_def)
  have docs: "documented (\<lambda>c. windows_json_of (c_layer_windows c)) rest s"
    using assms(1) by (simp add: copied_def documented_def)
  have body: "wp (populate_row ?cid) Q E s = wp (if ?lw \<noteq> None
      then update_cluster_rows ?cid (\<lambda>r. r\<lparr>cr_distribution_reported := True\<rparr>) else ret ()) Q E ?s1" for Q E
    by (simp add: populate_row_def wp_bnd wp_gets wp_asks wp_seqa d content_def members_of_def
        legacy_member_row [OF d(3) refl] loop)
  show ?thesis
    unfolding body using row mark docs tabs
    by (auto simp: wp_update_cluster_rows wp_ret copied_def documented_def)
qed

text \<open>The loop of \<open>_populate_cluster_members_from_json\<close>: in the end every cluster reads back.\<close>

lemma populate_wp:
  assumes "copied [] cs s" and "distinct (map c_cluster_id cs)" and "list_all cluster_wf cs"
    and "set json_columns \<subseteq> set (cluster_cols s)"
  shows "wp populate_cluster_members (\<lambda>_. copied cs []) (\<lambda>_ _. False) s"
proof -
  let ?J = "\<lambda>rs t. \<exists>ds rest. ds @ rest = cs \<and> rs = map plain_row rest \<and> copied ds rest t"
  have step: "wp (populate_row (cr_cluster_id r)) (\<lambda>_. ?J rs) (\<lambda>_ _. False) t" if j: "?J (r # rs) t" for r rs t
  proof -
    obtain ds c rest where c: "ds @ c # rest = cs" "r = plain_row c" "rs = map plain_row rest" "copied ds (c # rest) t"
      using j by (auto simp: Cons_eq_map_conv)
    have "distinct (map c_cluster_id (ds @ c # rest))" "cluster_wf c"
      using assms(2,3) unfolding c(1) [symmetric] by simp_all
    from populate_row_wp [OF c(4) this]
    have "wp (populate_row (c_cluster_id c)) (\<lambda>_. ?J rs) (\<lambda>_ _. False) t"
      by (rule wp_conseq) (use c in \<open>auto intro: exI [of _ "ds @ [c]"]\<close>)
    then show ?thesis by (simp add: c(2) plain_row_def cluster_to_row_def)
  qed
  have "wp (for_each (\<lambda>r. populate_row (cr_cluster_id r)) (clusters s)) (\<lambda>_. copied cs []) (\<lambda>_ _. False) s"
  proof (rule wp_for_each_inv [where J = ?J, OF _ step])
    show "?J (clusters s) s" using assms(1) by (intro exI [of _ "[]"] exI [of _ cs]) (simp add: copied_def)
  qed (auto)
  then show ?thesis using assms(4) by (simp add: populate_cluster_members_def wp_bnd wp_gets)
qed

text \<open>The tables of the new schema, with no JSON column left.\<close>

definition stored :: "cluster_rec list \<Rightarrow> old_db \<Rightarrow> bool" where
  "stored cs s \<longleftrightarrow> clusters s = map cluster_to_row cs \<and> cluster_members s = concat (map rows_for cs)"

lemma stored_get:
  assumes "stored cs s" and "distinct (map c_cluster_id cs)" and "c \<in> set cs" and "cluster_wf c"
  shows "get_cluster (c_cluster_id c) s = Some c"
proof -
  have "find (\<lambda>r. cr_cluster_id r = c_cluster_id c) (map cluster_to_row cs) = Some (cluster_to_row c)"
    using assms(2,3) by (induction cs) (auto simp: cluster_to_row_def)
  moreover have "filter (\<lambda>m. cm_cluster_id m = c_cluster_id c) (concat (map rows_for cs)) = rows_for c"
    using assms(2,3)
  proof (induction cs)
    case (Cons d ds)
    have own: "filter (\<lambda>m. cm_cluster_id m = x) (rows_for d) = (if x = c_cluster_id d then rows_for d else [])" for x
      by (auto simp: filter_id_conv filter_empty_conv dest: in_rows_for)
    have none: "filter (\<lambda>m. cm_cluster_id m = c_cluster_id d) (concat (map rows_for ds)) = []"
      using Cons.prems(1) by (auto simp: filter_empty_conv dest!: in_rows_for)
    show ?case
    proof (cases "c = d")
      case True
      then show ?thesis using own none by simp
    next
      case False
      then have "c \<in> set ds" using Cons.prems(2) by simp
      moreover from this have "c_cluster_id c \<noteq> c_cluster_id d" using Cons.prems(1) by (metis distinct.simps(2) imageI list.set_map list.simps(9))
      ultimately have "c \<in> set ds" "c_cluster_id c \<noteq> c_cluster_id d" by simp_all
      then show ?thesis using own Cons by simp
    qed
  qed simp
  moreover have "sort_key cm_ring_position (rows_for c) = rows_for c"
    by (rule sort_key_sorted_id) (simp add: rows_for_def comp_def)
  ultimately show ?thesis
    using assms(1) hydrate_member_rows [OF assms(4)]
    by (simp add: get_cluster_def load_cluster_members_def cluster_row_of_def rows_of_def stored_def rows_for_def)
qed

lemma migrate_keys_legacy:
  "holds_legacy cs s \<Longrightarrow> wp migrate_keys (\<lambda>_. holds_legacy cs) (\<lambda>_ _. False) s"
  by (simp add: migrate_keys_def wp_bnd wp_gets wp_ret wp_puts holds_legacy_def documented_def)

lemma copied_start:
  assumes "holds_legacy cs s"
    and "clusters t = clusters s" and "cluster_members t = cluster_members s"
    and "members_json t = members_json s" and "ready_json t = ready_json s" and "ips_json t = ips_json s"
    and "\<And>c. c \<in> set cs \<Longrightarrow> layer_windows_json t (c_cluster_id c) = windows_json_of (c_layer_windows (upgraded c))"
  shows "copied [] (map upgraded cs) t"
proof -
  have "plain_row (upgraded c) = plain_row c" for c
    by (simp add: plain_row_def upgraded_def cluster_to_row_def)
  then show ?thesis
    using assms by (auto simp: copied_def holds_legacy_def documented_def)
qed

lemma migrate_clusters_legacy:
  assumes "holds_legacy cs s"
  shows "wp migrate_clusters (\<lambda>_. stored (map upgraded cs)) (\<lambda>_ _. False) s"
proof -
  let ?cols = "cluster_cols s"
  have tabs: "clusters s = map plain_row cs" "''members_json'' \<in> set ?cols" "''ready_json'' \<in> set ?cols" "''ips_json'' \<in> set ?cols"
    using assms by (simp_all add: holds_legacy_def)
  have flag: "map (cr_distribution_reported_update (\<lambda>_. False) \<circ> plain_row) cs = map plain_row cs"
    by (simp add: plain_row_def comp_def)
  have live_row: "(\<exists>r \<in> set cs. c_cluster_id r = c_cluster_id c \<and> c_status r = live) \<longleftrightarrow> c_status c = live"
    if c: "c \<in> set cs" for c
    using c assms by (auto simp: holds_legacy_def distinct_map dest: inj_onD)
  have docs: "layer_windows_json s (c_cluster_id c) = windows_json_of (c_layer_windows c)" if c: "c \<in> set cs" for c
    using c assms by (simp add: holds_legacy_def documented_def)
  have no_docs: "windows_json_of (c_layer_windows c) = Absent"
    if c: "''layer_windows_json'' \<notin> set ?cols" "c \<in> set cs" for c
    using c assms by (simp add: holds_legacy_def list_all_iff windows_json_of_def)
  have upg: "windows_json_of (c_layer_windows (upgraded c)) =
     (if windows_json_of (c_layer_windows c) = Absent \<and> c_status c = live then Doc [] else windows_json_of (c_layer_windows c))" for c
    by (auto simp: upgraded_def windows_json_of_def split: option.splits)
  have wf: "distinct (map c_cluster_id (map upgraded cs))" "list_all cluster_wf (map upgraded cs)"
    using assms by (auto simp: holds_legacy_def comp_def list_all_iff upgraded_wf)
  have fin: "wp populate_cluster_members (\<lambda>_. wp drop_json_columns (\<lambda>_. stored (map upgraded cs)) (\<lambda>_ _. False)) (\<lambda>_ _. False) t"
    if t: "clusters t = clusters s" "cluster_members t = cluster_members s"
      "members_json t = members_json s" "ready_json t = ready_json s" "ips_json t = ips_json s"
      "\<And>c. c \<in> set cs \<Longrightarrow> layer_windows_json t (c_cluster_id c) = windows_json_of (c_layer_windows (upgraded c))"
      "set json_columns \<subseteq> set (cluster_cols t)" for t
    by (rule wp_conseq [OF populate_wp [OF copied_start [OF assms t(1-6)] wf t(7)]])
      (simp_all add: drop_json_columns_def wp_puts stored_def copied_def)
  show ?thesis
    unfolding migrate_clusters_def wp_bnd wp_gets
    by (cases "''layer_windows_json'' \<in> set ?cols"; cases "''distribution_reported'' \<in> set ?cols")
      (simp_all add: wp_ret wp_seqa wp_puts wp_atomic backfill_live_def tabs flag, (rule fin; simp add: json_columns_def tabs upg live_row docs no_docs)+)
qed

lemma migrate_accounts_stored: "wp migrate_accounts (\<lambda>_. stored cs) (\<lambda>_ _. False) s" if s: "stored cs s"
  using s by (simp add: migrate_accounts_def add_account_column_def wp_simps stored_def)

text \<open>The other tables: the accounts as the tolerant reader sees them, the workers, the requests.\<close>

definition beside_members :: "old_db \<Rightarrow> account_rec list \<times> worker_rec list \<times> request_rec list" where
  "beside_members s = (map (row_to_account (account_cols s)) (accounts s), workers s, requests s)"

definition adds :: "string \<Rightarrow> (account_rec \<Rightarrow> account_rec) \<Rightarrow> bool" where
  "adds c f \<longleftrightarrow> c = ''is_admin'' \<and> f = (\<lambda>a. a\<lparr>a_is_admin := False\<rparr>) \<or> c = ''can_work'' \<and> f = (\<lambda>a. a\<lparr>a_can_work := True\<rparr>) \<or>
     c = ''can_use'' \<and> f = (\<lambda>a. a\<lparr>a_can_use := True\<rparr>) \<or> c = ''banned'' \<and> f = (\<lambda>a. a\<lparr>a_banned := False\<rparr>)"

lemma beside_added:
  assumes "adds c f" and "c \<notin> set (account_cols s)"
  shows "beside_members (s\<lparr>account_cols := account_cols s @ [c], accounts := map f (accounts s)\<rparr>) = beside_members s"
proof -
  have "row_to_account (account_cols s @ [c]) (f a) = row_to_account (account_cols s) a" for a
    using assms unfolding adds_def by (elim disjE conjE) (simp_all add: row_to_account_def)
  then show ?thesis by (simp add: beside_members_def)
qed

lemma keeps_beside_accounts: "keeps (\<lambda>t. beside_members t = beside_members s) migrate_accounts"
proof (rule keepsI)
  let ?I = "\<lambda>t. beside_members t = beside_members s"
  fix t
  assume t: "?I t"
  let ?J = "\<lambda>xs u. ?I u \<and> set (account_cols u) \<subseteq> set (account_cols t) \<union> xs"
  have add: "wp (add_account_column c f (account_cols t)) (\<lambda>_. ?J (insert c xs)) (\<lambda>_. ?I) u"
    if u: "?J xs u" and c: "c \<notin> xs" and cf: "adds c f" for c f xs u
  proof (cases "c \<in> set (account_cols t)")
    case False
    then have "c \<notin> set (account_cols u)" using u c by blast
    then show ?thesis using u False beside_added [OF cf, of u] by (auto simp: add_account_column_def wp_puts)
  qed (use u in \<open>auto simp: add_account_column_def wp_ret\<close>)
  let ?c = "account_cols t"
  let ?add4 = "add_account_column ''banned'' (\<lambda>a. a\<lparr>a_banned := False\<rparr>) ?c"
  let ?add3 = "add_account_column ''can_use'' (\<lambda>a. a\<lparr>a_can_use := True\<rparr>) ?c"
  let ?add2 = "add_account_column ''can_work'' (\<lambda>a. a\<lparr>a_can_work := True\<rparr>) ?c"
  have s4: "wp ?add4 (\<lambda>_. ?I) (\<lambda>_. ?I) u" if u: "?J {''can_use'', ''can_work'', ''is_admin''} u" for u
    by (rule wp_conseq [OF add [OF u]]) (simp_all add: adds_def)
  have s3: "wp ?add3 (\<lambda>_. wp ?add4 (\<lambda>_. ?I) (\<lambda>_. ?I)) (\<lambda>_. ?I) u" if u: "?J {''can_work'', ''is_admin''} u" for u
    by (rule wp_conseq [OF add [OF u]]) (use s4 in \<open>simp_all add: adds_def\<close>)
  have s2: "wp ?add2 (\<lambda>_. wp ?add3 (\<lambda>_. wp ?add4 (\<lambda>_. ?I) (\<lambda>_. ?I)) (\<lambda>_. ?I)) (\<lambda>_. ?I) u" if u: "?J {''is_admin''} u" for u
    by (rule wp_conseq [OF add [OF u]]) (use s3 in \<open>simp_all add: adds_def\<close>)
  have "?J {} t" using t by simp
  then show "wp migrate_accounts (\<lambda>_. ?I) (\<lambda>_. ?I) t"
    unfolding migrate_accounts_def wp_bnd wp_gets wp_seqa
    by (rule wp_conseq [OF add]) (use s2 in \<open>simp_all add: adds_def\<close>)
qed

lemma migrate_schema_beside: "wp migrate_schema (\<lambda>_ t. beside_members t = beside_members s) (\<lambda>_ t. beside_members t = beside_members s) s"
proof -
  let ?I = "\<lambda>t. beside_members t = beside_members s"
  have upd: "keeps ?I (update_cluster_rows cid f :: (old_db, unit) act)" for cid f
    unfolding update_cluster_rows_def by (rule keeps_puts) (simp add: beside_members_def)
  have ins: "keeps ?I (insert_or_ignore m :: (old_db, unit) act)" for m
    by (rule keepsI) (simp add: insert_or_ignore_def wp_def beside_members_def)
  have same: "keeps ?I (puts f :: (old_db, unit) act)"
    if f: "\<And>t. accounts (f t) = accounts t \<and> account_cols (f t) = account_cols t \<and> workers (f t) = workers t \<and> requests (f t) = requests t" for f
    by (rule keeps_puts) (simp add: beside_members_def f)
  have "keeps ?I migrate_schema"
    unfolding migrate_schema_def migrate_keys_def migrate_clusters_def
      backfill_live_def drop_json_columns_def populate_cluster_members_def populate_row_def
    by (intro keeps_intros upd ins keeps_beside_accounts same) simp_all
  then show ?thesis by (rule keeps_wpD) simp
qed

text \<open>C13: The migration loses nothing: when the clusters of an old database are well formed, it goes through,
  and every one of them reads back from the new tables with its members in ring order, their readiness,
  addresses and layer windows; only a live cluster without a distribution gets an unknown one. The accounts
  read as they did before, workers and requests stay as they are.\<close>

theorem migration_roundtrip:
  assumes "holds_legacy cs s"
  shows "wp migrate_schema (\<lambda>_ t. map cr_cluster_id (clusters t) = map c_cluster_id cs \<and>
      (\<forall>c \<in> set cs. get_cluster (c_cluster_id c) t = Some (upgraded c)) \<and>
      map (row_to_account (account_cols t)) (accounts t) = map (row_to_account (account_cols s)) (accounts s) \<and>
      workers t = workers s \<and> requests t = requests s) (\<lambda>_ _. False) s"
proof -
  have wf: "distinct (map c_cluster_id (map upgraded cs))" "\<And>c. c \<in> set cs \<Longrightarrow> cluster_wf (upgraded c)"
    using assms by (auto simp: holds_legacy_def comp_def list_all_iff upgraded_wf)
  have read: "map cr_cluster_id (clusters t) = map c_cluster_id cs \<and>
      (\<forall>c \<in> set cs. get_cluster (c_cluster_id c) t = Some (upgraded c))" if t: "stored (map upgraded cs) t" for t
    using t stored_get [OF t wf(1), of "upgraded c" for c] wf(2) by (auto simp: stored_def cluster_to_row_def)
  have "wp migrate_schema (\<lambda>_. stored (map upgraded cs)) (\<lambda>_ _. False) s"
    unfolding migrate_schema_def wp_seqa
    by (rule wp_conseq [OF migrate_keys_legacy [OF assms]], rule wp_conseq [OF migrate_clusters_legacy], assumption,
        rule wp_conseq [OF migrate_accounts_stored], assumption)
  from wp_conj [OF this migrate_schema_beside] show ?thesis
    by (rule wp_conseq) (use read in \<open>simp_all add: beside_members_def\<close>)
qed

definition live_demo :: cluster_rec where
  "live_demo = demo_cluster\<lparr>c_status := live, c_ready := {''a''}\<rparr>"

text \<open>A database of version 0.4: no layer windows yet, accounts without flags.\<close>

definition old_demo :: old_db where
  "old_demo = db.extend empty_db \<lparr>account_cols = [''account_id''], key_cols = [''key_id''],
     cluster_cols = [''cluster_id'', ''members_json'', ''ready_json'', ''ips_json''],
     members_json = (\<lambda>_. Doc [''a'', ''b'']), ready_json = (\<lambda>_. Doc [''a'']),
     ips_json = (\<lambda>_. Doc [(''a'', ''10.23.1.1''), (''b'', ''10.23.1.2'')]), layer_windows_json = (\<lambda>_. Absent)\<rparr>
     \<lparr>clusters := [plain_row live_demo]\<rparr>"

lemma old_demo_holds: "holds_legacy [live_demo] old_demo"
proof -
  have "cluster_wf live_demo" using demo_cluster_wf by (simp add: live_demo_def cluster_wf_def demo_cluster_def record_windows_ok_def)
  then show ?thesis
    by (simp add: holds_legacy_def old_demo_def documented_def windows_json_of_def live_demo_def demo_cluster_def
        empty_db_def db.defs)
qed

theorem migration_roundtrip_witness:
  "wp migrate_schema (\<lambda>_ t. get_cluster ''clu_1'' t = Some (live_demo\<lparr>c_layer_windows := Some []\<rparr>)) (\<lambda>_ _. False) old_demo"
  by (rule wp_conseq [OF migration_roundtrip [OF old_demo_holds]])
    (simp_all add: live_demo_def demo_cluster_def upgraded_def)

end
