(* ===== verification/Pool_Snapshot.thy ===== *)
theory Pool_Snapshot
  imports Pool_Migration
begin

text \<open>
  store.py: the import of a JSON snapshot of the first versions (\<open>_migrate_from_json\<close> with its two
  converters) and the opening of a store (\<open>Store.__init__\<close>, \<open>_find_legacy_json\<close>) on a small file system.
  A snapshot is what \<open>json.load\<close> reads: an object whose fields may be missing (\<open>None\<close>), the ones that are
  there with values of their type. Directories and the pragmas of the connection are left out.
\<close>

section \<open>The snapshot\<close>

record snap_account =
  sa_account_id :: "string option"
  sa_username :: "string option"
  sa_password_hash :: "string option"
  sa_created_at :: "rat option"
  sa_is_admin :: "bool option"
  sa_can_work :: "bool option"
  sa_can_use :: "bool option"
  sa_banned :: "bool option"

record snap_key =
  sk_key_id :: "string option"
  sk_account_id :: "string option"
  sk_name :: "string option"
  sk_scope :: "string option"
  sk_key_hash :: "string option"
  sk_created_at :: "rat option"

text \<open>\<open>sc_unknown\<close> and \<open>sw_unknown\<close> are the keys that the dataclass does not have.\<close>

record snap_cluster =
  sc_cluster_id :: "string option"
  sc_model :: "string option"
  sc_subnet :: "string option"
  sc_members :: "string list option"
  sc_status :: "string option"
  sc_ready :: "string list option"
  sc_created_at :: "rat option"
  sc_ips :: "string dict option"
  sc_layer_windows :: "int dict option"
  sc_unknown :: "string list"

text \<open>
  A non-empty endpoint or hardware object is what pydantic makes of it: the record, or its
  \<open>ValidationError\<close> (a \<open>ValueError\<close>).
\<close>

record snap_worker =
  sw_worker_id :: "string option"
  sw_account_id :: "string option"
  sw_model :: "string option"
  sw_gguf_sha256 :: "string option"
  sw_memory_allocated_mb :: "int option"
  sw_wg_pubkey :: "string option"
  sw_endpoint :: "(exn + endpoint_info) option"
  sw_hardware :: "(exn + hardware) option"
  sw_status :: "string option"
  sw_online :: "bool option"
  sw_last_heartbeat :: "rat option"
  sw_assignable_at :: "rat option"
  sw_cluster_id :: "string option"
  sw_assigned_ip :: "string option"
  sw_ring_position :: "nat option"
  sw_created_at :: "rat option"
  sw_unknown :: "string list"

record snapshot =
  sn_accounts :: "snap_account list"
  sn_api_keys :: "snap_key list"
  sn_clusters :: "snap_cluster list"
  sn_workers :: "snap_worker list"

section \<open>Reading its objects\<close>

text \<open>\<open>d[k]\<close>, a required argument of a dataclass, \<open>d.get(k, dflt)\<close>.\<close>

definition field :: "string \<Rightarrow> 'a option \<Rightarrow> ('s, 'a) act" where
  "field k v = (case v of None \<Rightarrow> throw (KeyError k) | Some x \<Rightarrow> ret x)"

definition required :: "'a option \<Rightarrow> ('s, 'a) act" where
  "required v = (case v of None \<Rightarrow> throw TypeError | Some x \<Rightarrow> ret x)"

definition given :: "'a \<Rightarrow> 'a option \<Rightarrow> 'a" where
  "given dflt v = (case v of None \<Rightarrow> dflt | Some x \<Rightarrow> x)"

definition validated :: "(exn + 'a) option \<Rightarrow> ('s, 'a option) act" where
  "validated v = (case v of None \<Rightarrow> ret None | Some r \<Rightarrow> bnd (lift_result r) (\<lambda>x. ret (Some x)))"

text \<open>\<open>ClusterStatus(value)\<close>.\<close>

fun cluster_status_value :: "cluster_status \<Rightarrow> string" where
  "cluster_status_value assembling = ''assembling''"
| "cluster_status_value live = ''live''"
| "cluster_status_value terminated = ''terminated''"

definition cluster_status_of :: "string \<Rightarrow> exn + cluster_status" where
  "cluster_status_of v =
     (if v = ''assembling'' then Inr assembling
      else if v = ''live'' then Inr live
      else if v = ''terminated'' then Inr terminated
      else Inl ValueError)"

text \<open>\<open>_worker_from_legacy_dict\<close>: the hash may be missing, the defaults are those of \<open>WorkerRecord\<close>.\<close>

definition worker_from_legacy :: "snap_worker \<Rightarrow> ('z db_scheme, worker_rec) act" where
  "worker_from_legacy d =
     bnd (validated (sw_endpoint d)) (\<lambda>endpoint.
     bnd (validated (sw_hardware d)) (\<lambda>hw.
     bnd (lift_result (case sw_status d of None \<Rightarrow> Inr registered | Some v \<Rightarrow> worker_status_of v)) (\<lambda>status.
     bnd (if sw_unknown d \<noteq> [] then throw TypeError else ret ()) (\<lambda>_.
     bnd (required (sw_worker_id d)) (\<lambda>worker_id.
     bnd (required (sw_account_id d)) (\<lambda>account_id.
     bnd (required (sw_model d)) (\<lambda>model.
     bnd (required (sw_memory_allocated_mb d)) (\<lambda>memory.
     bnd (required (sw_wg_pubkey d)) (\<lambda>wg_pubkey.
     bnd (gets clock) (\<lambda>now.
     ret \<lparr>w_worker_id = worker_id, w_account_id = account_id, w_model = model,
       w_gguf_sha256 = given [] (sw_gguf_sha256 d), w_memory_allocated_mb = memory, w_wg_pubkey = wg_pubkey,
       w_endpoint = endpoint, w_hardware = hw, w_status = status, w_online = given False (sw_online d),
       w_last_heartbeat = given 0 (sw_last_heartbeat d), w_assignable_at = given 0 (sw_assignable_at d),
       w_cluster_id = sw_cluster_id d, w_assigned_ip = sw_assigned_ip d, w_ring_position = sw_ring_position d,
       w_created_at = given now (sw_created_at d)\<rparr>))))))))))"

text \<open>\<open>_cluster_from_legacy_dict\<close>.\<close>

definition cluster_from_legacy :: "snap_cluster \<Rightarrow> ('z db_scheme, cluster_rec) act" where
  "cluster_from_legacy d =
     bnd (lift_result (case sc_status d of None \<Rightarrow> Inr assembling | Some v \<Rightarrow> cluster_status_of v)) (\<lambda>status.
     bnd (if sc_unknown d \<noteq> [] then throw TypeError else ret ()) (\<lambda>_.
     bnd (required (sc_cluster_id d)) (\<lambda>cluster_id.
     bnd (required (sc_model d)) (\<lambda>model.
     bnd (required (sc_subnet d)) (\<lambda>subnet.
     bnd (required (sc_members d)) (\<lambda>members.
     bnd (gets clock) (\<lambda>now.
     ret \<lparr>c_cluster_id = cluster_id, c_model = model, c_subnet = subnet, c_members = members,
       c_status = status, c_ready = set (given [] (sc_ready d)), c_created_at = given now (sc_created_at d),
       c_ips = given [] (sc_ips d), c_layer_windows = sc_layer_windows d\<rparr>)))))))"

section \<open>The import\<close>

text \<open>\<open>INSERT OR IGNORE\<close>: skipped when the row collides with one that is there.\<close>

definition or_ignore :: "('s \<Rightarrow> bool) \<Rightarrow> ('s, unit) act \<Rightarrow> ('s, unit) act" where
  "or_ignore collides m = bnd (gets collides) (\<lambda>c. if c then ret () else m)"

definition import_account :: "snap_account \<Rightarrow> ('z db_scheme, unit) act" where
  "import_account a =
     bnd (field ''account_id'' (sa_account_id a)) (\<lambda>account_id.
     bnd (field ''username'' (sa_username a)) (\<lambda>username.
     bnd (field ''password_hash'' (sa_password_hash a)) (\<lambda>password_hash.
     or_ignore (\<lambda>s. account_id \<in> account_ids s \<or> username \<in> a_username ` set (accounts s))
       (insert_account \<lparr>a_account_id = account_id, a_username = username, a_password_hash = password_hash,
          a_created_at = given 0 (sa_created_at a), a_is_admin = given False (sa_is_admin a),
          a_can_work = given True (sa_can_work a), a_can_use = given True (sa_can_use a),
          a_banned = given False (sa_banned a)\<rparr>))))"

definition import_key :: "snap_key \<Rightarrow> ('z db_scheme, unit) act" where
  "import_key k =
     bnd (field ''key_id'' (sk_key_id k)) (\<lambda>key_id.
     bnd (field ''account_id'' (sk_account_id k)) (\<lambda>account_id.
     bnd (field ''name'' (sk_name k)) (\<lambda>name.
     bnd (field ''scope'' (sk_scope k)) (\<lambda>scope.
     bnd (field ''key_hash'' (sk_key_hash k)) (\<lambda>key_hash.
     or_ignore (\<lambda>s. key_id \<in> key_ids s \<or> key_hash \<in> k_key_hash ` set (api_keys s))
       (insert_api_key \<lparr>k_key_id = key_id, k_account_id = account_id, k_name = name, k_scope = scope,
          k_key_hash = key_hash, k_created_at = given 0 (sk_created_at k), k_worker_id = None\<rparr>))))))"

text \<open>A live cluster of a snapshot has no distribution: it gets the unknown one (\<open>upgraded\<close>).\<close>

definition import_cluster :: "snap_cluster \<Rightarrow> ('z db_scheme, unit) act" where
  "import_cluster d =
     bnd (cluster_from_legacy d) (\<lambda>c.
     let clu = upgraded c in
     seqa (or_ignore (\<lambda>s. c_cluster_id clu \<in> cluster_ids s) (insert_cluster_row (cluster_to_row clu)))
       (for_each (\<lambda>p. insert_or_ignore (member_row_of clu p)) (List.enumerate 0 (c_members clu))))"

definition import_worker :: "snap_worker \<Rightarrow> ('z db_scheme, unit) act" where
  "import_worker d =
     bnd (worker_from_legacy d) (\<lambda>w.
     or_ignore (\<lambda>s. sql_int (w_memory_allocated_mb w) \<and> w_worker_id w \<in> worker_ids s) (create_worker w))"

text \<open>Clusters come before workers, whose \<open>cluster_id\<close> is a foreign key.\<close>

definition import_snapshot :: "snapshot \<Rightarrow> ('z db_scheme, unit) act" where
  "import_snapshot d = atomic
    (seqa (for_each import_account (sn_accounts d))
    (seqa (for_each import_key (sn_api_keys d))
    (seqa (for_each import_cluster (sn_clusters d))
          (for_each import_worker (sn_workers d)))))"

section \<open>Files\<close>

text \<open>A file is a database, a snapshot, or something that is neither.\<close>

datatype stored_file = Database old_db | Snapshot snapshot | Unreadable

record disk = world +
  files :: "string \<Rightarrow> stored_file option"

definition file_exists :: "string \<Rightarrow> disk \<Rightarrow> bool" where
  "file_exists p d \<longleftrightarrow> files d p \<noteq> None"

definition write_file :: "string \<Rightarrow> old_db \<Rightarrow> disk \<Rightarrow> disk" where
  "write_file p s d = d\<lparr>files := (files d)(p \<mapsto> Database s)\<rparr>"

text \<open>The clock and the random source are those of the process, whatever file it opens.\<close>

definition in_world :: "disk \<Rightarrow> old_db \<Rightarrow> old_db" where
  "in_world d s = s\<lparr>clock := clock d, rnd := rnd d, rnd_used := rnd_used d\<rparr>"

text \<open>A new file after \<open>executescript(_SCHEMA)\<close>.\<close>

definition new_db :: "disk \<Rightarrow> old_db" where
  "new_db d = \<lparr>clock = clock d, rnd = rnd d, rnd_used = rnd_used d, accounts = [], api_keys = [], workers = [],
     clusters = [], cluster_members = [], requests = [],
     account_cols = [''account_id'', ''username'', ''password_hash'', ''created_at'', ''is_admin'', ''can_work'', ''can_use'', ''banned''],
     key_cols = [''key_id'', ''account_id'', ''name'', ''scope'', ''key_hash'', ''created_at'', ''worker_id''],
     cluster_cols = [''cluster_id'', ''model'', ''subnet'', ''status'', ''created_at'', ''distribution_reported''],
     members_json = (\<lambda>_. Absent), ready_json = (\<lambda>_. Absent), ips_json = (\<lambda>_. Absent), layer_windows_json = (\<lambda>_. Absent)\<rparr>"

text \<open>\<open>str.endswith\<close>, \<open>os.path.splitext(p)[0]\<close>, \<open>os.path.dirname\<close> and \<open>os.path.join\<close> of POSIX.\<close>

definition ends_with :: "string \<Rightarrow> string \<Rightarrow> bool" where
  "ends_with x p \<longleftrightarrow> length x \<le> length p \<and> drop (length p - length x) p = x"

definition basename :: "string \<Rightarrow> string" where
  "basename p = rev (takeWhile (\<lambda>c. c \<noteq> CHR ''/'') (rev p))"

definition splitext_root :: "string \<Rightarrow> string" where
  "splitext_root p =
     (let b = basename p; stem = rev (tl (dropWhile (\<lambda>c. c \<noteq> CHR ''.'') (rev b))) in
      if CHR ''.'' \<in> set b \<and> list_ex (\<lambda>c. c \<noteq> CHR ''.'') stem
      then take (length p - length b) p @ stem else p)"

definition dirname :: "string \<Rightarrow> string" where
  "dirname p =
     (let h = take (length p - length (basename p)) p in
      if list_all (\<lambda>c. c = CHR ''/'') h then h else rev (dropWhile (\<lambda>c. c = CHR ''/'') (rev h)))"

definition path_join :: "string \<Rightarrow> string \<Rightarrow> string" where
  "path_join a b =
     (if take 1 b = ''/'' then b else if a = [] \<or> last a = CHR ''/'' then a @ b else a @ ''/'' @ b)"

definition legacy_candidates :: "string \<Rightarrow> string list" where
  "legacy_candidates p =
     (if ends_with ''.json'' p then p else splitext_root p @ ''.json'')
     # (if ends_with ''.db'' p then [path_join (dirname p) ''store.json''] else [])"

definition find_legacy_json :: "string \<Rightarrow> disk \<Rightarrow> string option" where
  "find_legacy_json p d = find (\<lambda>c. file_exists c d) (legacy_candidates p)"

text \<open>
  The schema is committed before the import starts, so the new file stays when the import fails. A file
  that cannot be read is logged, and no database is made.
\<close>

definition migrate_from_json :: "string \<Rightarrow> string \<Rightarrow> (disk, unit) act" where
  "migrate_from_json json p = (\<lambda>d.
     case files d json of
       Some (Snapshot sn) \<Rightarrow>
         (case import_snapshot sn (new_db d) of (r, s) \<Rightarrow> (r, write_file p s d))
     | _ \<Rightarrow> (Inr (), d))"

section \<open>Opening a store\<close>

definition open_db :: "string \<Rightarrow> (disk, old_db) act" where
  "open_db p = (\<lambda>d.
     case (case files d p of None \<Rightarrow> Some (new_db d) | Some (Database s) \<Rightarrow> Some (in_world d s) | _ \<Rightarrow> None) of
       None \<Rightarrow> (Inl DatabaseError, d)
     | Some s0 \<Rightarrow>
         (case migrate_schema s0 of
            (Inl e, s) \<Rightarrow> (Inl e, write_file p s d)
          | (Inr _, s) \<Rightarrow> (Inr s, write_file p s d)))"

text \<open>\<open>:memory:\<close>: a database of its own, no file.\<close>

definition open_memory :: "(disk, old_db) act" where
  "open_memory = (\<lambda>d. (case migrate_schema (new_db d) of (Inl e, s) \<Rightarrow> (Inl e, d) | (Inr _, s) \<Rightarrow> (Inr s, d)))"

text \<open>\<open>path or ":memory:"\<close>; a path of the old default names its database sibling.\<close>

definition given_path :: "string option \<Rightarrow> string" where
  "given_path path = (case path of None \<Rightarrow> '':memory:'' | Some x \<Rightarrow> if x = [] then '':memory:'' else x)"

definition db_path :: "string \<Rightarrow> string" where
  "db_path g = (if ends_with ''.json'' g then splitext_root g @ ''.db'' else g)"

definition open_store :: "string option \<Rightarrow> (disk, old_db) act" where
  "open_store path =
     (let g = given_path path; p = db_path g in
      if p = '':memory:'' then open_memory
      else
        bnd (gets (\<lambda>d. ends_with ''.json'' g \<and> \<not> file_exists p d \<and> file_exists g d)) (\<lambda>bring.
        seqa (if bring then migrate_from_json g p else ret ())
       (bnd (gets (file_exists p)) (\<lambda>there.
        seqa (if there then ret ()
              else bnd (gets (find_legacy_json p)) (\<lambda>found.
                   case found of None \<Rightarrow> ret () | Some l \<Rightarrow> migrate_from_json l p))
          (open_db p)))))"

section \<open>What was written is imported\<close>

text \<open>The snapshot of records as the first versions wrote it (\<open>asdict\<close>); a key had no worker yet.\<close>

definition snap_account_of :: "account_rec \<Rightarrow> snap_account" where
  "snap_account_of a = \<lparr>sa_account_id = Some (a_account_id a), sa_username = Some (a_username a),
     sa_password_hash = Some (a_password_hash a), sa_created_at = Some (a_created_at a),
     sa_is_admin = Some (a_is_admin a), sa_can_work = Some (a_can_work a), sa_can_use = Some (a_can_use a),
     sa_banned = Some (a_banned a)\<rparr>"

definition snap_key_of :: "api_key_rec \<Rightarrow> snap_key" where
  "snap_key_of k = \<lparr>sk_key_id = Some (k_key_id k), sk_account_id = Some (k_account_id k), sk_name = Some (k_name k),
     sk_scope = Some (k_scope k), sk_key_hash = Some (k_key_hash k), sk_created_at = Some (k_created_at k)\<rparr>"

text \<open>A set is written as a list of its elements, in any order: \<open>ready c\<close> is the one that was written.\<close>

definition snap_cluster_of :: "(cluster_rec \<Rightarrow> string list) \<Rightarrow> cluster_rec \<Rightarrow> snap_cluster" where
  "snap_cluster_of ready c = \<lparr>sc_cluster_id = Some (c_cluster_id c), sc_model = Some (c_model c),
     sc_subnet = Some (c_subnet c), sc_members = Some (c_members c),
     sc_status = Some (cluster_status_value (c_status c)), sc_ready = Some (ready c),
     sc_created_at = Some (c_created_at c), sc_ips = Some (c_ips c), sc_layer_windows = c_layer_windows c,
     sc_unknown = []\<rparr>"

definition snap_worker_of :: "worker_rec \<Rightarrow> snap_worker" where
  "snap_worker_of w = \<lparr>sw_worker_id = Some (w_worker_id w), sw_account_id = Some (w_account_id w),
     sw_model = Some (w_model w), sw_gguf_sha256 = Some (w_gguf_sha256 w),
     sw_memory_allocated_mb = Some (w_memory_allocated_mb w), sw_wg_pubkey = Some (w_wg_pubkey w),
     sw_endpoint = map_option Inr (w_endpoint w), sw_hardware = map_option Inr (w_hardware w),
     sw_status = Some (worker_status_value (w_status w)), sw_online = Some (w_online w),
     sw_last_heartbeat = Some (w_last_heartbeat w), sw_assignable_at = Some (w_assignable_at w),
     sw_cluster_id = w_cluster_id w, sw_assigned_ip = w_assigned_ip w, sw_ring_position = w_ring_position w,
     sw_created_at = Some (w_created_at w), sw_unknown = []\<rparr>"

definition snapshot_of ::
  "(cluster_rec \<Rightarrow> string list) \<Rightarrow> account_rec list \<Rightarrow> api_key_rec list \<Rightarrow> cluster_rec list \<Rightarrow> worker_rec list \<Rightarrow> snapshot" where
  "snapshot_of ready as ks cs ws = \<lparr>sn_accounts = map snap_account_of as, sn_api_keys = map snap_key_of ks,
     sn_clusters = map (snap_cluster_of ready) cs, sn_workers = map snap_worker_of ws\<rparr>"

definition consistent :: "account_rec list \<Rightarrow> api_key_rec list \<Rightarrow> cluster_rec list \<Rightarrow> worker_rec list \<Rightarrow> bool" where
  "consistent as ks cs ws \<longleftrightarrow>
     distinct (map a_account_id as) \<and> distinct (map a_username as) \<and>
     distinct (map k_key_id ks) \<and> distinct (map k_key_hash ks) \<and>
     list_all (\<lambda>k. k_account_id k \<in> a_account_id ` set as) ks \<and>
     distinct (map c_cluster_id cs) \<and> list_all cluster_wf cs \<and>
     distinct (map w_worker_id ws) \<and>
     list_all (\<lambda>w. w_account_id w \<in> a_account_id ` set as \<and> fk (w_cluster_id w) (c_cluster_id ` set cs) \<and>
        sql_int (w_memory_allocated_mb w)) ws"

lemma cluster_status_roundtrip [simp]: "cluster_status_of (cluster_status_value v) = Inr v"
  by (cases v) (simp_all add: cluster_status_of_def)

lemma wp_read [wp_simps]:
  "wp (field k (Some x)) Q E s = Q x s" "wp (required (Some x)) Q E s = Q x s"
  by (simp_all add: field_def required_def wp_simps)

lemma wp_validated [wp_simps]: "wp (validated (map_option Inr v)) Q E s = Q v s"
  by (simp add: validated_def wp_simps split: option.split)

lemma wp_or_ignore [wp_simps]: "wp (or_ignore c m) Q E s = (if c s then Q () s else wp m Q E s)"
  by (simp add: or_ignore_def wp_simps)

lemma wp_worker_from_legacy [wp_simps]: "wp (worker_from_legacy (snap_worker_of w)) Q E s = Q w s"
  by (cases w) (simp add: worker_from_legacy_def snap_worker_of_def wp_simps given_def)

lemma wp_cluster_from_legacy [wp_simps]:
  "set (ready c) = c_ready c \<Longrightarrow> wp (cluster_from_legacy (snap_cluster_of ready c)) Q E s = Q c s"
  by (cases c) (simp add: cluster_from_legacy_def snap_cluster_of_def wp_simps given_def)

lemma wp_import_accounts:
  assumes "distinct (map a_account_id (accounts s @ as))" and "distinct (map a_username (accounts s @ as))"
  shows "wp (for_each import_account (map snap_account_of as)) Q E s = Q () (s\<lparr>accounts := accounts s @ as\<rparr>)"
  using assms
proof (induction as arbitrary: s)
  case (Cons a as)
  have "wp (import_account (snap_account_of a)) Q' E' s = Q' () (s\<lparr>accounts := accounts s @ [a]\<rparr>)" for Q' E'
    using Cons.prems by (cases a) (auto simp: import_account_def snap_account_of_def wp_simps given_def account_ids_def)
  then show ?case using Cons by (simp add: wp_for_each_Cons wp_seqa)
qed (simp add: wp_ret)

lemma wp_import_keys:
  assumes "distinct (map k_key_id (api_keys s @ ks))" and "distinct (map k_key_hash (api_keys s @ ks))"
    and "list_all (\<lambda>k. k_account_id k \<in> account_ids s) ks"
  shows "wp (for_each import_key (map snap_key_of ks)) Q E s =
    Q () (s\<lparr>api_keys := api_keys s @ map (\<lambda>k. k\<lparr>k_worker_id := None\<rparr>) ks\<rparr>)"
  using assms
proof (induction ks arbitrary: s)
  case (Cons k ks)
  let ?s1 = "s\<lparr>api_keys := api_keys s @ [k\<lparr>k_worker_id := None\<rparr>]\<rparr>"
  have "wp (import_key (snap_key_of k)) Q' E' s = Q' () ?s1" for Q' E'
    using Cons.prems by (cases k) (auto simp: import_key_def snap_key_of_def wp_simps given_def key_ids_def)
  moreover have "list_all (\<lambda>k. k_account_id k \<in> account_ids ?s1) ks"
    using Cons.prems(3) by (simp add: account_ids_def)
  ultimately show ?case using Cons by (simp add: wp_for_each_Cons wp_seqa)
qed (simp add: wp_ret)

lemma wp_import_workers:
  assumes "distinct (map w_worker_id (workers s @ ws))"
    and "list_all (\<lambda>w. w_account_id w \<in> account_ids s \<and> fk (w_cluster_id w) (cluster_ids s) \<and>
        sql_int (w_memory_allocated_mb w)) ws"
  shows "wp (for_each import_worker (map snap_worker_of ws)) Q E s = Q () (s\<lparr>workers := workers s @ ws\<rparr>)"
  using assms
proof (induction ws arbitrary: s)
  case (Cons w ws)
  let ?s1 = "s\<lparr>workers := workers s @ [w]\<rparr>"
  have "wp (import_worker (snap_worker_of w)) Q' E' s = Q' () ?s1" for Q' E'
    using Cons.prems by (auto simp: import_worker_def wp_simps worker_ids_def)
  moreover have "account_ids ?s1 = account_ids s" "cluster_ids ?s1 = cluster_ids s" by (simp_all add: id_sets)
  ultimately show ?case using Cons by (simp add: wp_for_each_Cons wp_seqa)
qed (simp add: wp_ret)

text \<open>What the import of a cluster leaves alone.\<close>

definition beside_clusters :: "old_db \<Rightarrow> account_rec list \<times> api_key_rec list \<times> worker_rec list \<times> string list list" where
  "beside_clusters s = (accounts s, api_keys s, workers s, [account_cols s, key_cols s, cluster_cols s])"

lemma import_cluster_stored:
  assumes "stored ds s" and "distinct (map c_cluster_id (ds @ [c]))" and "cluster_wf c" and "set (ready c) = c_ready c"
  shows "wp (import_cluster (snap_cluster_of ready c)) (\<lambda>_ t. stored (ds @ [upgraded c]) t \<and>
      beside_clusters t = beside_clusters s) (\<lambda>_ _. False) s"
proof -
  let ?u = "upgraded c"
  let ?s1 = "s\<lparr>clusters := clusters s @ [cluster_to_row ?u]\<rparr>"
  have u: "cluster_wf ?u" by (rule upgraded_wf [OF assms(3)])
  have new: "c_cluster_id c \<notin> c_cluster_id ` set ds" using assms(2) by simp
  then have fresh: "c_cluster_id ?u \<notin> cluster_ids s"
    using assms(1) by (auto simp: stored_def cluster_ids_def cluster_to_row_def image_image)
  have free: "cm_cluster_id m \<noteq> c_cluster_id ?u" if m: "m \<in> set (cluster_members ?s1)" for m
    using m new assms(1) by (auto simp: stored_def dest!: in_rows_for)
  have loop: "wp (for_each (\<lambda>p. insert_or_ignore (member_row_of ?u p)) (List.enumerate 0 (c_members ?u))) Q E ?s1 =
    Q () (?s1\<lparr>cluster_members := cluster_members ?s1 @ rows_for ?u\<rparr>)" for Q E
    unfolding rows_for_def
  proof (rule wp_insert_legacy)
    show "c_cluster_id ?u \<in> cluster_ids ?s1" by (simp add: cluster_ids_def cluster_to_row_def)
  qed (use u free in \<open>auto simp: cluster_wf_def\<close>)
  have row: "cr_cluster_id (cluster_to_row ?u) \<notin> cluster_ids s" using fresh by (simp add: cluster_to_row_def)
  show ?thesis
    unfolding import_cluster_def Let_def wp_bnd wp_cluster_from_legacy [of ready c, OF assms(4)] wp_seqa wp_or_ignore
    by (simp only: fresh row if_False wp_insert_cluster_row loop) (use assms(1) in \<open>simp add: stored_def beside_clusters_def\<close>)
qed

lemma import_clusters_stored:
  assumes "stored ds s" and "distinct (map c_cluster_id (ds @ cs))" and "list_all cluster_wf cs"
    and "\<And>c. c \<in> set cs \<Longrightarrow> set (ready c) = c_ready c"
  shows "wp (for_each import_cluster (map (snap_cluster_of ready) cs)) (\<lambda>_ t. stored (ds @ map upgraded cs) t \<and>
      beside_clusters t = beside_clusters s) (\<lambda>_ _. False) s"
  using assms
proof (induction cs arbitrary: ds s)
  case (Cons c cs)
  have "wp (import_cluster (snap_cluster_of ready c)) (\<lambda>_ t. stored (ds @ [upgraded c]) t \<and>
      beside_clusters t = beside_clusters s) (\<lambda>_ _. False) s"
    using Cons.prems by (intro import_cluster_stored) auto
  moreover have "wp (for_each import_cluster (map (snap_cluster_of ready) cs)) (\<lambda>_ t. stored (ds @ map upgraded (c # cs)) t \<and>
      beside_clusters t = beside_clusters s) (\<lambda>_ _. False) u"
    if u: "stored (ds @ [upgraded c]) u \<and> beside_clusters u = beside_clusters s" for u
    using Cons.IH [of "ds @ [upgraded c]" u] Cons.prems u by simp
  ultimately show ?case
    by (simp only: for_each.simps list.map wp_seqa) (erule wp_conseq)
qed (simp add: wp_ret)

text \<open>The whole import into empty tables.\<close>

definition holds_records ::
  "account_rec list \<Rightarrow> api_key_rec list \<Rightarrow> cluster_rec list \<Rightarrow> worker_rec list \<Rightarrow> old_db \<Rightarrow> bool" where
  "holds_records as ks cs ws t \<longleftrightarrow> accounts t = as \<and> api_keys t = map (\<lambda>k. k\<lparr>k_worker_id := None\<rparr>) ks \<and>
     workers t = ws \<and> (\<forall>c \<in> set cs. get_cluster (c_cluster_id c) t = Some (upgraded c))"

lemma import_workers_hold:
  assumes "consistent as ks cs ws" and "stored (map upgraded cs) u"
    and "accounts u = as" and "api_keys u = map (\<lambda>k. k\<lparr>k_worker_id := None\<rparr>) ks" and "workers u = []" and "up_to_date u"
  shows "wp (for_each import_worker (map snap_worker_of ws)) (\<lambda>_ t. holds_records as ks cs ws t \<and> up_to_date t) (\<lambda>_ _. False) u"
proof -
  have c: "distinct (map c_cluster_id cs)" "list_all cluster_wf cs" "distinct (map w_worker_id ws)"
    "list_all (\<lambda>w. w_account_id w \<in> a_account_id ` set as \<and> fk (w_cluster_id w) (c_cluster_id ` set cs) \<and>
        sql_int (w_memory_allocated_mb w)) ws"
    using assms(1) by (simp_all add: consistent_def)
  have ids: "cluster_ids u = c_cluster_id ` set cs"
    using assms(2) by (auto simp: stored_def cluster_ids_def cluster_to_row_def image_image)
  let ?t = "u\<lparr>workers := ws\<rparr>"
  have "get_cluster (c_cluster_id c) ?t = Some (upgraded c)" if x: "c \<in> set cs" for c
  proof -
    have "get_cluster (c_cluster_id (upgraded c)) ?t = Some (upgraded c)"
      using assms(2) x c(1,2) by (intro stored_get [of "map upgraded cs"]) (auto simp: stored_def comp_def list_all_iff upgraded_wf)
    then show ?thesis by simp
  qed
  then have "holds_records as ks cs ws ?t \<and> up_to_date ?t"
    using assms(3-6) by (simp add: holds_records_def up_to_date_def)
  then show ?thesis
    using wp_import_workers [of u ws] c(3,4) assms(3,5) ids by (simp add: account_ids_def)
qed

lemma import_snapshot_holds:
  assumes "consistent as ks cs ws" and "\<And>c. c \<in> set cs \<Longrightarrow> set (ready c) = c_ready c"
    and "accounts s = []" and "api_keys s = []" and "clusters s = []" and "cluster_members s = []" and "workers s = []"
    and "up_to_date s"
  shows "wp (import_snapshot (snapshot_of ready as ks cs ws)) (\<lambda>_ t. holds_records as ks cs ws t \<and> up_to_date t) (\<lambda>_ _. False) s"
proof -
  let ?s1 = "s\<lparr>accounts := as\<rparr>"
  let ?s2 = "?s1\<lparr>api_keys := map (\<lambda>k. k\<lparr>k_worker_id := None\<rparr>) ks\<rparr>"
  have c: "distinct (map a_account_id as)" "distinct (map a_username as)" "distinct (map k_key_id ks)" "distinct (map k_key_hash ks)"
    "list_all (\<lambda>k. k_account_id k \<in> a_account_id ` set as) ks" "distinct (map c_cluster_id cs)" "list_all cluster_wf cs"
    "distinct (map w_worker_id ws)" "list_all (\<lambda>w. w_account_id w \<in> a_account_id ` set as \<and> fk (w_cluster_id w) (c_cluster_id ` set cs) \<and>
        sql_int (w_memory_allocated_mb w)) ws"
    using assms(1) by (simp_all add: consistent_def)
  have acc: "wp (for_each import_account (map snap_account_of as)) Q E s = Q () ?s1" for Q E
    using wp_import_accounts [of s as Q E] c(1,2) assms(3) by simp
  have key: "wp (for_each import_key (map snap_key_of ks)) Q E ?s1 = Q () ?s2" for Q E
    using wp_import_keys [of ?s1 ks Q E] c(3-5) assms(4) by (simp add: account_ids_def)
  have "stored [] ?s2" using assms(5,6) by (simp add: stored_def)
  then have clu: "wp (for_each import_cluster (map (snap_cluster_of ready) cs)) (\<lambda>_ t. stored (map upgraded cs) t \<and>
      beside_clusters t = beside_clusters ?s2) (\<lambda>_ _. False) ?s2"
    using import_clusters_stored [of "[]" ?s2 cs ready] c(6,7) assms(2) by simp
  have wrk: "wp (for_each import_worker (map snap_worker_of ws)) (\<lambda>_ t. holds_records as ks cs ws t \<and> up_to_date t) (\<lambda>_ _. False) u"
    if u: "stored (map upgraded cs) u \<and> beside_clusters u = beside_clusters ?s2" for u
  proof (rule import_workers_hold [OF assms(1)])
    show "stored (map upgraded cs) u" using u by blast
  qed (use u assms(7,8) in \<open>auto simp: beside_clusters_def up_to_date_def\<close>)
  show ?thesis
    by (simp only: import_snapshot_def snapshot_of_def snapshot.simps wp_atomic wp_seqa acc key)
      (rule wp_conseq [OF clu]; simp add: wrk)
qed

section \<open>Opening again\<close>

lemma new_db_up_to_date: "up_to_date (new_db d)"
  by (simp add: up_to_date_def new_db_def)

lemma world_migrate: "keeps (\<lambda>s. P (clock s) (rnd s) (rnd_used s)) migrate_schema"
proof -
  have ins: "keeps (\<lambda>s. P (clock s) (rnd s) (rnd_used s)) (insert_or_ignore m :: (old_db, unit) act)" for m
    by (rule keepsI) (simp add: insert_or_ignore_def wp_def)
  have upd: "keeps (\<lambda>s. P (clock s) (rnd s) (rnd_used s)) (update_cluster_rows cid f :: (old_db, unit) act)" for cid f
    unfolding update_cluster_rows_def by (rule keeps_puts) simp
  have put: "keeps (\<lambda>s. P (clock s) (rnd s) (rnd_used s)) (puts f :: (old_db, unit) act)"
    if f: "\<And>s. clock (f s) = clock s \<and> rnd (f s) = rnd s \<and> rnd_used (f s) = rnd_used s" for f
    by (rule keeps_puts) (simp add: f)
  show ?thesis
    unfolding migrate_schema_def migrate_keys_def migrate_clusters_def migrate_accounts_def add_account_column_def
      backfill_live_def drop_json_columns_def populate_cluster_members_def populate_row_def
    by (intro keeps_intros ins upd put) simp_all
qed

text \<open>A database file that is up to date and was written by this process.\<close>

definition settled :: "string \<Rightarrow> old_db \<Rightarrow> disk \<Rightarrow> bool" where
  "settled p t d \<longleftrightarrow> files d p = Some (Database t) \<and> migrate_schema t = (Inr (), t) \<and> in_world d t = t"

lemma settled_write:
  assumes "migrate_schema t = (Inr (), t)" and "in_world d t = t"
  shows "settled p t (write_file p t d)"
  using assms by (simp add: settled_def write_file_def in_world_def)

lemma new_db_migrated: "migrate_schema (new_db d) = (Inr (), new_db d)"
  by (rule up_to_date_noop [OF new_db_up_to_date])

lemma new_db_world: "in_world d (new_db d) = new_db d"
  by (simp add: in_world_def new_db_def)

lemma open_db_settles: "wp (open_db p) (\<lambda>t. settled p t) (\<lambda>_ _. True) d"
proof -
  have one: "settled p t (write_file p t d)" if t: "migrate_schema s = (Inr (), t)" "in_world d s = s" for s t
  proof (rule settled_write)
    show "migrate_schema t = (Inr (), t)" using migration_idempotent [of s] t(1) by (simp add: wp_def)
    have w: "clock s = clock d \<and> rnd s = rnd d \<and> rnd_used s = rnd_used d"
      using arg_cong [OF t(2), of clock] arg_cong [OF t(2), of rnd] arg_cong [OF t(2), of rnd_used]
      by (simp add: in_world_def)
    show "in_world d t = t"
      using keeps_wpD [OF world_migrate [of "\<lambda>c r u. c = clock d \<and> r = rnd d \<and> u = rnd_used d"], of s] w t(1)
      by (simp add: wp_def in_world_def)
  qed
  have ww: "in_world d (in_world d s) = in_world d s" for s by (simp add: in_world_def)
  show ?thesis
    by (auto simp: wp_def open_db_def new_db_world ww one split: option.splits stored_file.splits sum.splits prod.splits)
qed

lemma open_db_again: "settled p t d \<Longrightarrow> open_db p d = (Inr t, d)"
  by (cases d) (simp add: settled_def open_db_def write_file_def fun_upd_idem)

lemma open_store_settled:
  assumes "settled (db_path (given_path path)) t d" and "db_path (given_path path) \<noteq> '':memory:''"
  shows "open_store path d = (Inr t, d)"
proof -
  have "file_exists (db_path (given_path path)) d" using assms(1) by (simp add: settled_def file_exists_def)
  then show ?thesis
    using open_db_again [OF assms(1)] assms(2) by (simp add: open_store_def Let_def act_defs)
qed

text \<open>Opening a file is an import that may happen, then \<open>open_db\<close>.\<close>

lemma open_store_wp:
  assumes "db_path (given_path path) \<noteq> '':memory:''"
    and imp: "\<And>j. keeps J (migrate_from_json j (db_path (given_path path)))"
    and fin: "\<And>u. J u \<Longrightarrow> wp (open_db (db_path (given_path path))) Q E u" and "\<And>e u. J u \<Longrightarrow> E e u" and "J d"
  shows "wp (open_store path) Q E d"
proof -
  have pre: "wp (seqa m n) Q E u" if m: "keeps J m" and n: "\<And>v. J v \<Longrightarrow> wp n Q E v" and u: "J u"
    for m :: "(disk, unit) act" and n u
    unfolding wp_seqa by (rule wp_conseq [OF keeps_wpD [OF m u]]) (use n assms(4) in auto)
  have rest: "wp (bnd (gets (file_exists p)) (\<lambda>there. seqa (m there) (open_db p))) Q E u"
    if m: "\<And>there. keeps J (m there)" and u: "J u" and p: "p = db_path (given_path path)" for m :: "bool \<Rightarrow> (disk, unit) act" and p u
    unfolding wp_bnd wp_gets p by (rule pre [OF m _ u], rule fin)
  have both: "wp (seqa m (bnd (gets (file_exists (db_path (given_path path)))) (\<lambda>there.
        seqa (if there then ret () else bnd (gets (find_legacy_json (db_path (given_path path)))) (\<lambda>found.
            case found of None \<Rightarrow> ret () | Some l \<Rightarrow> migrate_from_json l (db_path (given_path path))))
          (open_db (db_path (given_path path)))))) Q E d" if m: "keeps J m" for m :: "(disk, unit) act"
    by (rule pre [OF m _ assms(5)], rule rest [OF _ _ refl], intro keeps_intros imp)
  show ?thesis
    using assms(1) both [OF keeps_ret] both [OF imp]
    by (simp add: open_store_def Let_def wp_bnd [of "gets _"] wp_gets)
qed

text \<open>C16: Opening a store is idempotent: once it opened, whatever had to be imported or migrated, opening the
  same path again gives the same tables and leaves every file as it is.\<close>

theorem store_reopens: "wp (open_store path) (\<lambda>t d'. open_store path d' = (Inr t, d')) (\<lambda>_ _. True) d"
proof (cases "db_path (given_path path) = '':memory:''")
  case True
  then show ?thesis by (simp add: wp_def open_store_def Let_def open_memory_def new_db_migrated)
next
  case False
  have "wp (open_db (db_path (given_path path))) (\<lambda>t d'. open_store path d' = (Inr t, d')) (\<lambda>_ _. True) u" for u
    by (rule wp_conseq [OF open_db_settles]) (simp_all add: open_store_settled [OF _ False])
  then show ?thesis by (rule open_store_wp [where J = "\<lambda>_. True", OF False, rotated]) (simp_all add: keeps_wp wp_def split: prod.split sum.split)
qed

section \<open>The schema of an opened store\<close>

definition sound_files :: "disk \<Rightarrow> bool" where
  "sound_files d \<longleftrightarrow> (\<forall>p s. files d p = Some (Database s) \<longrightarrow> schema_ok s)"

lemma keeps_schema_import: "keeps schema_ok (import_snapshot sn)"
  unfolding import_snapshot_def import_account_def import_key_def import_cluster_def import_worker_def
    worker_from_legacy_def cluster_from_legacy_def field_def required_def validated_def or_ignore_def
  by (intro keeps_intros keeps_schema_insert_account keeps_schema_insert_api_key keeps_schema_create_worker
      keeps_schema_insert_cluster keeps_schema_insert_or_ignore)

lemma schema_in_world [simp]: "schema_ok (in_world d s) = schema_ok s"
  by (simp add: in_world_def schema_ok_def table_oks id_sets)

lemma schema_new_db: "schema_ok (new_db d)"
  by (simp add: new_db_def schema_ok_def table_oks)

lemma sound_write: "sound_files d \<Longrightarrow> schema_ok s \<Longrightarrow> sound_files (write_file p s d)"
  by (simp add: sound_files_def write_file_def)

lemma keeps_sound_import: "keeps sound_files (migrate_from_json j p)"
proof (rule keepsI)
  fix d
  assume d: "sound_files d"
  have "sound_files (write_file p s d)" if s: "import_snapshot sn (new_db d) = (r, s)" for sn r s
    using keeps_wpD [OF keeps_schema_import [of sn] schema_new_db [of d]] s d
    by (intro sound_write) (simp_all add: wp_def split: sum.splits)
  then show "wp (migrate_from_json j p) (\<lambda>_. sound_files) (\<lambda>_. sound_files) d"
    using d by (auto simp: wp_def migrate_from_json_def split: option.splits stored_file.splits prod.splits sum.splits)
qed

lemma open_db_sound:
  assumes "sound_files d"
  shows "wp (open_db p) (\<lambda>t d'. schema_ok t \<and> sound_files d') (\<lambda>_. sound_files) d"
proof -
  have "schema_ok t \<and> sound_files (write_file p t d)" if t: "migrate_schema s = (r, t)" "schema_ok s" for s r t
    using keeps_wpD [OF keeps_schema_migrate t(2)] t(1) sound_write [OF assms, of t] by (simp add: wp_def split: sum.splits)
  moreover have "schema_ok s" if s: "files d p = Some (Database s)" for s
    using s assms by (simp add: sound_files_def)
  ultimately show ?thesis
    using schema_new_db assms
    by (auto simp: wp_def open_db_def split: option.splits stored_file.splits sum.splits prod.splits)
qed

text \<open>C15: Whatever snapshot is imported and whatever database is migrated, the opened store keeps the schema: ids,
  names and hashes are unique, every reference points to a row, and the integers fit; a start that fails
  leaves no database that breaks it.\<close>

theorem opened_store_schema:
  assumes "sound_files d"
  shows "wp (open_store path) (\<lambda>t d'. schema_ok t \<and> sound_files d') (\<lambda>_. sound_files) d"
proof (cases "db_path (given_path path) = '':memory:''")
  case True
  then show ?thesis
    using assms by (simp add: wp_def open_store_def Let_def open_memory_def new_db_migrated schema_new_db)
next
  case False
  show ?thesis by (rule open_store_wp [OF False keeps_sound_import open_db_sound _ assms]) assumption
qed

section \<open>Opening an old snapshot\<close>

lemma db_path_json: "ends_with ''.json'' j \<Longrightarrow> db_path j \<noteq> '':memory:''"
  by (auto simp: db_path_def dest: arg_cong [of _ _ last])

lemma open_store_json:
  assumes "ends_with ''.json'' j" and "files d j = Some (Snapshot sn)" and "files d (db_path j) = None"
  shows "open_store (Some j) d = (case import_snapshot sn (new_db d) of
      (Inl e, s) \<Rightarrow> (Inl e, write_file (db_path j) s d)
    | (Inr _, s) \<Rightarrow> open_db (db_path j) (write_file (db_path j) s d))"
proof -
  have "j \<noteq> []" using assms(1) by (auto simp: ends_with_def)
  then have g: "given_path (Some j) = j" by (simp add: given_path_def)
  have there: "file_exists (db_path j) (write_file (db_path j) s d)" for s by (simp add: file_exists_def write_file_def)
  show ?thesis
    using assms db_path_json [OF assms(1)] there
    by (simp add: open_store_def g Let_def file_exists_def migrate_from_json_def act_defs split: prod.split sum.split)
qed

lemma open_db_holds:
  assumes "holds_records as ks cs ws s" and "up_to_date s"
  shows "wp (open_db p) (\<lambda>t _. holds_records as ks cs ws t) (\<lambda>_ _. False) (write_file p s d)"
proof -
  let ?d = "write_file p s d"
  have "up_to_date (in_world ?d s)" using assms(2) by (simp add: up_to_date_def in_world_def)
  then have "migrate_schema (in_world ?d s) = (Inr (), in_world ?d s)" by (rule up_to_date_noop)
  moreover have "files ?d p = Some (Database s)" by (simp add: write_file_def)
  moreover have "get_cluster x (in_world ?d s) = get_cluster x s" for x
    by (simp add: in_world_def get_cluster_def load_cluster_members_def cluster_row_of_def rows_of_def split: option.split)
  then have "holds_records as ks cs ws (in_world ?d s)"
    using assms(1) by (simp add: holds_records_def in_world_def)
  ultimately show ?thesis by (simp add: wp_def open_db_def)
qed

text \<open>C14: Nothing of an old JSON store is lost: when its records are consistent, opening it makes the database and
  every account, key, worker and cluster is there as it was written; keys have no worker, and a live cluster
  without a distribution gets the unknown one.\<close>

theorem snapshot_roundtrip:
  assumes "consistent as ks cs ws" and "\<And>c. c \<in> set cs \<Longrightarrow> set (ready c) = c_ready c"
    and "ends_with ''.json'' j" and "files d (db_path j) = None"
    and "files d j = Some (Snapshot (snapshot_of ready as ks cs ws))"
  shows "wp (open_store (Some j)) (\<lambda>t _. accounts t = as \<and> api_keys t = map (\<lambda>k. k\<lparr>k_worker_id := None\<rparr>) ks \<and>
      workers t = ws \<and> (\<forall>c \<in> set cs. get_cluster (c_cluster_id c) t = Some (upgraded c))) (\<lambda>_ _. False) d"
proof -
  let ?sn = "snapshot_of ready as ks cs ws"
  have "wp (import_snapshot ?sn) (\<lambda>_ t. holds_records as ks cs ws t \<and> up_to_date t) (\<lambda>_ _. False) (new_db d)"
    by (rule import_snapshot_holds [OF assms(1,2)]) (simp_all add: new_db_up_to_date, simp_all add: new_db_def)
  then obtain s where s: "import_snapshot ?sn (new_db d) = (Inr (), s)" "holds_records as ks cs ws s" "up_to_date s"
    by (auto simp: wp_def split: prod.splits sum.splits)
  have "wp (open_store (Some j)) (\<lambda>t _. holds_records as ks cs ws t) (\<lambda>_ _. False) d"
    using open_db_holds [OF s(2,3), of "db_path j" d]
    by (simp add: wp_def open_store_json [OF assms(3,5,4)] s(1))
  then show ?thesis by (simp add: holds_records_def)
qed

definition old_account :: account_rec where
  "old_account = \<lparr>a_account_id = ''acc_1'', a_username = ''ann'', a_password_hash = ''h'', a_created_at = 1,
     a_is_admin = False, a_can_work = True, a_can_use = True, a_banned = False\<rparr>"

definition old_key :: api_key_rec where
  "old_key = \<lparr>k_key_id = ''key_1'', k_account_id = ''acc_1'', k_name = ''laptop'', k_scope = ''worker'',
     k_key_hash = ''k'', k_created_at = 2, k_worker_id = None\<rparr>"

definition old_worker :: worker_rec where
  "old_worker = \<lparr>w_worker_id = ''a'', w_account_id = ''acc_1'', w_model = ''m'', w_gguf_sha256 = [],
     w_memory_allocated_mb = 10, w_wg_pubkey = ''pub'', w_endpoint = None, w_hardware = None, w_status = assigned,
     w_online = True, w_last_heartbeat = 5, w_assignable_at = 3, w_cluster_id = Some ''clu_1'',
     w_assigned_ip = Some ''10.23.1.1'', w_ring_position = Some 0, w_created_at = 2\<rparr>"

definition disk_with :: "snapshot \<Rightarrow> disk" where
  "disk_with sn = \<lparr>clock = 100, rnd = str_nat, rnd_used = 0, files = [''store.json'' \<mapsto> Snapshot sn]\<rparr>"

lemma store_db: "db_path ''store.json'' = ''store.db''" and store_json: "ends_with ''.json'' ''store.json''"
  by (simp_all add: db_path_def ends_with_def splitext_root_def basename_def Let_def)

lemma live_demo_wf: "cluster_wf live_demo"
  using old_demo_holds by (simp add: holds_legacy_def)

theorem snapshot_roundtrip_witness:
  "wp (open_store (Some ''store.json'')) (\<lambda>t _. accounts t = [old_account] \<and> workers t = [old_worker] \<and>
      get_cluster ''clu_1'' t = Some (live_demo\<lparr>c_layer_windows := Some []\<rparr>)) (\<lambda>_ _. False)
    (disk_with (snapshot_of (\<lambda>_. [''a'']) [old_account] [old_key] [live_demo] [old_worker]))"
proof -
  let ?sn = "snapshot_of (\<lambda>_. [''a'']) [old_account] [old_key] [live_demo] [old_worker]"
  have ok: "consistent [old_account] [old_key] [live_demo] [old_worker]"
    using live_demo_wf by (simp add: consistent_def old_account_def old_key_def old_worker_def fk_def sql_int_def
        live_demo_def demo_cluster_def)
  have d: "files (disk_with ?sn) (db_path ''store.json'') = None" "files (disk_with ?sn) ''store.json'' = Some (Snapshot ?sn)"
    by (simp_all add: disk_with_def store_db)
  have r: "set [''a''] = c_ready c" if "c \<in> set [live_demo]" for c using that by (simp add: live_demo_def)
  show ?thesis
    by (rule wp_conseq [OF snapshot_roundtrip [OF ok r store_json d]]) (simp_all add: live_demo_def demo_cluster_def upgraded_def)
qed

text \<open>C17: An import that fails is never tried again: the first start raises and leaves an empty database, which the
  next start opens.\<close>

theorem failed_import_not_retried:
  assumes "ends_with ''.json'' j" and "files d (db_path j) = None" and "files d j = Some (Snapshot sn)"
    and "fst (import_snapshot sn (new_db d)) = Inl e"
  shows "\<exists>d'. open_store (Some j) d = (Inl e, d') \<and> open_store (Some j) d' = (Inr (new_db d), d')"
proof -
  let ?d' = "write_file (db_path j) (new_db d) d"
  have "import_snapshot sn (new_db d) = (Inl e, new_db d)"
    using assms(4) unfolding import_snapshot_def atomic_def by (auto split: prod.splits sum.splits)
  then have "open_store (Some j) d = (Inl e, ?d')"
    by (simp add: open_store_json [OF assms(1,3,2)])
  moreover have "given_path (Some j) = j" using assms(1) by (auto simp: given_path_def ends_with_def)
  then have "open_store (Some j) ?d' = (Inr (new_db d), ?d')"
    using settled_write [OF new_db_migrated new_db_world, of "db_path j"] db_path_json [OF assms(1)]
    by (intro open_store_settled) simp_all
  ultimately show ?thesis by blast
qed

text \<open>A key whose account was deleted: the foreign key of the new schema refuses it.\<close>

theorem failed_import_not_retried_witness:
  "let d = disk_with (snapshot_of (\<lambda>_. []) [] [old_key] [] []) in
   \<exists>d'. open_store (Some ''store.json'') d = (Inl IntegrityError, d') \<and>
     open_store (Some ''store.json'') d' = (Inr (new_db d), d')"
proof -
  let ?sn = "snapshot_of (\<lambda>_. []) [] [old_key] [] []"
  let ?d = "disk_with ?sn"
  have "files ?d (db_path ''store.json'') = None" "files ?d ''store.json'' = Some (Snapshot ?sn)"
    by (simp_all add: disk_with_def store_db)
  moreover have "fst (import_snapshot ?sn (new_db ?d)) = Inl IntegrityError"
    by (simp add: import_snapshot_def snapshot_of_def import_key_def snap_key_of_def field_def or_ignore_def act_defs
        new_db_def key_ids_def account_ids_def insert_api_key_def)
  ultimately show ?thesis
    unfolding Let_def by (rule failed_import_not_retried [OF store_json])
qed

theorem opened_store_schema_witness:
  "wp (open_store (Some ''store.json'')) (\<lambda>t _. schema_ok t) (\<lambda>_. sound_files) (disk_with (snapshot_of (\<lambda>_. []) [] [old_key] [] []))"
proof -
  have "sound_files (disk_with sn)" for sn by (simp add: sound_files_def disk_with_def)
  from opened_store_schema [OF this] show ?thesis by (rule wp_conseq) simp_all
qed

end
