(* ===== verification/Pool_Launch.thy ===== *)
theory Pool_Launch
  imports Pool_System Pool_Snapshot Pool_Config
begin

text \<open>
  How a server starts: the command line (cli.py), the settings out of the environment (config.py), the store
  at the configured path, and the bootstrap of \<open>create_app\<close> (app.py). The environment maps names to texts.
\<close>

type_synonym environ = "string \<Rightarrow> string option"

section \<open>The command line\<close>

record cli_args =
  arg_host :: "string option"
  arg_port :: "int option"
  arg_store :: "string option"

text \<open>
  \<open>_load_dotenv\<close>: the first \<open>.env\<close> among the working directory and its parents. What python-dotenv makes of the
  file is a parameter.
\<close>

definition load_dotenv_first :: "(string \<Rightarrow> bool) \<Rightarrow> (string \<Rightarrow> environ \<Rightarrow> environ) \<Rightarrow> string list \<Rightarrow> environ \<Rightarrow> environ" where
  "load_dotenv_first is_file load_dotenv dirs v =
     (case find is_file (map (\<lambda>p. path_join p ''.env'') dirs) of None \<Rightarrow> v | Some candidate \<Rightarrow> load_dotenv candidate v)"

definition env_str :: "string \<Rightarrow> string \<Rightarrow> environ \<Rightarrow> string" where
  "env_str name dflt v = (case v name of None \<Rightarrow> dflt | Some x \<Rightarrow> x)"

text \<open>\<open>main\<close>: where uvicorn binds, and the environment that the application reads.\<close>

definition bind_host :: "cli_args \<Rightarrow> environ \<Rightarrow> string" where
  "bind_host args v = (case arg_host args of
     Some h \<Rightarrow> if h \<noteq> [] then h else env_str ''PRIMA_POOL_HOST'' ''0.0.0.0'' v
   | None \<Rightarrow> env_str ''PRIMA_POOL_HOST'' ''0.0.0.0'' v)"

definition bind_port :: "cli_args \<Rightarrow> environ \<Rightarrow> exn + int" where
  "bind_port args v = (case arg_port args of
     Some p \<Rightarrow> if p \<noteq> 0 then Inr p else py_int (env_str ''PRIMA_POOL_PORT'' ''8000'' v)
   | None \<Rightarrow> py_int (env_str ''PRIMA_POOL_PORT'' ''8000'' v))"

definition main_cli :: "cli_args \<Rightarrow> environ \<Rightarrow> exn + (string \<times> int \<times> environ)" where
  "main_cli args v =
     (case bind_port args v of Inl x \<Rightarrow> Inl x
      | Inr p \<Rightarrow> Inr (bind_host args v, p,
          case arg_store args of None \<Rightarrow> v
          | Some s \<Rightarrow> if s \<noteq> [] then v(''PRIMA_POOL_STORE_PATH'' \<mapsto> s) else v))"

section \<open>The settings\<close>

text \<open>\<open>float(n)\<close> of an integer raises when it rounds to more than the largest double; it is exact here.\<close>

definition py_float :: "int \<Rightarrow> exn + rat" where
  "py_float n = (if \<bar>n\<bar> < 2 ^ 1024 - 2 ^ 970 then Inr (of_int n) else Inl OverflowError)"

definition read_int :: "string \<Rightarrow> int \<Rightarrow> (environ, int) act" where
  "read_int name dflt = asks (\<lambda>v. env_int (v name) dflt)"

definition read_period :: "string \<Rightarrow> int \<Rightarrow> (environ, rat) act" where
  "read_period name dflt = bnd (read_int name dflt) (\<lambda>n. lift_result (py_float n))"

definition read_bool :: "string \<Rightarrow> bool \<Rightarrow> environ \<Rightarrow> bool" where
  "read_bool name dflt v = env_bool (v name) dflt"

definition load_settings :: "(environ, settings) act" where
  "load_settings =
     bnd (read_int ''PRIMA_POOL_PORT'' 8000) (\<lambda>v_port.
     bnd (read_int ''PRIMA_POOL_SESSION_TTL_S'' 3600) (\<lambda>v_ttl.
     bnd (read_period ''PRIMA_POOL_HEARTBEAT_TIMEOUT_S'' 30) (\<lambda>v_timeout.
     bnd (read_period ''PRIMA_POOL_HEARTBEAT_INTERVAL_S'' 10) (\<lambda>v_interval.
     bnd (read_period ''PRIMA_POOL_ASSIGNABLE_GRACE_S'' 5) (\<lambda>v_grace.
     bnd (read_int ''PRIMA_POOL_MAX_WORKERS_PER_ACCOUNT'' 5) (\<lambda>v_max.
     bnd (read_int ''PRIMA_POOL_API_PORT'' 8080) (\<lambda>v_api.
     bnd (read_int ''PRIMA_POOL_WG_MTU'' 1280) (\<lambda>v_mtu.
     bnd (read_int ''PRIMA_POOL_SERVER_WG_LISTEN_PORT'' 51821) (\<lambda>v_listen.
     bnd (read_int ''PRIMA_POOL_SERVER_WG_IP_OFFSET'' 254) (\<lambda>v_offset.
     gets (\<lambda>v. \<lparr>
       host = env_str ''PRIMA_POOL_HOST'' ''0.0.0.0'' v,
       port = v_port,
       public_base_url = env_str ''PRIMA_POOL_PUBLIC_BASE_URL'' ''http://127.0.0.1:8000'' v,
       session_ttl_s = v_ttl,
       session_secret = env_str ''PRIMA_POOL_SESSION_SECRET'' ''dev-session-secret-change-me'' v,
       heartbeat_timeout_s = v_timeout,
       heartbeat_interval_s = v_interval,
       assignable_grace_s = v_grace,
       max_workers_per_account = v_max,
       work_permissionless = read_bool ''PRIMA_POOL_WORK_PERMISSIONLESS'' True v,
       use_permissionless = read_bool ''PRIMA_POOL_USE_PERMISSIONLESS'' True v,
       first_account = env_str ''PRIMA_POOL_FIRST_ACCOUNT'' [] v,
       models = parse_models (v ''PRIMA_POOL_MODELS''),
       api_port = v_api,
       cluster_subnet_prefix = ''10.23'',
       wg_mtu = v_mtu,
       wg_persistent_keepalive = 25,
       server_wg_private_key = env_str ''PRIMA_POOL_SERVER_WG_PRIVATE_KEY'' [] v,
       server_wg_listen_port = v_listen,
       server_wg_interface = env_str ''PRIMA_POOL_SERVER_WG_INTERFACE'' ''prima-pool-srv'' v,
       server_wg_conf_dir = env_str ''PRIMA_POOL_SERVER_WG_CONF_DIR'' ''/etc/wireguard'' v,
       server_wg_endpoint_host = env_str ''PRIMA_POOL_SERVER_WG_ENDPOINT_HOST'' [] v,
       server_wg_ip_offset = v_offset,
       server_join_wg = read_bool ''PRIMA_POOL_SERVER_JOIN_WG'' False v,
       relay_enabled = read_bool ''PRIMA_POOL_RELAY_ENABLED'' False v,
       relay_pubkey = env_str ''PRIMA_POOL_RELAY_PUBKEY'' [] v,
       relay_endpoint = env_str ''PRIMA_POOL_RELAY_ENDPOINT'' [] v,
       ws_reconnect_backoff_s = [1, 30]\<rparr>)))))))))))"

section \<open>The application\<close>

definition settings_path_from_env :: "environ \<Rightarrow> string option" where
  "settings_path_from_env v = v ''PRIMA_POOL_STORE_PATH''"

text \<open>The state of a process that has just opened its store.\<close>

definition pool_of :: "old_db \<Rightarrow> pool" where
  "pool_of t = \<lparr>clock = clock t, rnd = rnd t, rnd_used = rnd_used t, accounts = accounts t, api_keys = api_keys t,
     workers = workers t, clusters = clusters t, cluster_members = cluster_members t, requests = requests t,
     wg_private = [], wg_public = [], wg_log = [], tasks = [], conns = [], sent = [],
     accepting = [], socks = [], flights = [], admitted = [], calls = []\<rparr>"

text \<open>
  \<open>create_app()\<close> with no arguments, and the start of its lifespan. The first argument is the environment of
  primitives, whose settings are the loaded ones. The answer is the application and its state.
\<close>

definition launch :: "env \<Rightarrow> environ \<Rightarrow> (disk, env \<times> pool) act" where
  "launch e0 v =
     bnd (lift_result (fst (load_settings v))) (\<lambda>st.
     bnd (open_store (settings_path_from_env v)) (\<lambda>t.
     let e = e0\<lparr>cfg := st\<rparr> in
     bnd (lift_result (fst (start_server e (pool_of t)))) (\<lambda>_.
     ret (e, run_state (start_server e) (pool_of t)))))"

section \<open>A launched server\<close>

lemma settings_max_workers:
  assumes "fst (load_settings v) = Inr st"
  shows "env_int (v ''PRIMA_POOL_MAX_WORKERS_PER_ACCOUNT'') 5 = Inr (max_workers_per_account st)"
proof -
  have "wp load_settings (\<lambda>st _. env_int (v ''PRIMA_POOL_MAX_WORKERS_PER_ACCOUNT'') 5 = Inr (max_workers_per_account st)) (\<lambda>_ _. True) v"
    by (simp add: load_settings_def read_int_def read_period_def wp_simps split: sum.split)
  then show ?thesis using assms by (simp add: wp_def split: prod.splits)
qed

lemma open_store_fresh:
  assumes "files d = (\<lambda>_. None)"
  shows "\<exists>d'. open_store path d = (Inr (new_db d), d')"
proof (cases "db_path (given_path path) = '':memory:''")
  case True
  then show ?thesis by (simp add: open_store_def Let_def open_memory_def new_db_migrated)
next
  case False
  have none: "\<not> file_exists p d" for p by (simp add: file_exists_def assms)
  then have "find_legacy_json p d = None" for p by (simp add: find_legacy_json_def find_None_iff)
  then show ?thesis
    using False by (simp add: open_store_def Let_def none act_defs open_db_def assms new_db_migrated)
qed

lemma launch_fresh:
  assumes "files d = (\<lambda>_. None)" and "launch e0 v d = (Inr (e, s), d')"
  shows "fst (load_settings v) = Inr (cfg e) \<and> s = run_state (start_server e) (pool_of (new_db d))"
proof -
  obtain d1 where "open_store (settings_path_from_env v) d = (Inr (new_db d), d1)"
    using open_store_fresh [OF assms(1)] by blast
  then show ?thesis
    using assms(2) by (auto simp: launch_def act_defs Let_def split: sum.splits prod.splits)
qed

text \<open>C4: From the environment of the process to every run: a server that is launched on a machine without files
  keeps the schema of its tables whatever happens to it, and no account ever has more workers than the
  number that \<open>PRIMA_POOL_MAX_WORKERS_PER_ACCOUNT\<close> names (5 if it is not set).\<close>

theorem launched_run:
  assumes "files d = (\<lambda>_. None)" and "launch e0 v d = (Inr (e, s0), d')" and "reachable e s0 s"
    and "env_int (v ''PRIMA_POOL_MAX_WORKERS_PER_ACCOUNT'') 5 = Inr n"
  shows "schema_ok s \<and> int (length (list_workers_for_account a s)) \<le> max 0 n"
proof -
  note l = launch_fresh [OF assms(1,2)]
  have n: "max_workers_per_account (cfg e) = n"
    using settings_max_workers [OF conjunct1 [OF l]] assms(4) by simp
  have "good e (pool_of (new_db d))" by (rule blank_good) (simp_all add: pool_of_def new_db_def)
  then have "good e s0"
    using l keepsD [OF steady_good.keeps_start] by (simp add: run_state_def)
  from steady_good.reachable_kept [OF assms(3) this] have "good e s" .
  then have "schema_ok s" "quota_ok e s" by (simp_all add: good_def pool_ok_def store_ok_def)
  then show ?thesis using n by (simp add: quota_ok_def)
qed

definition empty_disk :: disk where
  "empty_disk = \<lparr>clock = 100, rnd = str_nat, rnd_used = 0, files = (\<lambda>_. None)\<rparr>"

text \<open>With the environment empty: an in-memory store, and a monitor pass at any later time.\<close>

theorem launched_run_witness:
  "\<exists>e s0 d'. launch demo_env (\<lambda>_. None) empty_disk = (Inr (e, s0), d') \<and>
     schema_ok (run_state (monitor_pass e) (s0\<lparr>clock := 500\<rparr>)) \<and>
     int (length (list_workers_for_account ''acc_1'' (run_state (monitor_pass e) (s0\<lparr>clock := 500\<rparr>)))) \<le> 5"
proof -
  obtain st where st: "fst (load_settings (\<lambda>_. None)) = Inr st" "first_account st = []" "server_wg_private_key st = []"
    by (simp add: load_settings_def read_int_def read_period_def env_int_def py_float_def env_str_def act_defs)
  obtain d1 where "open_store (settings_path_from_env (\<lambda>_. None)) empty_disk = (Inr (new_db empty_disk), d1)"
    using open_store_fresh [of empty_disk] by (auto simp: empty_disk_def)
  moreover have "fst (start_server (demo_env\<lparr>cfg := st\<rparr>) s) = Inr ()" for s
    using st(2,3) by (simp add: start_server_def wg_init_def bootstrap_first_account_def act_defs strip_def)
  ultimately obtain e s0 d' where l: "launch demo_env (\<lambda>_. None) empty_disk = (Inr (e, s0), d')"
    using st(1) by (simp add: launch_def act_defs Let_def)
  have "files empty_disk = (\<lambda>_. None)" by (simp add: empty_disk_def)
  from launched_run [OF this l swept_reachable [of e s0 500], of 5 "''acc_1''"] l show ?thesis
    by (auto simp: env_int_def)
qed

end
