(* ===== verification/Spec2Isabelle.thy ===== *)
theory Spec2Isabelle
  imports Pool_Launch
begin

text \<open>
  A verification development for prima-pool-server, the control plane of a pool of workers that serve
  language models together. The program is the Python package src/src/prima_pool_server: a FastAPI
  application (app.py) over an SQLite store (store.py), a scheduler that groups waiting workers into
  clusters (scheduler.py), the server's own WireGuard side (wg_server.py), a WebSocket hub that pushes
  frames to workers (ws_hub.py), a liveness monitor (liveness.py), a router and a proxy for inference
  requests (router.py and the chat handler of app.py), credentials (security.py), configuration
  (config.py) and the record types (models.py).

  \<^bold>\<open>How the parts interact.\<close> A handler of app.py authenticates its caller against the store, reads and writes
  the store, and calls the scheduler when the set of waiting or seated workers has changed. The
  scheduler writes clusters, members and workers, brings the server's own tunnel up or down, and
  schedules notifications; the event loop later starts them and the hub sends them, one socket after
  another. The monitor writes silent
  workers back as offline and lets the scheduler dissolve their clusters. The router picks a live
  cluster for a chat request, whose answer is relayed and accounted.

  \<^bold>\<open>The model.\<close> A state is a record \<open>pool\<close>: the tables of the database as lists of rows in rowid order
  (\<open>db\<close>, theory Pool_Store), the WireGuard keys and the commands issued, the scheduled notifications, the
  connections of the hub and what was sent, the open sockets, and the suspended coroutines: sockets that
  wait for their accept (\<open>accepting\<close>), sends under way with what their coroutine still has to do
  (\<open>flights\<close>), chat requests that wait for their body (\<open>admitted\<close>) and calls that wait for the head
  (\<open>calls\<close>). Code that can raise is an action \<open>('s, 'a) act\<close>, a function from a state to a result or an
  exception together with the new state (Pool_Prelude); a transaction that rolls back is \<open>atomic\<close>. Its
  calculus is a weakest precondition \<open>wp\<close> with one postcondition for the result and one for the exception.
  Python integers are \<open>int\<close>; a value stored in an INTEGER column must fit into 64 bits (\<open>sql_int\<close>), otherwise
  sqlite3 raises OverflowError. The float arithmetic of the accounting (shares, effective tokens and their
  sums) rounds every operation to 53 bits (Pool_Float), with the exponent unbounded, for it starts from 64-bit
  integers, and with one zero. Times, which are floats in the code and are only compared and moved by
  constants, are exact rationals. Texts are lists of characters, code points below 256 only. Dicts are association
  lists in insertion order.

  \<^bold>\<open>Theories.\<close>
  \<^item> Pool_Prelude: actions, \<open>wp\<close>, \<open>keeps\<close>, dicts, strings; Pool_Float: rounding and its error; Pool_Records: the
    records of models.py and the row codec of store.py; Pool_Security: security.py; Pool_Json, Pool_Net: JSON values, the parser of the
    SSE usage and the endpoint checks of app.py.
  \<^item> Pool_Store: accounts, keys and workers of store.py with the constraints of its schema; Pool_Clusters:
    clusters and members, the readiness gate and the layer report, with their specifications on cluster
    records; Pool_Rings: the rings stay well formed; Pool_Lifecycle: how clusters evolve.
  \<^item> Pool_WireGuard: wg_server.py and the state record; Pool_Scheduler: scheduler.py with the invariant of
    the pool (\<open>pool_ok\<close>); Pool_Router: router.py and the public lists; Pool_Config: config.py;
    Pool_Liveness: liveness.py; Pool_Hub: ws_hub.py and the notification tasks, each send in two steps.
  \<^item> Pool_Usage: the request log, attribution and statistics of store.py and app.py; Pool_Auth: the
    credential helpers of app.py; Pool_Accounts: accounts, keys, administration, bootstrap; Pool_Workers:
    the worker handlers; Pool_ClusterApi: configuration, readiness reports and the WebSocket loop;
    Pool_Chat: the proxy, in three parts; Pool_UsageApi: the usage endpoints and dashboard.py.
  \<^item> Pool_Migration: \<open>_migrate_schema\<close> of store.py on a catalogue of columns and the old JSON columns;
    Pool_Snapshot: the import of a JSON snapshot and the opening of a store on a map from paths to files.
  \<^item> Pool_Invariants: the invariants \<open>good\<close> and \<open>history\<close> and that each operation of the store and the
    scheduler keeps them; Pool_Kept: the locales \<open>steady\<close> and \<open>kept\<close>, the contract that makes every handler
    keep an invariant; Pool_System: the routes of \<open>create_app\<close>, the runs of the server, and the properties
    of every run; Pool_Launch: cli.py, the settings read from the environment, and the start of a server.

  \<^bold>\<open>What the lemmas show.\<close> The component theories state what each operation does, on every branch and for
  every exception, and relate the SQL of the store to specifications on records (refinement). The
  operations then keep the schema, the rings, the seats and the subnets. Pool_System puts the handlers
  together. The event loop switches coroutines at an await only, so \<open>step\<close> is what runs between two
  awaits. Most handlers have none, and are one step each. The others are split where they wait: a chat
  request at \<open>await request.json()\<close> (\<open>chat_admit\<close>, \<open>chat_route\<close>) and at the call of the head (\<open>chat_finish\<close>); a
  WebSocket at \<open>await ws.accept()\<close> (\<open>ws_open\<close>, \<open>ws_accepted\<close>) and at every message (\<open>ws_receive\<close>,
  \<open>ws_close\<close>); a coroutine that sends (a notification, the hello of a socket) at every \<open>await ws.send_json\<close>
  (\<open>hub_send\<close>, \<open>hub_sent\<close>). The pong, after which nothing is read, is part of its message. Further steps are
  a pass of the monitor, a restart, and a change of the clock to any value. \<open>reachable\<close> is any sequence of
  steps, so every interleaving of the event loop is such a
  sequence. In every run from a good state, the empty database in particular, the schema, the seats,
  the quotas and the history are kept. The migrations lose no record of an old store, and opening a store
  again changes nothing; an import that failed is not tried again, which is a finding.

  \<^bold>\<open>Parameters.\<close> Code that is not in the repository is an argument, in the record \<open>env\<close>: the cryptographic
  primitives (\<open>crypto\<close>: SHA-256, HMAC, scrypt, base64), the JSON parser and printer, the outcome of
  wg-quick and of file writes (\<open>wg_outcome\<close>), the X25519 key generator and the public key of a private one,
  the classification of IPv6 texts, and the source of random tokens in the state (\<open>rnd\<close>). What the client sends
  as a body, what the head of a cluster answers, and whether an accept or a send succeeds are arguments of the
  step that resumes the coroutine. The only assumptions on them are
  \<open>crypto_ok\<close> (base64 decodes what it encodes and its texts contain no dollar sign, scrypt returns 32 bytes, the HMAC is a
  hexadecimal text) where a password or a session is verified, and freshness of an id where stated.

  \<^bold>\<open>Bounds.\<close> There is no fuel: all loops of the program are structural recursions on lists, and that repeated
  formation ends is proved. Parsers that Python limits (4300 digits) carry the limit.

  \<^bold>\<open>Not modelled.\<close> Of the migrations: values of a wrong JSON type, directories, and the pragmas of a
  connection. The static page under ui/ and logging: input and output only; uvicorn. The
  formatting of times as ISO texts; NaN and infinite bounds of usage windows; the sleep of the monitor's
  loop (one call of \<open>monitor_pass\<close> is one round). SQL leaves the order of rows with equal sort keys open; the
  model takes rowid order. Texts with characters above 255, lone surrogates in JSON among them.
\<close>

end
